(* ===== verification/SC_Prelude.thy ===== *)
theory SC_Prelude
  imports
    Main
    "HOL-Library.Finite_Map"
    "HOL-Library.Sublist"
    "HOL-Library.Char_ord"
    "HOL-Library.List_Lexorder"
begin

text \<open>
  Shared vocabulary of the development.

  A Go \<open>string\<close> and a Go \<open>[]byte\<close> are both sequences of bytes, so both are Isabelle's
  \<open>string\<close> (a \<open>char\<close> is one byte).  A Go \<open>map[string]V\<close> is a finite map
  \<open>(string, 'v) fmap\<close>; the order in which \<open>range\<close> visits it is not fixed by the
  language, so every loop over a map takes the order from an oracle \<open>range_order\<close>
  that may be any enumeration of the keys (\<open>range_ok\<close>).  \<open>time.Duration\<close> is an
  \<open>int\<close> of nanoseconds, \<open>time.Time\<close> an \<open>int\<close> of nanoseconds since some epoch, and
  the zero \<open>time.Time\<close> (which the program uses as \<open>never expires\<close>) is \<open>None\<close> of
  \<open>int option\<close>.  The readings of \<open>time.Now()\<close> are a stream \<open>clock\<close>: its element
  \<open>0\<close> is the next reading, and a monotone stream (\<open>mono_clock\<close>) is Go's monotonic clock.
\<close>

type_synonym bytes = string
type_synonym 'v gomap = "(string, 'v) fmap"
type_synonym range_order = "string fset \<Rightarrow> string list"
type_synonym clock = "nat \<Rightarrow> int"
type_synonym ('a, 's) op = "'s \<Rightarrow> 'a \<times> 's"

named_theorems key_defs \<open>definitions of the key builders\<close>
named_theorems op_defs \<open>definitions of the store operations\<close>
named_theorems cache_defs \<open>definitions of the cache operations\<close>

subsection \<open>Strings\<close>

definition HasPrefix :: "string \<Rightarrow> string \<Rightarrow> bool" where
  "HasPrefix s p = prefix p s"

definition HasSuffix :: "string \<Rightarrow> string \<Rightarrow> bool" where
  "HasSuffix s p = suffix p s"

definition strings_Contains :: "string \<Rightarrow> string \<Rightarrow> bool" where
  "strings_Contains s p = sublist p s"

text \<open>The slice expression \<open>s[lo:hi]\<close>, which Go evaluates only for \<open>lo \<le> hi \<le> len(s)\<close>.\<close>

definition go_slice :: "string \<Rightarrow> nat \<Rightarrow> nat \<Rightarrow> string" where
  "go_slice s lo hi = take (hi - lo) (drop lo s)"

lemma go_slice_middle [simp]:
  "go_slice (p @ m @ q) (length p) (length p + length m) = m"
  "go_slice (p @ m @ q) (length p) (length m + length p) = m"
  by (simp_all add: go_slice_def)

lemma prefix_append_cancel [simp]: "prefix (p @ a) (p @ b) = prefix a b"
  by (induction p) auto

lemma sublist_singleton [simp]: "sublist [c] s \<longleftrightarrow> c \<in> set s"
  by (auto simp: sublist_def in_set_conv_decomp)

text \<open>A separator \<open>::\<close> splits a string uniquely where the left part cannot contain it.\<close>

lemma append_separator_unique:
  assumes "a @ CHR '':'' # r = b @ CHR '':'' # s" "CHR '':'' \<notin> set a" "CHR '':'' \<notin> set b"
  shows "a = b \<and> r = s"
  using assms
proof (induction a arbitrary: b)
  case Nil
  then show ?case by (cases b) auto
next
  case (Cons x a)
  then show ?case by (cases b) auto
qed

subsection \<open>Maps and their iteration\<close>

definition range_ok :: "range_order \<Rightarrow> bool" where
  "range_ok ord \<longleftrightarrow> (\<forall>A. distinct (ord A) \<and> set (ord A) = fset A)"

lemma range_okD [simp]:
  "range_ok ord \<Longrightarrow> distinct (ord A)"
  "range_ok ord \<Longrightarrow> set (ord A) = fset A"
  by (auto simp: range_ok_def)

lemma range_ok_sorted: "range_ok sorted_list_of_fset"
proof -
  have "distinct (sorted_list_of_fset A)" for A :: "string fset"
    unfolding sorted_list_of_fset.rep_eq by (rule sorted_list_of_set.distinct_sorted_key_list_of_set)
  then show ?thesis by (simp add: range_ok_def)
qed

lemma fmap_eqI: "(\<And>k. fmlookup m k = fmlookup n k) \<Longrightarrow> m = n"
  by (rule fmap_ext) simp

subsection \<open>The clock\<close>

definition mono_clock :: "clock \<Rightarrow> bool" where
  "mono_clock c \<longleftrightarrow> (\<forall>i j. i \<le> j \<longrightarrow> c i \<le> c j)"

definition tail_clock :: "clock \<Rightarrow> clock" where
  "tail_clock c = (\<lambda>i. c (Suc i))"

lemma mono_clock_tail [simp]: "mono_clock c \<Longrightarrow> mono_clock (tail_clock c)"
  by (simp add: mono_clock_def tail_clock_def)

lemma tail_clock_nth [simp]: "tail_clock c i = c (Suc i)"
  by (simp add: tail_clock_def)

lemma mono_clockD: "mono_clock c \<Longrightarrow> i \<le> j \<Longrightarrow> c i \<le> c j"
  by (simp add: mono_clock_def)

text \<open>An instant is past a deadline when there is a deadline and the instant is after it.\<close>

definition expired_at :: "int option \<Rightarrow> int \<Rightarrow> bool" where
  "expired_at d t = (case d of None \<Rightarrow> False | Some e \<Rightarrow> t > e)"

lemma expired_at_simps [simp]:
  "expired_at None t = False"
  "expired_at (Some e) t = (t > e)"
  by (simp_all add: expired_at_def)

lemma expired_at_mono: "expired_at d t \<Longrightarrow> t \<le> t' \<Longrightarrow> expired_at d t'"
  by (cases d) auto

definition deadline :: "int \<Rightarrow> int \<Rightarrow> int option" where
  "deadline now ttl = (if ttl > 0 then Some (now + ttl) else None)"

lemma deadline_not_expired: "t \<le> now \<Longrightarrow> \<not> expired_at (deadline now ttl) t"
  by (simp add: deadline_def)

end
