(* ===== verification/Errors.thy ===== *)
theory Errors
  imports SC_Prelude
begin

text \<open>
  The error values of the program: one constructor per sentinel of \<open>errors.go\<close>, errors made
  elsewhere (a backend, a loader, a codec) as \<open>OtherErr\<close>, \<open>fmt.Errorf\<close> with \<open>%w\<close> as
  \<open>WrapErr\<close> and \<open>errors.Join\<close> as \<open>JoinErr\<close>, with the parts of the standard \<open>errors\<close>
  package the program uses.  A Go \<open>error\<close> result is an \<open>error option\<close>, \<open>None\<close> being \<open>nil\<close>.
\<close>

datatype error =
    ErrStoreMiss
  | ErrNotFound
  | ErrInvalidTTL
  | ErrPointerType
  | ErrNilWrite
  | ErrNilStore
  | ErrEmptyName
  | ErrDuplicateName
  | ErrEmptyPrefix
  | ErrInvalidJitterFraction
  | ErrNotAliasGroup
  | ErrAliasingNotSupported
  | ErrNotUniqueKeyed
  | ErrEmptyKeyPrefix
  | ErrPrefixEvictNotSupported
  | ErrWildcardKeyPrefix
  | OtherErr string
  | WrapErr string error
  | JoinErr "error list"

text \<open>\<open>errors.Is(err, target)\<close>: the error itself or anything it wraps.\<close>

fun errors_is :: "error \<Rightarrow> error \<Rightarrow> bool" where
  "errors_is (WrapErr m e) t = (WrapErr m e = t \<or> errors_is e t)"
| "errors_is (JoinErr es) t = (JoinErr es = t \<or> list_ex (\<lambda>e. errors_is e t) es)"
| "errors_is e t = (e = t)"

definition errors_Is :: "error option \<Rightarrow> error \<Rightarrow> bool" where
  "errors_Is err t = (case err of None \<Rightarrow> False | Some e \<Rightarrow> errors_is e t)"

lemma errors_Is_simps [simp]:
  "errors_Is None t = False"
  "errors_Is (Some e) t = errors_is e t"
  by (simp_all add: errors_Is_def)

lemma errors_is_refl [simp]: "errors_is e e"
  by (cases e) auto

text \<open>\<open>errors.Join\<close> of non-nil errors is \<open>nil\<close> exactly when there are none.\<close>

definition errors_Join :: "error list \<Rightarrow> error option" where
  "errors_Join es = (if es = [] then None else Some (JoinErr es))"

lemma errors_Join_None [simp]: "errors_Join es = None \<longleftrightarrow> es = []"
  by (simp add: errors_Join_def)

lemma errors_Join_Is:
  "t \<noteq> JoinErr es \<Longrightarrow> errors_Is (errors_Join es) t \<longleftrightarrow> (\<exists>e \<in> set es. errors_is e t)"
  by (auto simp: errors_Join_def list_ex_iff)

text \<open>The messages of \<open>errors.go\<close>, and those that \<open>Error\<close> makes of wrapped and joined errors.\<close>

definition newline :: string where "newline = [CHR 0x0A]"

fun error_Error :: "error \<Rightarrow> string" where
  "error_Error ErrStoreMiss = ''smartcache: store miss''"
| "error_Error ErrNotFound = ''smartcache: not found''"
| "error_Error ErrInvalidTTL = ''smartcache: TTL must be > 0 (set AllowInfinite for no expiry)''"
| "error_Error ErrPointerType = ''smartcache: T must not itself be a pointer type''"
| "error_Error ErrNilWrite = ''smartcache: writer returned a nil value with no error''"
| "error_Error ErrNilStore = ''smartcache: store must not be nil''"
| "error_Error ErrEmptyName = ''smartcache: cache name must not be empty''"
| "error_Error ErrDuplicateName = ''smartcache: cache name already registered''"
| "error_Error ErrEmptyPrefix = ''smartcache: prefix must not be empty''"
| "error_Error ErrInvalidJitterFraction = ''smartcache: jitter fraction must be in [0, 1)''"
| "error_Error ErrNotAliasGroup = ''smartcache: cache is not an alias group''"
| "error_Error ErrAliasingNotSupported = ''smartcache: store does not implement AliasCacheStore''"
| "error_Error ErrNotUniqueKeyed = ''smartcache: value type does not implement UniqueKeyed (CacheUniqueKey() string)''"
| "error_Error ErrEmptyKeyPrefix = ''smartcache: key prefix must not be empty''"
| "error_Error ErrPrefixEvictNotSupported = ''smartcache: store does not support prefix eviction''"
| "error_Error ErrWildcardKeyPrefix = ''smartcache: key prefix must not contain the wildcard '' @ [CHR 0x27] @ ''*'' @ [CHR 0x27]"
| "error_Error (OtherErr m) = m"
| "error_Error (WrapErr m e) = m @ '': '' @ error_Error e"
| "error_Error (JoinErr []) = ''''"
| "error_Error (JoinErr [e]) = error_Error e"
| "error_Error (JoinErr (e # es)) = error_Error e @ newline @ error_Error (JoinErr es)"

text \<open>The verb \<open>%q\<close>: a string in quotes, with the escapes that Go has for ASCII characters.\<close>

definition go_escape :: "char \<Rightarrow> string" where
  "go_escape c =
     (let back = CHR 0x5C; n = of_char c :: nat in
      if c = CHR 0x22 \<or> c = back then [back, c]
      else if 7 \<le> n \<and> n \<le> 13 then [back, ''abtnvfr'' ! (n - 7)]
      else if n < 32 \<or> n = 127 then [back, CHR ''x'', ''0123456789abcdef'' ! (n div 16), ''0123456789abcdef'' ! (n mod 16)]
      else [c])"

definition go_quote :: "string \<Rightarrow> string" where
  "go_quote s = [CHR 0x22] @ concat (map go_escape s) @ [CHR 0x22]"

text \<open>What a call hands back when the program may panic: a return value or the panic.\<close>

datatype 'r go = Ret 'r | Panic string

end
