(* ===== verification/Store_Interface.thy ===== *)
theory Store_Interface
  imports Errors
begin

text \<open>
  The backend interfaces of \<open>store.go\<close> and \<open>alias.go\<close>.  A backend with state \<open>'s\<close> is a record
  of operations; an operation takes the state and returns its result and the next state.  The
  optional extensions (\<open>BatchCacheStore\<close>, \<open>PrefixCacheStore\<close>, \<open>AliasCacheStore\<close>,
  \<open>PrefixAliasOps\<close>), which the program detects with comma-ok type assertions, are \<open>option\<close>
  fields.  The locales state what the program relies on: \<open>timed_store\<close> is the contract of a
  store that keeps what it is given until its deadline.
\<close>

record 's cache_store =
  cs_Get :: "string \<Rightarrow> (error + bytes, 's) op"
  cs_Set :: "string \<Rightarrow> bytes \<Rightarrow> int \<Rightarrow> (error option, 's) op"
  cs_Delete :: "string \<Rightarrow> (error option, 's) op"
  cs_Exists :: "string \<Rightarrow> (error + bool, 's) op"

type_synonym 's get_many = "string list \<Rightarrow> (error + bytes gomap, 's) op"
type_synonym 's delete_by_prefix = "string \<Rightarrow> (int \<times> error option, 's) op"

record AliasRef =
  Field :: string
  Value :: string

datatype AliasMode = AliasColocated | AliasSharded

record 's alias_ops =
  ao_GetValue :: "string \<Rightarrow> (error + bytes, 's) op"
  ao_PutValue :: "string \<Rightarrow> bytes \<Rightarrow> int \<Rightarrow> (error option, 's) op"
  ao_EvictByPrimary :: "string \<Rightarrow> (error option, 's) op"
  ao_GetByAlias :: "AliasRef \<Rightarrow> (error + bytes, 's) op"
  ao_PutByAlias :: "string \<Rightarrow> AliasRef \<Rightarrow> bytes \<Rightarrow> int \<Rightarrow> (error option, 's) op"
  ao_EvictByAlias :: "AliasRef \<Rightarrow> (error option, 's) op"
  ao_EvictByPrimaryPrefix :: "'s delete_by_prefix option"

record 's store_impl =
  si_store :: "'s cache_store"
  si_GetMany :: "'s get_many option"
  si_DeleteByPrefix :: "'s delete_by_prefix option"
  si_AliasGroup :: "(string \<Rightarrow> AliasMode \<Rightarrow> 's alias_ops) option"

text \<open>What an entry with a deadline reads as at an instant.\<close>

definition readable_at :: "int \<Rightarrow> (bytes \<times> int option) option \<Rightarrow> bytes option" where
  "readable_at t e = (case e of None \<Rightarrow> None | Some (b, d) \<Rightarrow> if expired_at d t then None else Some b)"

text \<open>
  The contract of a store that does not fail.  \<open>entries\<close> is the abstract content, a value and an
  optional deadline per key; \<open>now\<close> is the instant of the next operation.  A read returns
  exactly the unexpired entry of its key, may drop expired ones and keeps the others.  A write with a
  lifetime of at least \<open>least\<close> gets the deadline \<open>expiry\<close>, which lies less than \<open>grain\<close> from the
  lifetime asked for (a store may round it); what other lifetimes mean is the store's own business.
\<close>

locale timed_store =
  fixes Get :: "string \<Rightarrow> (error + bytes, 's) op"
    and Set :: "string \<Rightarrow> bytes \<Rightarrow> int \<Rightarrow> (error option, 's) op"
    and Delete :: "string \<Rightarrow> (error option, 's) op"
    and entries :: "'s \<Rightarrow> string \<Rightarrow> (bytes \<times> int option) option"
    and now :: "'s \<Rightarrow> int"
    and inv :: "'s \<Rightarrow> bool"
    and expiry :: "int \<Rightarrow> int \<Rightarrow> int option"
    and grain :: int
    and least :: int
  assumes get_result: "inv s \<Longrightarrow> fst (Get k s) =
      (case entries s k of
         None \<Rightarrow> Inl ErrStoreMiss
       | Some (b, d) \<Rightarrow> if expired_at d (now s) then Inl ErrStoreMiss else Inr b)"
    and get_frame: "inv s \<Longrightarrow> k' \<noteq> k \<Longrightarrow> entries (snd (Get k s)) k' = entries s k'"
    and get_keeps: "inv s \<Longrightarrow> entries s k = Some (b, d) \<Longrightarrow> \<not> expired_at d (now s) \<Longrightarrow>
      entries (snd (Get k s)) k = Some (b, d)"
    and get_drops: "inv s \<Longrightarrow>
      entries (snd (Get k s)) k = None \<or> entries (snd (Get k s)) k = entries s k"
    and set_result: "inv s \<Longrightarrow> fst (Set k b ttl s) = None"
    and set_entry: "inv s \<Longrightarrow> least \<le> ttl \<Longrightarrow>
      entries (snd (Set k b ttl s)) k = Some (b, expiry (now s) ttl)"
    and set_other: "inv s \<Longrightarrow> k' \<noteq> k \<Longrightarrow> entries (snd (Set k b ttl s)) k' = entries s k'"
    and delete_result: "inv s \<Longrightarrow> fst (Delete k s) = None"
    and delete_entries: "inv s \<Longrightarrow> entries (snd (Delete k s)) = (entries s)(k := None)"
    and get_inv: "inv s \<Longrightarrow> inv (snd (Get k s)) \<and> now s \<le> now (snd (Get k s))"
    and set_inv: "inv s \<Longrightarrow> inv (snd (Set k b ttl s)) \<and> now s \<le> now (snd (Set k b ttl s))"
    and delete_inv: "inv s \<Longrightarrow> inv (snd (Delete k s)) \<and> now s \<le> now (snd (Delete k s))"
    and expiry_close: "least \<le> ttl \<Longrightarrow> \<exists>d. expiry t ttl = Some d \<and> t + ttl < d + grain \<and> d < t + ttl + grain"
begin

lemma expiry_not_yet: "least \<le> ttl \<Longrightarrow> t' + (grain - 1) \<le> t + ttl \<Longrightarrow> \<not> expired_at (expiry t ttl) t'"
  using expiry_close [of ttl t] by auto

lemma expiry_past: "least \<le> ttl \<Longrightarrow> t + ttl + grain \<le> t' \<Longrightarrow> expired_at (expiry t ttl) t'"
  using expiry_close [of ttl t] by auto

text \<open>What the next read of a key would return.\<close>

definition visible :: "'s \<Rightarrow> string \<Rightarrow> bytes option" where
  "visible s k = (case entries s k of
     None \<Rightarrow> None | Some (b, d) \<Rightarrow> if expired_at d (now s) then None else Some b)"

lemma get_visible:
  "inv s \<Longrightarrow> fst (Get k s) = (case visible s k of None \<Rightarrow> Inl ErrStoreMiss | Some b \<Rightarrow> Inr b)"
  by (auto simp: get_result visible_def split: option.splits)

lemma get_hit: "inv s \<Longrightarrow> fst (Get k s) = Inr b \<longleftrightarrow> visible s k = Some b"
  by (auto simp: get_visible split: option.splits)

lemma get_miss: "inv s \<Longrightarrow> visible s k = None \<Longrightarrow> fst (Get k s) = Inl ErrStoreMiss"
  by (simp add: get_visible)

lemma get_entries_back:
  "inv s \<Longrightarrow> entries (snd (Get k s)) k' = Some x \<Longrightarrow> entries s k' = Some x"
  using get_drops [of s k] get_frame [of s k' k] by (cases "k' = k") auto

lemma get_visible_back:
  "inv s \<Longrightarrow> visible (snd (Get k s)) k' = Some b \<Longrightarrow> visible s k' = Some b"
  using get_entries_back [of s k k'] get_inv [of s k] expired_at_mono
  by (fastforce simp: visible_def split: option.splits if_splits prod.splits)

lemma get_keeps_entry:
  "inv s \<Longrightarrow> entries s k' = Some (b, d) \<Longrightarrow> \<not> expired_at d (now s) \<Longrightarrow>
     entries (snd (Get k s)) k' = Some (b, d)"
  using get_keeps [of s k b d] get_frame [of s k' k] by (cases "k' = k") auto

lemma set_then_get:
  assumes "inv s" "least \<le> ttl" "now (snd (Set k b ttl s)) + (grain - 1) \<le> now s + ttl"
  shows "fst (Get k (snd (Set k b ttl s))) = Inr b"
  using assms set_inv [OF assms(1), of k b ttl] expiry_not_yet [OF assms(2,3)]
  by (simp add: get_result set_entry)

lemma set_then_get_expired:
  assumes "inv s" "least \<le> ttl" "now s + ttl + grain \<le> now (snd (Set k b ttl s))"
  shows "fst (Get k (snd (Set k b ttl s))) = Inl ErrStoreMiss"
  using assms set_inv [OF assms(1), of k b ttl] expiry_past [OF assms(2,3)]
  by (simp add: get_result set_entry)

lemma delete_then_get:
  "inv s \<Longrightarrow> fst (Get k (snd (Delete k s))) = Inl ErrStoreMiss"
  using delete_inv [of s k] by (simp add: get_result delete_entries)

end

end
