(* ===== verification/Memstore.thy ===== *)
theory Memstore
  imports Store_Interface
begin

text \<open>
  \<open>memstore/memstore.go\<close>: the in-memory store.  Its state is the two maps of the Go struct,
  together with the readings \<open>time.Now()\<close> is going to give (\<open>clock\<close>) and the order in which
  \<open>range\<close> visits a map (\<open>range_ord\<close>).  The mutex makes each critical section atomic;
  \<open>Get\<close> has two of them, \<open>mem_Get_read\<close> and \<open>mem_Get_purge\<close>.
\<close>

record entry =
  e_val :: bytes
  e_expiresAt :: "int option"

record membersHash =
  mh_fields :: "string gomap"
  mh_expiresAt :: "int option"

record memstore =
  data :: "entry gomap"
  members :: "membersHash gomap"
  clock :: clock
  range_ord :: range_order

definition mem_New :: "clock \<Rightarrow> range_order \<Rightarrow> memstore" where
  "mem_New c ord = \<lparr>data = fmempty, members = fmempty, clock = c, range_ord = ord\<rparr>"

definition time_Now :: "(int, memstore) op" where
  "time_Now s = (clock s 0, s\<lparr>clock := tail_clock (clock s)\<rparr>)"

definition aliasExpired :: "int option \<Rightarrow> (bool, memstore) op" where
  "aliasExpired t s =
     (case t of
        None \<Rightarrow> (False, s)
      | Some e \<Rightarrow> (let (now, s1) = time_Now s in (now > e, s1)))"

definition expAt :: "int \<Rightarrow> (int option, memstore) op" where
  "expAt ttl s =
     (if ttl > 0 then (let (now, s1) = time_Now s in (Some (now + ttl), s1)) else (None, s))"

definition cloneBytes :: "bytes \<Rightarrow> bytes" where
  "cloneBytes b = b"

subsection \<open>Operations\<close>

text \<open>The read section of \<open>Get\<close>: the entry, if there is one, and whether it has expired.\<close>

definition mem_Get_read :: "string \<Rightarrow> ((entry \<times> bool) option, memstore) op" where [op_defs]:
  "mem_Get_read key s =
     (case fmlookup (data s) key of
        None \<Rightarrow> (None, s)
      | Some e \<Rightarrow> (let (ex, s1) = aliasExpired (e_expiresAt e) s in (Some (e, ex), s1)))"

text \<open>The write section: delete the key if its entry still has the expiry that was read.\<close>

definition mem_Get_purge :: "string \<Rightarrow> entry \<Rightarrow> memstore \<Rightarrow> memstore" where [op_defs]:
  "mem_Get_purge key e s =
     (case fmlookup (data s) key of
        Some cur \<Rightarrow>
          (if e_expiresAt cur = e_expiresAt e then s\<lparr>data := fmdrop key (data s)\<rparr> else s)
      | None \<Rightarrow> s)"

definition mem_Get :: "string \<Rightarrow> (error + bytes, memstore) op" where [op_defs]:
  "mem_Get key s =
     (case mem_Get_read key s of
        (None, s1) \<Rightarrow> (Inl ErrStoreMiss, s1)
      | (Some (e, expired), s1) \<Rightarrow>
          if expired then (Inl ErrStoreMiss, mem_Get_purge key e s1)
          else (Inr (cloneBytes (e_val e)), s1))"

definition mem_Set :: "string \<Rightarrow> bytes \<Rightarrow> int \<Rightarrow> (error option, memstore) op" where [op_defs]:
  "mem_Set key val ttl s =
     (let (expiresAt, s1) = expAt ttl s
      in (None, s1\<lparr>data := fmupd key \<lparr>e_val = cloneBytes val, e_expiresAt = expiresAt\<rparr> (data s1)\<rparr>))"

definition mem_Delete :: "string \<Rightarrow> (error option, memstore) op" where [op_defs]:
  "mem_Delete key s = (None, s\<lparr>data := fmdrop key (data s)\<rparr>)"

fun delete_prefix_loop :: "string \<Rightarrow> string list \<Rightarrow> int \<Rightarrow> (int, memstore) op" where
  "delete_prefix_loop keyPrefix [] removed s = (removed, s)"
| "delete_prefix_loop keyPrefix (key # keys) removed s =
     (if \<not> HasPrefix key keyPrefix then delete_prefix_loop keyPrefix keys removed s
      else
        case fmlookup (data s) key of
          None \<Rightarrow> delete_prefix_loop keyPrefix keys removed s
        | Some e \<Rightarrow>
            (let (ex, s1) = aliasExpired (e_expiresAt e) s;
                 removed' = (if \<not> ex then removed + 1 else removed)
             in delete_prefix_loop keyPrefix keys removed' (s1\<lparr>data := fmdrop key (data s1)\<rparr>)))"

definition mem_DeleteByPrefix :: "string \<Rightarrow> (int \<times> error option, memstore) op" where
  "mem_DeleteByPrefix keyPrefix s =
     (let (removed, s1) = delete_prefix_loop keyPrefix (range_ord s (fmdom (data s))) 0 s
      in ((removed, None), s1))"

definition mem_Exists :: "string \<Rightarrow> (error + bool, memstore) op" where [op_defs]:
  "mem_Exists key s =
     (case fmlookup (data s) key of
        None \<Rightarrow> (Inr False, s)
      | Some e \<Rightarrow>
          (let (ex, s1) = aliasExpired (e_expiresAt e) s
           in if ex then (Inr False, s1) else (Inr True, s1)))"

fun get_many_loop :: "string list \<Rightarrow> bytes gomap \<Rightarrow> (error + bytes gomap, memstore) op" where
  "get_many_loop [] out s = (Inr out, s)"
| "get_many_loop (k # ks) out s =
     (case mem_Get k s of
        (Inr b, s1) \<Rightarrow> get_many_loop ks (fmupd k b out) s1
      | (Inl err, s1) \<Rightarrow>
          if errors_is err ErrStoreMiss then get_many_loop ks out s1 else (Inl err, s1))"

definition mem_GetMany :: "string list \<Rightarrow> (error + bytes gomap, memstore) op" where
  "mem_GetMany keys s = get_many_loop keys fmempty s"

definition mem_store :: "memstore cache_store" where
  "mem_store = \<lparr>cs_Get = mem_Get, cs_Set = mem_Set, cs_Delete = mem_Delete, cs_Exists = mem_Exists\<rparr>"

lemma mem_store_simps [simp]:
  "cs_Get mem_store = mem_Get" "cs_Set mem_store = mem_Set"
  "cs_Delete mem_store = mem_Delete" "cs_Exists mem_store = mem_Exists"
  by (simp_all add: mem_store_def)

subsection \<open>Time passes\<close>

text \<open>\<open>later s t\<close>: the clock of \<open>t\<close> is the clock of \<open>s\<close> some readings later.\<close>

definition later :: "memstore \<Rightarrow> memstore \<Rightarrow> bool" where
  "later s t \<longleftrightarrow> (\<exists>n. clock t = (\<lambda>i. clock s (i + n))) \<and> range_ord t = range_ord s"

definition mem_inv :: "memstore \<Rightarrow> bool" where
  "mem_inv s \<longleftrightarrow> mono_clock (clock s) \<and> range_ok (range_ord s)"

definition mem_now :: "memstore \<Rightarrow> int" where
  "mem_now s = clock s 0"

lemma later_refl [simp]: "later s s"
  by (auto simp: later_def intro: exI [of _ 0])

lemma later_trans [trans]: "later s t \<Longrightarrow> later t u \<Longrightarrow> later s u"
  by (auto simp: later_def add.assoc)

lemma later_tail [simp]: "later s (s\<lparr>clock := tail_clock (clock s)\<rparr>)"
  by (auto simp: later_def tail_clock_def intro: exI [of _ 1])

lemma later_update [simp]:
  "later s (t\<lparr>data := d\<rparr>) \<longleftrightarrow> later s t"
  "later s (t\<lparr>members := m\<rparr>) \<longleftrightarrow> later s t"
  "later (t\<lparr>data := d\<rparr>) s \<longleftrightarrow> later t s"
  "later (t\<lparr>members := m\<rparr>) s \<longleftrightarrow> later t s"
  by (auto simp: later_def)

lemma later_inv: "later s t \<Longrightarrow> mem_inv s \<Longrightarrow> mem_inv t"
  by (auto simp: later_def mem_inv_def mono_clock_def)

lemma later_now: "later s t \<Longrightarrow> mem_inv s \<Longrightarrow> mem_now s \<le> mem_now t"
  by (auto simp: later_def mem_inv_def mem_now_def mono_clock_def)

lemma mem_inv_updates [simp]:
  "mem_inv (s\<lparr>data := d\<rparr>) = mem_inv s" "mem_inv (s\<lparr>members := m\<rparr>) = mem_inv s"
  by (simp_all add: mem_inv_def)

lemma mem_now_updates [simp]:
  "mem_now (s\<lparr>data := d\<rparr>) = mem_now s" "mem_now (s\<lparr>members := m\<rparr>) = mem_now s"
  by (simp_all add: mem_now_def)

lemma aliasExpired_fst [simp]: "fst (aliasExpired t s) = expired_at t (mem_now s)"
  by (auto simp: aliasExpired_def time_Now_def mem_now_def split: option.splits)

lemma aliasExpired_snd [simp]:
  "data (snd (aliasExpired t s)) = data s"
  "members (snd (aliasExpired t s)) = members s"
  "later s (snd (aliasExpired t s))"
  by (auto simp: aliasExpired_def time_Now_def split: option.splits)

lemma expAt_fst [simp]: "fst (expAt ttl s) = deadline (mem_now s) ttl"
  by (simp add: expAt_def time_Now_def deadline_def mem_now_def)

lemma expAt_snd [simp]:
  "data (snd (expAt ttl s)) = data s"
  "members (snd (expAt ttl s)) = members s"
  "later s (snd (expAt ttl s))"
  by (auto simp: expAt_def time_Now_def)

lemma cloneBytes_id [simp]: "cloneBytes b = b"
  by (simp add: cloneBytes_def)

subsection \<open>The store meets its contract\<close>

definition mem_entries :: "memstore \<Rightarrow> string \<Rightarrow> (bytes \<times> int option) option" where
  "mem_entries s k = map_option (\<lambda>e. (e_val e, e_expiresAt e)) (fmlookup (data s) k)"

lemma mem_Get_fst:
  "fst (mem_Get k s) =
     (case mem_entries s k of
        None \<Rightarrow> Inl ErrStoreMiss
      | Some (b, d) \<Rightarrow> if expired_at d (mem_now s) then Inl ErrStoreMiss else Inr b)"
  by (auto simp: op_defs mem_entries_def case_prod_unfold Let_def split: option.splits)

lemma mem_Get_data:
  "data (snd (mem_Get k s)) =
     (case fmlookup (data s) k of
        None \<Rightarrow> data s
      | Some e \<Rightarrow> if expired_at (e_expiresAt e) (mem_now s) then fmdrop k (data s) else data s)"
  by (auto simp: op_defs case_prod_unfold Let_def split: option.splits)

lemma mem_Get_snd [simp]:
  "members (snd (mem_Get k s)) = members s"
  "later s (snd (mem_Get k s))"
  by (auto simp: op_defs case_prod_unfold Let_def split: option.splits)

lemma mem_Set_simps [simp]:
  "fst (mem_Set k b ttl s) = None"
  "data (snd (mem_Set k b ttl s)) =
     fmupd k \<lparr>e_val = b, e_expiresAt = deadline (mem_now s) ttl\<rparr> (data s)"
  "members (snd (mem_Set k b ttl s)) = members s"
  "later s (snd (mem_Set k b ttl s))"
  by (simp_all add: op_defs case_prod_unfold Let_def)

lemma mem_Delete_simps [simp]:
  "fst (mem_Delete k s) = None"
  "data (snd (mem_Delete k s)) = fmdrop k (data s)"
  "members (snd (mem_Delete k s)) = members s"
  "later s (snd (mem_Delete k s))"
  by (simp_all add: op_defs)

lemma mem_Set_entries: "mem_entries (snd (mem_Set k b ttl s)) = (mem_entries s)(k \<mapsto> (b, deadline (mem_now s) ttl))"
  by (auto simp: mem_entries_def)

text \<open>Every positive lifetime is kept to the nanosecond.\<close>

interpretation mem: timed_store mem_Get mem_Set mem_Delete mem_entries mem_now mem_inv deadline 1 1
proof unfold_locales
  fix s k k' b d ttl
  assume inv: "mem_inv s"
  show "fst (mem_Get k s) =
      (case mem_entries s k of
         None \<Rightarrow> Inl ErrStoreMiss
       | Some (b, d) \<Rightarrow> if expired_at d (mem_now s) then Inl ErrStoreMiss else Inr b)"
    by (rule mem_Get_fst)
  show "k' \<noteq> k \<Longrightarrow> mem_entries (snd (mem_Get k s)) k' = mem_entries s k'"
    by (auto simp: mem_entries_def mem_Get_data split: option.splits)
  show "mem_entries s k = Some (b, d) \<Longrightarrow> \<not> expired_at d (mem_now s) \<Longrightarrow>
      mem_entries (snd (mem_Get k s)) k = Some (b, d)"
    by (auto simp: mem_entries_def mem_Get_data split: option.splits)
  show "mem_entries (snd (mem_Get k s)) k = None \<or> mem_entries (snd (mem_Get k s)) k = mem_entries s k"
    by (auto simp: mem_entries_def mem_Get_data split: option.splits)
  show "fst (mem_Set k b ttl s) = None" "fst (mem_Delete k s) = None" by simp_all
  show "mem_entries (snd (mem_Set k b ttl s)) k = Some (b, deadline (mem_now s) ttl)"
    "k' \<noteq> k \<Longrightarrow> mem_entries (snd (mem_Set k b ttl s)) k' = mem_entries s k'"
    by (simp_all add: mem_Set_entries)
  show "mem_entries (snd (mem_Delete k s)) = (mem_entries s)(k := None)"
    by (auto simp: mem_entries_def)
  show "mem_inv (snd (mem_Get k s)) \<and> mem_now s \<le> mem_now (snd (mem_Get k s))"
    "mem_inv (snd (mem_Set k b ttl s)) \<and> mem_now s \<le> mem_now (snd (mem_Set k b ttl s))"
    "mem_inv (snd (mem_Delete k s)) \<and> mem_now s \<le> mem_now (snd (mem_Delete k s))"
    using inv by (simp_all add: later_inv [of s] later_now)
next
  fix ttl t :: int assume "1 \<le> ttl"
  then show "\<exists>d. deadline t ttl = Some d \<and> t + ttl < d + 1 \<and> d < t + ttl + 1" by (simp add: deadline_def)
qed

text \<open>The cost of a read in clock readings, needed to place later readings exactly.\<close>

lemma mem_Set_clock:
  "0 < ttl \<Longrightarrow> mem_now (snd (mem_Set k b ttl s)) = clock s 1"
  by (simp add: op_defs expAt_def time_Now_def mem_now_def Let_def)

lemma mem_New_simps [simp]:
  "data (mem_New c ord) = fmempty" "members (mem_New c ord) = fmempty" "clock (mem_New c ord) = c"
  "mem_now (mem_New c ord) = c 0" "mem_inv (mem_New c ord) \<longleftrightarrow> mono_clock c \<and> range_ok ord"
  by (simp_all add: mem_New_def mem_now_def mem_inv_def)

lemma mono_clock_int [simp]: "mono_clock int"
  by (simp add: mono_clock_def)

declare range_ok_sorted [simp]

subsection \<open>Prefix deletion\<close>

definition unexpired_with_prefix :: "entry gomap \<Rightarrow> string \<Rightarrow> int \<Rightarrow> string set" where
  "unexpired_with_prefix m p t =
     {k \<in> fmdom' m. HasPrefix k p \<and> \<not> expired_at (e_expiresAt (the (fmlookup m k))) t}"

lemma delete_prefix_loop_data [simp]:
  "data (snd (delete_prefix_loop p ks n s)) =
     fmfilter (\<lambda>k. \<not> (HasPrefix k p \<and> k \<in> set ks)) (data s)"
  by (induction ks arbitrary: n s)
    (auto simp: case_prod_unfold Let_def intro!: fmap_eqI split: option.splits)

lemma delete_prefix_loop_members [simp]:
  "members (snd (delete_prefix_loop p ks n s)) = members s"
  by (induction ks arbitrary: n s) (auto simp: case_prod_unfold Let_def split: option.splits)

lemma delete_prefix_loop_later [simp]: "later s (snd (delete_prefix_loop p ks n s))"
proof (induction ks arbitrary: n s)
  case (Cons k ks)
  have "later s (snd (delete_prefix_loop p ks n' (snd (aliasExpired d s)\<lparr>data := m\<rparr>)))" for n' d m
    by (rule later_trans [OF _ Cons.IH]) simp
  with Cons.IH show ?case by (auto simp: case_prod_unfold Let_def split: option.splits)
qed simp

text \<open>Entries count when they are unexpired at the instant the loop reaches them.\<close>

lemma unexpired_with_prefix_mono:
  "t \<le> t' \<Longrightarrow> unexpired_with_prefix m p t' \<subseteq> unexpired_with_prefix m p t"
  by (auto simp: unexpired_with_prefix_def intro: expired_at_mono)

lemma finite_unexpired [simp]: "finite (unexpired_with_prefix m p t)"
  by (rule finite_subset [of _ "fmdom' m"]) (auto simp: unexpired_with_prefix_def)

lemma unexpired_Int_Cons:
  "k \<notin> set ks \<Longrightarrow> int (card (unexpired_with_prefix m p t \<inter> set (k # ks))) =
     int (card (unexpired_with_prefix m p t \<inter> set ks)) +
     (if k \<in> unexpired_with_prefix m p t then 1 else 0)"
  by (simp add: Int_insert_right)

lemma unexpired_Int_drop:
  "k \<notin> A \<Longrightarrow> unexpired_with_prefix (fmdrop k m) p t \<inter> A = unexpired_with_prefix m p t \<inter> A"
  by (auto simp: unexpired_with_prefix_def)

lemma unexpired_Int_card_mono:
  "t \<le> t' \<Longrightarrow> card (unexpired_with_prefix m p t' \<inter> A) \<le> card (unexpired_with_prefix m p t \<inter> A)"
  using unexpired_with_prefix_mono [of t t' m p] by (intro card_mono) auto

lemma delete_prefix_loop_count:
  assumes "mem_inv s" "distinct ks"
  shows "n + int (card (unexpired_with_prefix (data s) p (mem_now (snd (delete_prefix_loop p ks n s))) \<inter> set ks))
           \<le> fst (delete_prefix_loop p ks n s) \<and>
         fst (delete_prefix_loop p ks n s)
           \<le> n + int (card (unexpired_with_prefix (data s) p (mem_now s) \<inter> set ks))"
  using assms
proof (induction ks arbitrary: n s)
  case Nil
  then show ?case by simp
next
  case (Cons k ks)
  let ?U = "unexpired_with_prefix (data s) p"
  have k: "k \<notin> set ks" using Cons.prems by simp
  show ?case
  proof (cases "HasPrefix k p \<and> fmlookup (data s) k \<noteq> None")
    case False
    then have "k \<notin> ?U t" for t by (auto simp: unexpired_with_prefix_def fmlookup_dom'_iff)
    moreover have "delete_prefix_loop p (k # ks) n s = delete_prefix_loop p ks n s"
      using False by (auto split: option.splits)
    ultimately show ?thesis
      using Cons.IH [of s n] Cons.prems k by (simp only: unexpired_Int_Cons) simp
  next
    case True
    then obtain e where e: "fmlookup (data s) k = Some e" by auto
    define s1 where "s1 = snd (aliasExpired (e_expiresAt e) s)\<lparr>data := fmdrop k (data s)\<rparr>"
    define n1 where "n1 = (if expired_at (e_expiresAt e) (mem_now s) then n else n + 1)"
    have step: "delete_prefix_loop p (k # ks) n s = delete_prefix_loop p ks n1 s1"
      using True e by (simp add: s1_def n1_def case_prod_unfold Let_def)
    have inU: "k \<in> ?U t \<longleftrightarrow> \<not> expired_at (e_expiresAt e) t" for t
      using True e by (auto simp: unexpired_with_prefix_def fmlookup_dom'_iff)
    have s1: "later s s1" "mem_inv s1" "data s1 = fmdrop k (data s)"
      using Cons.prems by (auto simp: s1_def intro: later_inv [of s])
    have now1: "mem_now s \<le> mem_now s1" using s1(1) Cons.prems(1) by (rule later_now)
    let ?t = "mem_now (snd (delete_prefix_loop p ks n1 s1))"
    have now2: "mem_now s1 \<le> ?t" using s1(2) by (intro later_now) auto
    note IH = Cons.IH [of s1 n1, OF s1(2), unfolded s1(3) unexpired_Int_drop [OF k]]
    have "k \<in> ?U ?t \<Longrightarrow> n1 = n + 1"
      using expired_at_mono [OF _ order_trans [OF now1 now2]] unfolding inU by (auto simp: n1_def)
    moreover have "n \<le> n1" by (simp add: n1_def)
    ultimately have "n + (if k \<in> ?U ?t then 1 else 0) \<le> n1" by auto
    moreover have "n1 = n + (if k \<in> ?U (mem_now s) then 1 else 0)"
      by (simp add: n1_def inU)
    ultimately show ?thesis
      using IH Cons.prems unexpired_Int_card_mono [OF now1, of "data s" p "set ks"]
      unfolding step unexpired_Int_Cons [OF k] by auto
  qed
qed

lemma mem_DeleteByPrefix_simps:
  assumes "mem_inv s"
  shows "data (snd (mem_DeleteByPrefix p s)) = fmfilter (\<lambda>k. \<not> HasPrefix k p) (data s)"
    and "members (snd (mem_DeleteByPrefix p s)) = members s"
    and "later s (snd (mem_DeleteByPrefix p s))"
    and "snd (fst (mem_DeleteByPrefix p s)) = None"
proof -
  have "set (range_ord s (fmdom (data s))) = fmdom' (data s)"
    using assms by (simp add: mem_inv_def fmdom'_alt_def)
  then show "data (snd (mem_DeleteByPrefix p s)) = fmfilter (\<lambda>k. \<not> HasPrefix k p) (data s)"
    by (auto simp: mem_DeleteByPrefix_def case_prod_unfold Let_def fmdom'_notD intro!: fmap_eqI)
  show "members (snd (mem_DeleteByPrefix p s)) = members s"
    "later s (snd (mem_DeleteByPrefix p s))" "snd (fst (mem_DeleteByPrefix p s)) = None"
    by (simp_all add: mem_DeleteByPrefix_def case_prod_unfold Let_def)
qed

lemma mem_DeleteByPrefix_count:
  assumes "mem_inv s"
  shows "int (card (unexpired_with_prefix (data s) p (mem_now (snd (mem_DeleteByPrefix p s)))))
           \<le> fst (fst (mem_DeleteByPrefix p s))"
    and "fst (fst (mem_DeleteByPrefix p s))
           \<le> int (card (unexpired_with_prefix (data s) p (mem_now s)))"
proof -
  have ord: "set (range_ord s (fmdom (data s))) = fmdom' (data s)"
    "distinct (range_ord s (fmdom (data s)))"
    using assms by (simp_all add: mem_inv_def fmdom'_alt_def)
  have "unexpired_with_prefix (data s) p t \<inter> fmdom' (data s) = unexpired_with_prefix (data s) p t" for t
    by (auto simp: unexpired_with_prefix_def)
  with delete_prefix_loop_count [OF assms ord(2), of 0 p, unfolded ord(1)]
  show "int (card (unexpired_with_prefix (data s) p (mem_now (snd (mem_DeleteByPrefix p s)))))
           \<le> fst (fst (mem_DeleteByPrefix p s))"
    "fst (fst (mem_DeleteByPrefix p s)) \<le> int (card (unexpired_with_prefix (data s) p (mem_now s)))"
    by (auto simp: mem_DeleteByPrefix_def case_prod_unfold Let_def)
qed

subsection \<open>Batch reads and existence\<close>

lemma mem_Get_cases:
  "(\<exists>b. fst (mem_Get k s) = Inr b \<and> mem.visible s k = Some b) \<or>
     fst (mem_Get k s) = Inl ErrStoreMiss \<and> mem.visible s k = None"
  by (auto simp: mem_Get_fst mem.visible_def split: option.splits)

lemma get_many_loop_Cons:
  "get_many_loop (k # ks) out s =
     get_many_loop ks
       (case mem.visible s k of Some b \<Rightarrow> fmupd k b out | None \<Rightarrow> out) (snd (mem_Get k s))"
  using mem_Get_cases [of k s] by (auto simp: case_prod_unfold split: sum.splits)

declare get_many_loop.simps(2) [simp del]

lemma get_many_loop_ok: "\<exists>out'. fst (get_many_loop ks out s) = Inr out'"
  by (induction ks arbitrary: out s) (auto simp: get_many_loop_Cons)

lemma get_many_loop_later [simp]: "later s (snd (get_many_loop ks out s))"
proof (induction ks arbitrary: out s)
  case (Cons k ks)
  show ?case
    unfolding get_many_loop_Cons by (rule later_trans [OF _ Cons.IH]) simp
qed simp

lemma get_many_loop_sound:
  assumes "mem_inv s" "fst (get_many_loop ks out s) = Inr out'" "fmlookup out' k = Some b"
  shows "fmlookup out k = Some b \<or> (k \<in> set ks \<and> mem.visible s k = Some b)"
  using assms
proof (induction ks arbitrary: out s)
  case (Cons q ks)
  let ?out = "case mem.visible s q of Some b \<Rightarrow> fmupd q b out | None \<Rightarrow> out"
  from Cons.prems(1) have "mem_inv (snd (mem_Get q s))" by (simp add: later_inv [of s])
  from Cons.IH [OF this, of ?out] Cons.prems
  have "fmlookup ?out k = Some b \<or> k \<in> set ks \<and> mem.visible s k = Some b"
    using mem.get_visible_back [OF Cons.prems(1)] by (auto simp: get_many_loop_Cons)
  then show ?case by (auto split: option.splits if_splits)
qed simp

lemma get_many_loop_complete:
  assumes "mem_inv s" "fst (get_many_loop ks out s) = Inr out'"
    and "mem_entries s k = Some (b, d)" "\<not> expired_at d (mem_now (snd (get_many_loop ks out s)))"
    and "k \<in> set ks \<or> fmlookup out k = Some b"
  shows "fmlookup out' k = Some b"
  using assms
proof (induction ks arbitrary: out s)
  case (Cons q ks)
  let ?s = "snd (mem_Get q s)"
  let ?out = "case mem.visible s q of Some b \<Rightarrow> fmupd q b out | None \<Rightarrow> out"
  have inv: "mem_inv ?s" using Cons.prems(1) by (simp add: later_inv [of s])
  have "later s (snd (get_many_loop ks ?out ?s))"
    using get_many_loop_later [of s "q # ks" out] by (simp add: get_many_loop_Cons)
  then have "mem_now s \<le> mem_now (snd (get_many_loop ks ?out ?s))"
    using Cons.prems(1) by (rule later_now)
  then have live: "\<not> expired_at d (mem_now s)"
    using Cons.prems(4) expired_at_mono by (auto simp: get_many_loop_Cons)
  then have "mem_entries ?s k = Some (b, d)"
    using Cons.prems by (intro mem.get_keeps_entry)
  moreover have "mem.visible s k = Some b"
    using Cons.prems(3) live by (simp add: mem.visible_def)
  then have "k \<in> set ks \<or> fmlookup ?out k = Some b"
    using Cons.prems(5) by (auto split: option.splits)
  ultimately show ?case
    using Cons.IH [OF inv] Cons.prems by (simp add: get_many_loop_Cons)
qed simp

lemma mem_Exists_fst: "fst (mem_Exists k s) = Inr (mem.visible s k \<noteq> None)"
  by (auto simp: op_defs mem.visible_def mem_entries_def case_prod_unfold Let_def split: option.splits)

lemma mem_Exists_snd [simp]:
  "data (snd (mem_Exists k s)) = data s" "members (snd (mem_Exists k s)) = members s"
  "later s (snd (mem_Exists k s))"
  by (auto simp: op_defs case_prod_unfold Let_def split: option.splits)

end
