(* ===== verification/Mem_Concurrency.thy ===== *)
theory Mem_Concurrency
  imports Memstore
begin

text \<open>
  \<open>store.Get\<close> under concurrency.  It is the one operation of the memory store that is not one
  critical section: it copies the entry under the read lock, looks at the clock without a lock,
  and, when the entry has expired, deletes the key under the write lock.  Between the three any
  other goroutine may run.  A state is the store together with the goroutines that are between
  the first and the second part (\<open>grabbed\<close>) or the second and the third (\<open>purging\<close>), each
  with the key and the entry it copied.
\<close>

record conc =
  st :: memstore
  grabbed :: "(string \<times> entry) list"
  purging :: "(string \<times> entry) list"

inductive conc_step :: "conc \<Rightarrow> conc \<Rightarrow> bool" where
  grab: "fmlookup (data (st x)) k = Some e \<Longrightarrow>
     conc_step x (x\<lparr>grabbed := (k, e) # grabbed x\<rparr>)"
| check_live: "(k, e) \<in> set (grabbed x) \<Longrightarrow> aliasExpired (e_expiresAt e) (st x) = (False, s) \<Longrightarrow>
     conc_step x (x\<lparr>st := s, grabbed := remove1 (k, e) (grabbed x)\<rparr>)"
| check_expired: "(k, e) \<in> set (grabbed x) \<Longrightarrow> aliasExpired (e_expiresAt e) (st x) = (True, s) \<Longrightarrow>
     conc_step x (x\<lparr>st := s, grabbed := remove1 (k, e) (grabbed x), purging := (k, e) # purging x\<rparr>)"
| purge: "(k, e) \<in> set (purging x) \<Longrightarrow>
     conc_step x (x\<lparr>st := mem_Get_purge k e (st x), purging := remove1 (k, e) (purging x)\<rparr>)"
| others: "later (st x) s \<Longrightarrow> conc_step x (x\<lparr>st := s\<rparr>)"

inductive_cases conc_stepE: "conc_step x y"

definition conc_init :: "memstore \<Rightarrow> conc" where
  "conc_init s = \<lparr>st = s, grabbed = [], purging = []\<rparr>"

text \<open>Every goroutine about to purge holds an expiry that has passed, and stays passed.\<close>

definition purges_expired :: "conc \<Rightarrow> bool" where
  "purges_expired x \<longleftrightarrow> mem_inv (st x) \<and>
     (\<forall>k e. (k, e) \<in> set (purging x) \<longrightarrow> expired_at (e_expiresAt e) (mem_now (st x)))"

lemma mem_Get_purge_simps [simp]:
  "later s (mem_Get_purge k e s)"
  "fmlookup (data (mem_Get_purge k e s)) q =
     (if q = k \<and> map_option e_expiresAt (fmlookup (data s) k) = Some (e_expiresAt e) then None
      else fmlookup (data s) q)"
  "clock (mem_Get_purge k e s) = clock s"
  by (auto simp: mem_Get_purge_def split: option.splits)

lemma purges_expired_later:
  "purges_expired x \<Longrightarrow> later (st x) s \<Longrightarrow> set ps \<subseteq> set (purging x) \<Longrightarrow>
     purges_expired (x\<lparr>st := s, grabbed := cs, purging := ps\<rparr>)"
  by (auto simp: purges_expired_def later_inv intro: expired_at_mono [OF _ later_now])

lemma conc_step_inv: "conc_step x y \<Longrightarrow> purges_expired x \<Longrightarrow> purges_expired y"
proof (induction rule: conc_step.induct)
  case (grab x k e)
  then show ?case by (simp add: purges_expired_def)
next
  case (check_live k e x s)
  then have "later (st x) s" using aliasExpired_snd(3) [of "st x" "e_expiresAt e"] by simp
  from purges_expired_later [OF check_live.prems this, of "purging x" "remove1 (k, e) (grabbed x)"]
  show ?case by (simp add: purges_expired_def)
next
  case (check_expired k e x s)
  then have l: "later (st x) s" using aliasExpired_snd(3) [of "st x" "e_expiresAt e"] by simp
  have "expired_at (e_expiresAt e) (mem_now (st x))"
    using aliasExpired_fst [of "e_expiresAt e" "st x"] check_expired by simp
  moreover have "mem_now (st x) \<le> mem_now s"
    using l check_expired.prems by (simp add: purges_expired_def later_now)
  ultimately have "expired_at (e_expiresAt e) (mem_now s)" by (rule expired_at_mono)
  with purges_expired_later [OF check_expired.prems l, of "purging x" "remove1 (k, e) (grabbed x)"]
  show ?case by (auto simp: purges_expired_def)
next
  case (purge k e x)
  have "set (remove1 (k, e) (purging x)) \<subseteq> set (purging x)" by (rule set_remove1_subset)
  from purges_expired_later [OF purge.prems _ this, of "mem_Get_purge k e (st x)" "grabbed x"]
  show ?case by (simp add: purges_expired_def)
next
  case (others x s)
  from purges_expired_later [OF others.prems others.hyps, of "purging x" "grabbed x"]
  show ?case by (simp add: purges_expired_def)
qed

lemma conc_reach_inv:
  assumes "conc_step\<^sup>*\<^sup>* (conc_init s) x" "mem_inv s" shows "purges_expired x"
  using assms(1)
proof induction
  case base
  show ?case using assms(2) by (simp add: conc_init_def purges_expired_def)
qed (rule conc_step_inv)

text \<open>C36: The late purge is harmless.  In any interleaving of concurrent reads with each other and with
  any other operations, when a goroutine runs the deletion part of \<open>Get\<close>, every entry that has not
  expired stays in the store with its value and expiry: a value that was written again in between is
  not lost.\<close>

theorem purge_keeps_live_entries:
  assumes "mem_inv s" "conc_step\<^sup>*\<^sup>* (conc_init s) x" "(k, e) \<in> set (purging x)"
    and "fmlookup (data (st x)) q = Some e'" "\<not> expired_at (e_expiresAt e') (mem_now (st x))"
  shows "fmlookup (data (mem_Get_purge k e (st x))) q = Some e'"
proof -
  have "expired_at (e_expiresAt e) (mem_now (st x))"
    using conc_reach_inv [OF assms(2,1)] assms(3) by (simp add: purges_expired_def)
  with assms(4,5) show ?thesis by auto
qed

theorem purge_keeps_live_entries_witness:
  "\<exists>x e. conc_step\<^sup>*\<^sup>* (conc_init (mem_New int sorted_list_of_fset)) x \<and> (''k'', e) \<in> set (purging x) \<and>
     fmlookup (data (mem_Get_purge ''k'' e (st x))) ''k'' = Some \<lparr>e_val = ''new'', e_expiresAt = None\<rparr>"
proof -
  let ?s0 = "mem_New int sorted_list_of_fset"
  let ?e = "\<lparr>e_val = ''old'', e_expiresAt = Some (-1)\<rparr>"
  let ?old = "?s0\<lparr>data := fmupd ''k'' ?e fmempty\<rparr>"
  let ?new = "?s0\<lparr>data := fmupd ''k'' \<lparr>e_val = ''new'', e_expiresAt = None\<rparr> fmempty,
    clock := tail_clock int\<rparr>"
  let ?x1 = "(conc_init ?s0)\<lparr>st := ?old\<rparr>"
  let ?x2 = "?x1\<lparr>grabbed := [(''k'', ?e)]\<rparr>"
  let ?x3 = "?x2\<lparr>st := ?old\<lparr>clock := tail_clock int\<rparr>, grabbed := [], purging := [(''k'', ?e)]\<rparr>"
  let ?x4 = "?x3\<lparr>st := ?new\<rparr>"
  have "conc_step (conc_init ?s0) ?x1" by (rule others) (simp add: conc_init_def)
  moreover have "conc_step ?x1 ?x2"
    using grab [of ?x1 "''k''" ?e] by (simp add: conc_init_def)
  moreover have "conc_step ?x2 ?x3"
    using check_expired [of "''k''" ?e ?x2 "?old\<lparr>clock := tail_clock int\<rparr>"]
    by (simp add: conc_init_def aliasExpired_def time_Now_def mem_New_def)
  moreover have "conc_step ?x3 ?x4"
    by (rule others) (auto simp: later_def mem_New_def conc_init_def tail_clock_def intro: exI [of _ 0])
  ultimately have r: "conc_step\<^sup>*\<^sup>* (conc_init ?s0) ?x4"
    by (meson converse_rtranclp_into_rtranclp rtranclp.rtrancl_refl)
  have i: "mem_inv ?s0" by (simp add: mem_inv_def mem_New_def mono_clock_def range_ok_sorted)
  have p: "(''k'', ?e) \<in> set (purging ?x4)" by simp
  have "fmlookup (data (mem_Get_purge ''k'' ?e (st ?x4))) ''k'' = Some \<lparr>e_val = ''new'', e_expiresAt = None\<rparr>"
    by (rule purge_keeps_live_entries [OF i r p]) simp_all
  with r p show ?thesis by blast
qed

end
