(* ===== verification/Keyspace.thy ===== *)
theory Keyspace
  imports SC_Prelude
begin

text \<open>
  \<open>internal/keyspace/keyspace.go\<close>: the builders of every storage key, the \<open>Match\<close> families
  that prefix eviction scans for, and the inverses that read a primary key back out of a
  value or members key.  The lemmas give the round trips, the injectivity of the builders,
  the disjointness of the key families, and where two caches' keys can meet.
\<close>

definition globalPrefix :: string where [key_defs]: "globalPrefix = ''bc''"
definition grpSeg :: string where [key_defs]: "grpSeg = ''grp''"
definition membSeg :: string where [key_defs]: "membSeg = ''memb''"

definition NonAliasKey :: "string \<Rightarrow> string \<Rightarrow> string" where [key_defs]:
  "NonAliasKey ns key = globalPrefix @ ''::'' @ ns @ ''::'' @ key"

definition ValueKey :: "string \<Rightarrow> string \<Rightarrow> bool \<Rightarrow> string" where [key_defs]:
  "ValueKey ns pk sharded =
     (if sharded then globalPrefix @ ''::{'' @ ns @ ''::'' @ pk @ ''}''
      else globalPrefix @ ''::{'' @ ns @ ''}::'' @ pk)"

definition MembersKey :: "string \<Rightarrow> string \<Rightarrow> bool \<Rightarrow> string" where [key_defs]:
  "MembersKey ns pk sharded =
     (if sharded then globalPrefix @ ''::'' @ membSeg @ ''::{'' @ ns @ ''::'' @ pk @ ''}''
      else globalPrefix @ ''::'' @ membSeg @ ''::{'' @ ns @ ''}::'' @ pk)"

definition PointerKey :: "string \<Rightarrow> string \<Rightarrow> string \<Rightarrow> bool \<Rightarrow> string" where [key_defs]:
  "PointerKey ns field value sharded =
     (if sharded
      then globalPrefix @ ''::'' @ grpSeg @ ''::{'' @ ns @ ''::'' @ field @ ''::'' @ value @ ''}''
      else globalPrefix @ ''::'' @ grpSeg @ ''::{'' @ ns @ ''}::'' @ field @ ''::'' @ value)"

definition ColocatedValuePrefix :: "string \<Rightarrow> string" where [key_defs]:
  "ColocatedValuePrefix ns = globalPrefix @ ''::{'' @ ns @ ''}::''"

definition ColocatedMembersPrefix :: "string \<Rightarrow> string" where [key_defs]:
  "ColocatedMembersPrefix ns = globalPrefix @ ''::'' @ membSeg @ ''::{'' @ ns @ ''}::''"

definition ColocatedGrpPrefix :: "string \<Rightarrow> string" where [key_defs]:
  "ColocatedGrpPrefix ns = globalPrefix @ ''::'' @ grpSeg @ ''::{'' @ ns @ ''}::''"

record Match =
  Prefix :: string
  Suffix :: string

definition Match_Contains :: "Match \<Rightarrow> string \<Rightarrow> bool" where
  "Match_Contains m key \<longleftrightarrow>
     length key \<ge> length (Prefix m) + length (Suffix m) \<and>
     HasPrefix key (Prefix m) \<and> HasSuffix key (Suffix m)"

definition NonAliasKeyPrefix :: "string \<Rightarrow> string \<Rightarrow> string" where [key_defs]:
  "NonAliasKeyPrefix ns keyPrefix = globalPrefix @ ''::'' @ ns @ ''::'' @ keyPrefix"

definition ValueMatch :: "string \<Rightarrow> string \<Rightarrow> bool \<Rightarrow> Match" where
  "ValueMatch ns pkPrefix sharded =
     (if sharded
      then \<lparr>Prefix = globalPrefix @ ''::{'' @ ns @ ''::'' @ pkPrefix, Suffix = ''}''\<rparr>
      else \<lparr>Prefix = globalPrefix @ ''::{'' @ ns @ ''}::'' @ pkPrefix, Suffix = ''''\<rparr>)"

definition MembersMatch :: "string \<Rightarrow> string \<Rightarrow> bool \<Rightarrow> Match" where
  "MembersMatch ns pkPrefix sharded =
     (if sharded
      then \<lparr>Prefix = globalPrefix @ ''::'' @ membSeg @ ''::{'' @ ns @ ''::'' @ pkPrefix,
            Suffix = ''}''\<rparr>
      else \<lparr>Prefix = globalPrefix @ ''::'' @ membSeg @ ''::{'' @ ns @ ''}::'' @ pkPrefix,
            Suffix = ''''\<rparr>)"

definition primaryOf :: "Match \<Rightarrow> string \<Rightarrow> string \<times> bool" where
  "primaryOf m key =
     (if \<not> Match_Contains m key then ('''', False)
      else (go_slice key (length (Prefix m)) (length key - length (Suffix m)), True))"

definition PrimaryFromValueKey :: "string \<Rightarrow> string \<Rightarrow> bool \<Rightarrow> string \<times> bool" where
  "PrimaryFromValueKey ns key sharded = primaryOf (ValueMatch ns '''' sharded) key"

definition PrimaryFromMembersKey :: "string \<Rightarrow> string \<Rightarrow> bool \<Rightarrow> string \<times> bool" where
  "PrimaryFromMembersKey ns key sharded = primaryOf (MembersMatch ns '''' sharded) key"

subsection \<open>Families of keys\<close>

lemma Match_Contains_iff:
  "Match_Contains m key \<longleftrightarrow> (\<exists>mid. key = Prefix m @ mid @ Suffix m)"
proof
  assume a: "Match_Contains m key"
  then obtain r where r: "key = Prefix m @ r"
    by (auto simp: Match_Contains_def HasPrefix_def prefix_def)
  with a have "suffix (Suffix m) (Prefix m @ r)" "length (Suffix m) \<le> length r"
    by (auto simp: Match_Contains_def HasSuffix_def)
  then have "suffix (Suffix m) r"
    by (metis suffixI suffix_length_suffix)
  with r show "\<exists>mid. key = Prefix m @ mid @ Suffix m"
    by (auto simp: suffix_def)
next
  assume "\<exists>mid. key = Prefix m @ mid @ Suffix m"
  then show "Match_Contains m key"
    by (auto simp: Match_Contains_def HasPrefix_def HasSuffix_def suffix_def)
qed

lemma primaryOf_wrapped [simp]:
  "primaryOf m (Prefix m @ mid @ Suffix m) = (mid, True)"
  by (auto simp: primaryOf_def Match_Contains_iff)

lemma primaryOf_True_iff:
  "primaryOf m key = (mid, True) \<longleftrightarrow> key = Prefix m @ mid @ Suffix m"
proof
  assume a: "primaryOf m key = (mid, True)"
  then have "Match_Contains m key"
    by (auto simp: primaryOf_def split: if_splits)
  then obtain mid' where "key = Prefix m @ mid' @ Suffix m"
    by (auto simp: Match_Contains_iff)
  with a show "key = Prefix m @ mid @ Suffix m" by simp
qed simp

lemma ValueKey_Match:
  "ValueKey ns (p @ mid) sharded =
     Prefix (ValueMatch ns p sharded) @ mid @ Suffix (ValueMatch ns p sharded)"
  by (simp add: ValueKey_def ValueMatch_def)

lemma MembersKey_Match:
  "MembersKey ns (p @ mid) sharded =
     Prefix (MembersMatch ns p sharded) @ mid @ Suffix (MembersMatch ns p sharded)"
  by (simp add: MembersKey_def MembersMatch_def)

text \<open>The slice in \<^const>\<open>primaryOf\<close> never panics: its bounds are in range whenever it is reached.\<close>

lemma primaryOf_slice_in_bounds:
  "Match_Contains m key \<Longrightarrow>
     length (Prefix m) \<le> length key - length (Suffix m) \<and>
     length key - length (Suffix m) \<le> length key"
  by (auto simp: Match_Contains_def)

lemma PrimaryFromValueKey_True_iff:
  "PrimaryFromValueKey ns key sharded = (pk, True) \<longleftrightarrow> key = ValueKey ns pk sharded"
  using ValueKey_Match [of ns "[]" pk sharded]
  by (simp add: PrimaryFromValueKey_def primaryOf_True_iff)

lemma PrimaryFromMembersKey_True_iff:
  "PrimaryFromMembersKey ns key sharded = (pk, True) \<longleftrightarrow> key = MembersKey ns pk sharded"
  using MembersKey_Match [of ns "[]" pk sharded]
  by (simp add: PrimaryFromMembersKey_def primaryOf_True_iff)

lemma PrimaryFromValueKey_ValueKey [simp]:
  "PrimaryFromValueKey ns (ValueKey ns pk sharded) sharded = (pk, True)"
  by (simp add: PrimaryFromValueKey_True_iff)

lemma PrimaryFromMembersKey_MembersKey [simp]:
  "PrimaryFromMembersKey ns (MembersKey ns pk sharded) sharded = (pk, True)"
  by (simp add: PrimaryFromMembersKey_True_iff)

lemma ValueMatch_Contains_iff:
  "Match_Contains (ValueMatch ns p sharded) key \<longleftrightarrow>
     (\<exists>pk. key = ValueKey ns pk sharded \<and> HasPrefix pk p)"
  by (auto simp: Match_Contains_iff HasPrefix_def prefix_def ValueKey_Match [symmetric])

lemma MembersMatch_Contains_iff:
  "Match_Contains (MembersMatch ns p sharded) key \<longleftrightarrow>
     (\<exists>pk. key = MembersKey ns pk sharded \<and> HasPrefix pk p)"
  by (auto simp: Match_Contains_iff HasPrefix_def prefix_def MembersKey_Match [symmetric])

subsection \<open>Injectivity and disjointness\<close>

lemma NonAliasKey_inject [simp]: "NonAliasKey ns k = NonAliasKey ns k' \<longleftrightarrow> k = k'"
  by (simp add: NonAliasKey_def)

lemma ValueKey_inject [simp]: "ValueKey ns pk sh = ValueKey ns pk' sh \<longleftrightarrow> pk = pk'"
  by (simp add: ValueKey_def)

lemma MembersKey_inject [simp]: "MembersKey ns pk sh = MembersKey ns pk' sh \<longleftrightarrow> pk = pk'"
  by (simp add: MembersKey_def)

text \<open>The part of a pointer key that tells aliases of one cache apart.\<close>

definition alias_tail :: "string \<Rightarrow> string \<Rightarrow> string" where
  "alias_tail field value = field @ ''::'' @ value"

definition tail_key :: "string \<Rightarrow> string \<Rightarrow> bool \<Rightarrow> string" where
  "tail_key ns t sharded =
     (if sharded then globalPrefix @ ''::'' @ grpSeg @ ''::{'' @ ns @ ''::'' @ t @ ''}''
      else globalPrefix @ ''::'' @ grpSeg @ ''::{'' @ ns @ ''}::'' @ t)"

lemma PointerKey_tail: "PointerKey ns f v sh = tail_key ns (alias_tail f v) sh"
  by (simp add: PointerKey_def tail_key_def alias_tail_def)

lemma tail_key_inject [simp]: "tail_key ns t sh = tail_key ns t' sh \<longleftrightarrow> t = t'"
  by (simp add: tail_key_def)

lemma tail_key_disjoint [simp]:
  "tail_key ns t sh \<noteq> ValueKey ns' pk sh'" "ValueKey ns' pk sh' \<noteq> tail_key ns t sh"
  by (auto simp: key_defs tail_key_def)

lemma PointerKey_eq_iff:
  "PointerKey ns f v sh = PointerKey ns f' v' sh \<longleftrightarrow> alias_tail f v = alias_tail f' v'"
  by (simp add: PointerKey_tail)

lemma alias_tail_same [simp]: "alias_tail f v = alias_tail f v' \<longleftrightarrow> v = v'"
  by (simp add: alias_tail_def)

lemma alias_tail_inject:
  "CHR '':'' \<notin> set f \<Longrightarrow> CHR '':'' \<notin> set f' \<Longrightarrow>
     alias_tail f v = alias_tail f' v' \<longleftrightarrow> f = f' \<and> v = v'"
  using append_separator_unique [of f "CHR '':'' # v" f' "CHR '':'' # v'"]
  by (auto simp: alias_tail_def)

lemma key_families_disjoint [simp]:
  "ValueKey ns pk sh \<noteq> MembersKey ns' pk' sh'"
  "ValueKey ns pk sh \<noteq> PointerKey ns' f v sh'"
  "MembersKey ns pk sh \<noteq> PointerKey ns' f v sh'"
  "MembersKey ns' pk' sh' \<noteq> ValueKey ns pk sh"
  "PointerKey ns' f v sh' \<noteq> ValueKey ns pk sh"
  "PointerKey ns' f v sh' \<noteq> MembersKey ns pk sh"
  by (auto simp: key_defs)

lemma PrimaryFromValueKey_PointerKey [simp]:
  "PrimaryFromValueKey ns (PointerKey ns' f v sh') sh = ('''', False)"
proof -
  have "\<not> Match_Contains (ValueMatch ns '''' sh) (PointerKey ns' f v sh')"
    by (auto simp: ValueMatch_Contains_iff)
  then show ?thesis by (simp add: PrimaryFromValueKey_def primaryOf_def)
qed

subsection \<open>Where the keys of two caches can meet\<close>

text \<open>
  Nothing in \<^const>\<open>NonAliasKey\<close> escapes its arguments, so namespaces that contain the
  separator or the braces can collide.  A namespace is \<open>plain\<close> when it has none of them and
  is neither of the two reserved segments.
\<close>

definition plain_ns :: "string \<Rightarrow> bool" where
  "plain_ns ns \<longleftrightarrow>
     CHR '':'' \<notin> set ns \<and> CHR ''{'' \<notin> set ns \<and> CHR ''}'' \<notin> set ns \<and> ns \<noteq> grpSeg \<and> ns \<noteq> membSeg"

definition owned_by :: "string \<Rightarrow> string \<Rightarrow> bool" where
  "owned_by ns key \<longleftrightarrow>
     (\<exists>k. key = NonAliasKey ns k) \<or> (\<exists>pk sh. key = ValueKey ns pk sh) \<or>
     (\<exists>pk sh. key = MembersKey ns pk sh) \<or> (\<exists>t sh. key = tail_key ns t sh)"

text \<open>The namespace read back from a storage key.\<close>

definition strip_tag :: "string \<Rightarrow> string" where
  "strip_tag r =
     (if prefix ''memb::{'' r then drop 7 r
      else if prefix ''grp::{'' r then drop 6 r
      else if prefix ''{'' r then drop 1 r else r)"

definition owner_of :: "string \<Rightarrow> string" where
  "owner_of key = takeWhile (\<lambda>c. c \<noteq> CHR '':'' \<and> c \<noteq> CHR ''}'') (strip_tag (drop 4 key))"

lemma plain_ns_takeWhile:
  assumes "plain_ns ns" "c = CHR '':'' \<or> c = CHR ''}''"
  shows "takeWhile (\<lambda>c. c \<noteq> CHR '':'' \<and> c \<noteq> CHR ''}'') (ns @ c # r) = ns"
  using assms by (subst takeWhile_append2) (auto simp: plain_ns_def)

lemma strip_tag_plain:
  assumes "plain_ns ns"
  shows "strip_tag (ns @ CHR '':'' # r) = ns @ CHR '':'' # r"
proof -
  have "prefix (seg @ CHR '':'' # q) (ns @ CHR '':'' # r) \<Longrightarrow> CHR '':'' \<notin> set seg \<Longrightarrow> seg = ns"
    for seg q
    using append_separator_unique [of seg "q @ _" ns r] assms
    by (auto simp: prefix_def plain_ns_def dest: append_separator_unique)
  from this [of "''memb''" "'':{''"] this [of "''grp''" "'':{''"]
  have "\<not> prefix ''memb::{'' (ns @ CHR '':'' # r)" "\<not> prefix ''grp::{'' (ns @ CHR '':'' # r)"
    using assms by (auto simp: plain_ns_def key_defs)
  moreover have "\<not> prefix ''{'' (ns @ CHR '':'' # r)"
    using assms by (cases ns) (auto simp: plain_ns_def)
  ultimately show ?thesis by (simp add: strip_tag_def)
qed

lemma owner_of_owned:
  assumes "plain_ns ns" "owned_by ns key"
  shows "owner_of key = ns"
proof -
  have b: "strip_tag (''{'' @ r) = r" "strip_tag (''memb::{'' @ r) = r" "strip_tag (''grp::{'' @ r) = r"
    for r by (simp_all add: strip_tag_def)
  note [simp] = b [simplified] plain_ns_takeWhile [OF assms(1)] strip_tag_plain [OF assms(1)]
  from assms(2) consider
      (n) k where "key = NonAliasKey ns k"
    | (v) pk sh where "key = ValueKey ns pk sh"
    | (m) pk sh where "key = MembersKey ns pk sh"
    | (p) t sh where "key = tail_key ns t sh"
    by (auto simp: owned_by_def)
  then show ?thesis
    by cases (auto simp: owner_of_def key_defs tail_key_def)
qed

lemma owned_by_unique:
  "plain_ns ns \<Longrightarrow> plain_ns ns' \<Longrightarrow> owned_by ns key \<Longrightarrow> owned_by ns' key \<Longrightarrow> ns = ns'"
  using owner_of_owned by blast

lemma owned_by_builders [simp, intro]:
  "owned_by ns (NonAliasKey ns k)"
  "owned_by ns (ValueKey ns pk sh)"
  "owned_by ns (MembersKey ns pk sh)"
  "owned_by ns (PointerKey ns f v sh)"
  "owned_by ns (tail_key ns t sh)"
  by (auto simp: owned_by_def PointerKey_tail)

text \<open>The literal prefix of a prefix eviction, within one namespace and across two.\<close>

lemma NonAliasKeyPrefix_same [simp]:
  "HasPrefix (NonAliasKey ns k) (NonAliasKeyPrefix ns p) \<longleftrightarrow> HasPrefix k p"
  by (simp add: HasPrefix_def NonAliasKey_def NonAliasKeyPrefix_def)

lemma NonAliasKeyPrefix_owned:
  assumes "plain_ns ns" "plain_ns ns'" "owned_by ns' key" "HasPrefix key (NonAliasKeyPrefix ns p)"
  shows "ns = ns'"
proof -
  from assms(4) obtain r where "key = NonAliasKey ns (p @ r)"
    by (auto simp: HasPrefix_def prefix_def NonAliasKey_def NonAliasKeyPrefix_def)
  then have "owned_by ns key" by simp
  with assms show ?thesis by (auto intro: owned_by_unique)
qed

subsection \<open>Cluster slots\<close>

text \<open>
  Redis Cluster hashes the text between the first \<open>{\<close> of a key and the first \<open>}\<close> after
  it, where there is such a pair with something in between, and the whole key otherwise; keys
  with one hashed text are in one slot.
\<close>

definition hash_tag :: "string \<Rightarrow> string" where
  "hash_tag key =
     (let r = drop 1 (dropWhile (\<lambda>c. c \<noteq> CHR ''{'') key);
          t = takeWhile (\<lambda>c. c \<noteq> CHR ''}'') r
      in if CHR ''{'' \<in> set key \<and> CHR ''}'' \<in> set r \<and> t \<noteq> [] then t else key)"

lemma hash_tag_braced:
  assumes "CHR ''{'' \<notin> set p" "CHR ''}'' \<in> set r" "takeWhile (\<lambda>c. c \<noteq> CHR ''}'') r \<noteq> []"
  shows "hash_tag (p @ CHR ''{'' # r) = takeWhile (\<lambda>c. c \<noteq> CHR ''}'') r"
proof -
  have "dropWhile (\<lambda>c. c \<noteq> CHR ''{'') (p @ CHR ''{'' # r) = CHR ''{'' # r"
    using assms(1) by (induction p) auto
  with assms(2,3) show ?thesis by (simp add: hash_tag_def)
qed

lemma takeWhile_first_brace:
  "takeWhile (\<lambda>c. c \<noteq> CHR ''}'') (t @ CHR ''}'' # r) = takeWhile (\<lambda>c. c \<noteq> CHR ''}'') t"
  by (induction t) auto

lemma takeWhile_nonempty:
  "t \<noteq> [] \<Longrightarrow> hd t \<noteq> CHR ''}'' \<Longrightarrow> takeWhile (\<lambda>c. c \<noteq> CHR ''}'') (t @ r) \<noteq> []"
  by (cases t) auto

lemma colocated_hash_tag:
  assumes "ns \<noteq> []" "hd ns \<noteq> CHR ''}''"
  shows "hash_tag (ValueKey ns pk False) = takeWhile (\<lambda>c. c \<noteq> CHR ''}'') ns"
    and "hash_tag (MembersKey ns pk False) = takeWhile (\<lambda>c. c \<noteq> CHR ''}'') ns"
    and "hash_tag (PointerKey ns f v False) = takeWhile (\<lambda>c. c \<noteq> CHR ''}'') ns"
  using assms hash_tag_braced [of "''bc::''" "ns @ ''}::'' @ pk"]
    hash_tag_braced [of "''bc::memb::''" "ns @ ''}::'' @ pk"]
    hash_tag_braced [of "''bc::grp::''" "ns @ ''}::'' @ f @ ''::'' @ v"]
    takeWhile_nonempty [of ns "[]"]
  by (simp_all add: key_defs takeWhile_first_brace)

lemma sharded_hash_tag:
  assumes "ns \<noteq> []" "hd ns \<noteq> CHR ''}''"
  shows "hash_tag (ValueKey ns pk True) = takeWhile (\<lambda>c. c \<noteq> CHR ''}'') (ns @ ''::'' @ pk)"
    and "hash_tag (MembersKey ns pk True) = takeWhile (\<lambda>c. c \<noteq> CHR ''}'') (ns @ ''::'' @ pk)"
  using assms hash_tag_braced [of "''bc::''" "ns @ ''::'' @ pk @ ''}''"]
    hash_tag_braced [of "''bc::memb::''" "ns @ ''::'' @ pk @ ''}''"]
    takeWhile_first_brace [of "ns @ ''::'' @ pk" "[]"]
  by (simp_all add: key_defs takeWhile_nonempty)

end
