(* ===== verification/Alias_Spec.thy ===== *)
theory Alias_Spec
  imports Memstore Keyspace
begin

text \<open>
  The abstract alias group that a backend's \<open>AliasOps\<close> promises (\<open>alias.go\<close>): values by primary
  key, a members hash by primary key and alias pointers, without any storage key, slot mode or
  iteration order.  \<open>g_inv\<close> says that pointers and members hashes are inverse to each other and
  that a record's value never outlives its bookkeeping; every operation keeps it.
\<close>

record agroup =
  vals :: "string \<Rightarrow> entry option"
  hashes :: "string \<Rightarrow> membersHash option"
  ptrs :: "string \<Rightarrow> entry option"
  aclock :: clock

definition g_now :: "agroup \<Rightarrow> int" where
  "g_now g = aclock g 0"

definition g_tick :: "agroup \<Rightarrow> agroup" where
  "g_tick g = g\<lparr>aclock := tail_clock (aclock g)\<rparr>"

definition g_expired :: "int option \<Rightarrow> (bool, agroup) op" where
  "g_expired d g = (case d of None \<Rightarrow> (False, g) | Some e \<Rightarrow> (g_now g > e, g_tick g))"

definition g_expAt :: "int \<Rightarrow> (int option, agroup) op" where
  "g_expAt ttl g = (if ttl > 0 then (Some (g_now g + ttl), g_tick g) else (None, g))"

text \<open>The pointers a members hash accounts for.\<close>

definition tails :: "string gomap \<Rightarrow> string set" where
  "tails flds = {alias_tail f v | f v. fmlookup flds f = Some v}"

definition hash_tails :: "membersHash option \<Rightarrow> string set" where
  "hash_tails h = (case h of None \<Rightarrow> {} | Some h \<Rightarrow> tails (mh_fields h))"

definition g_write :: "string \<Rightarrow> bytes \<Rightarrow> int \<Rightarrow> agroup \<Rightarrow> agroup" where
  "g_write pk val ttl g =
     (let (x, g1) = g_expAt ttl g
      in g1\<lparr>vals := (vals g1)(pk \<mapsto> \<lparr>e_val = val, e_expiresAt = x\<rparr>)\<rparr>)"

definition g_refresh :: "string \<Rightarrow> int \<Rightarrow> agroup \<Rightarrow> agroup" where
  "g_refresh pk ttl g =
     (case hashes g pk of
        None \<Rightarrow> g
      | Some h \<Rightarrow>
          (let (x, g1) = g_expAt ttl g
           in g1\<lparr>hashes := (hashes g1)(pk \<mapsto> h\<lparr>mh_expiresAt := x\<rparr>),
                 ptrs := (\<lambda>t. if t \<in> tails (mh_fields h)
                              then map_option (\<lambda>e. e\<lparr>e_expiresAt := x\<rparr>) (ptrs g1 t)
                              else ptrs g1 t)\<rparr>))"

definition g_evict :: "string \<Rightarrow> agroup \<Rightarrow> agroup" where
  "g_evict pk g =
     g\<lparr>vals := (vals g)(pk := None),
       hashes := (hashes g)(pk := None),
       ptrs := (\<lambda>t. if t \<in> hash_tails (hashes g pk) then None else ptrs g t)\<rparr>"

definition g_evict_set :: "string set \<Rightarrow> agroup \<Rightarrow> agroup" where
  "g_evict_set S g =
     g\<lparr>vals := (\<lambda>pk. if pk \<in> S then None else vals g pk),
       hashes := (\<lambda>pk. if pk \<in> S then None else hashes g pk),
       ptrs := (\<lambda>t. if t \<in> (\<Union>pk\<in>S. hash_tails (hashes g pk)) then None else ptrs g t)\<rparr>"

definition g_PutValue :: "string \<Rightarrow> bytes \<Rightarrow> int \<Rightarrow> agroup \<Rightarrow> agroup" where
  "g_PutValue pk val ttl g = g_refresh pk ttl (g_write pk val ttl g)"

text \<open>Registering an alias: replace the old value of the field, steal the pointer, point it here.\<close>

definition g_replace :: "string \<Rightarrow> AliasRef \<Rightarrow> agroup \<Rightarrow> agroup" where
  "g_replace pk ref g =
     (case hashes g pk of
        None \<Rightarrow> g
      | Some h \<Rightarrow>
          (case fmlookup (mh_fields h) (Field ref) of
             None \<Rightarrow> g
           | Some old \<Rightarrow>
               if old \<noteq> Value ref then g\<lparr>ptrs := (ptrs g)(alias_tail (Field ref) old := None)\<rparr>
               else g))"

definition g_steal :: "string \<Rightarrow> AliasRef \<Rightarrow> agroup \<Rightarrow> agroup" where
  "g_steal pk ref g =
     (case ptrs g (alias_tail (Field ref) (Value ref)) of
        None \<Rightarrow> g
      | Some pe \<Rightarrow>
          if e_val pe \<noteq> pk
          then case hashes g (e_val pe) of
                 None \<Rightarrow> g
               | Some h \<Rightarrow>
                   g\<lparr>hashes := (hashes g)(e_val pe \<mapsto>
                       h\<lparr>mh_fields := fmdrop (Field ref) (mh_fields h)\<rparr>)\<rparr>
          else g)"

definition g_point :: "string \<Rightarrow> AliasRef \<Rightarrow> int \<Rightarrow> agroup \<Rightarrow> agroup" where
  "g_point pk ref ttl g =
     (let (x, g1) = g_expAt ttl g;
          h = (case hashes g1 pk of None \<Rightarrow> \<lparr>mh_fields = fmempty, mh_expiresAt = None\<rparr> | Some h \<Rightarrow> h)
      in g1\<lparr>ptrs := (ptrs g1)(alias_tail (Field ref) (Value ref) \<mapsto> \<lparr>e_val = pk, e_expiresAt = x\<rparr>),
            hashes := (hashes g1)(pk \<mapsto>
              h\<lparr>mh_fields := fmupd (Field ref) (Value ref) (mh_fields h)\<rparr>)\<rparr>)"

definition g_PutByAlias :: "string \<Rightarrow> AliasRef \<Rightarrow> bytes \<Rightarrow> int \<Rightarrow> agroup \<Rightarrow> agroup" where
  "g_PutByAlias pk ref val ttl g =
     g_refresh pk ttl (g_point pk ref ttl (g_steal pk ref (g_replace pk ref (g_write pk val ttl g))))"

definition g_GetValue :: "string \<Rightarrow> (error + bytes, agroup) op" where
  "g_GetValue pk g =
     (case vals g pk of
        None \<Rightarrow> (Inl ErrStoreMiss, g)
      | Some e \<Rightarrow>
          (let (ex, g1) = g_expired (e_expiresAt e) g
           in if ex then (Inl ErrStoreMiss, g1) else (Inr (e_val e), g1)))"

definition g_GetByAlias :: "AliasRef \<Rightarrow> (error + bytes, agroup) op" where
  "g_GetByAlias ref g =
     (case ptrs g (alias_tail (Field ref) (Value ref)) of
        None \<Rightarrow> (Inl ErrStoreMiss, g)
      | Some pe \<Rightarrow>
          (let (ex, g1) = g_expired (e_expiresAt pe) g
           in if ex then (Inl ErrStoreMiss, g1)
              else
                case hashes g1 (e_val pe) of
                  None \<Rightarrow> (Inl ErrStoreMiss, g1)
                | Some h \<Rightarrow>
                    (let (hex, g2) = g_expired (mh_expiresAt h) g1
                     in if hex \<or> (case fmlookup (mh_fields h) (Field ref) of None \<Rightarrow> '''' | Some v \<Rightarrow> v)
                              \<noteq> Value ref
                        then (Inl ErrStoreMiss, g2)
                        else g_GetValue (e_val pe) g2)))"

definition g_EvictByAlias :: "AliasRef \<Rightarrow> agroup \<Rightarrow> agroup" where
  "g_EvictByAlias ref g =
     (case ptrs g (alias_tail (Field ref) (Value ref)) of None \<Rightarrow> g | Some pe \<Rightarrow> g_evict (e_val pe) g)"

definition g_matching :: "string \<Rightarrow> agroup \<Rightarrow> string set" where
  "g_matching pfx g = {pk. HasPrefix pk pfx \<and> (vals g pk \<noteq> None \<or> hashes g pk \<noteq> None)}"

subsection \<open>What each step does to the observers\<close>

lemma g_expired_simps [simp]:
  "fst (g_expired d g) = expired_at d (g_now g)"
  "vals (snd (g_expired d g)) = vals g" "hashes (snd (g_expired d g)) = hashes g"
  "ptrs (snd (g_expired d g)) = ptrs g"
  by (auto simp: g_expired_def g_tick_def split: option.splits)

lemma g_expAt_simps [simp]:
  "fst (g_expAt ttl g) = deadline (g_now g) ttl"
  "vals (snd (g_expAt ttl g)) = vals g" "hashes (snd (g_expAt ttl g)) = hashes g"
  "ptrs (snd (g_expAt ttl g)) = ptrs g"
  by (auto simp: g_expAt_def g_tick_def deadline_def)

lemma g_now_mono:
  assumes "mono_clock (aclock g)"
  shows "mono_clock (aclock (snd (g_expired d g)))" "g_now g \<le> g_now (snd (g_expired d g))"
    and "mono_clock (aclock (snd (g_expAt ttl g)))" "g_now g \<le> g_now (snd (g_expAt ttl g))"
  using assms mono_clockD [OF assms, of 0 1]
  by (auto simp: g_expired_def g_expAt_def g_tick_def g_now_def split: option.splits)

lemma g_write_simps [simp]:
  "vals (g_write pk val ttl g) =
     (vals g)(pk \<mapsto> \<lparr>e_val = val, e_expiresAt = deadline (g_now g) ttl\<rparr>)"
  "hashes (g_write pk val ttl g) = hashes g"
  "ptrs (g_write pk val ttl g) = ptrs g"
  "aclock (g_write pk val ttl g) = aclock (snd (g_expAt ttl g))"
  by (simp_all add: g_write_def case_prod_unfold Let_def)

lemma g_refresh_simps [simp]:
  "vals (g_refresh pk ttl g) = vals g"
  "hashes (g_refresh pk ttl g) =
     (hashes g)(pk := map_option (\<lambda>h. h\<lparr>mh_expiresAt := deadline (g_now g) ttl\<rparr>) (hashes g pk))"
  "ptrs (g_refresh pk ttl g) =
     (\<lambda>t. if t \<in> hash_tails (hashes g pk)
          then map_option (\<lambda>e. e\<lparr>e_expiresAt := deadline (g_now g) ttl\<rparr>) (ptrs g t)
          else ptrs g t)"
  by (auto simp: g_refresh_def hash_tails_def case_prod_unfold Let_def fun_eq_iff split: option.splits)

lemma g_evict_simps [simp]:
  "vals (g_evict pk g) = (vals g)(pk := None)"
  "hashes (g_evict pk g) = (hashes g)(pk := None)"
  "ptrs (g_evict pk g) = (\<lambda>t. if t \<in> hash_tails (hashes g pk) then None else ptrs g t)"
  "aclock (g_evict pk g) = aclock g"
  by (simp_all add: g_evict_def)

lemma g_replace_frame [simp]:
  "vals (g_replace pk ref g) = vals g" "hashes (g_replace pk ref g) = hashes g"
  "aclock (g_replace pk ref g) = aclock g"
  by (auto simp: g_replace_def split: option.splits)

lemma g_steal_frame [simp]:
  "vals (g_steal pk ref g) = vals g" "ptrs (g_steal pk ref g) = ptrs g"
  "aclock (g_steal pk ref g) = aclock g"
  "hashes (g_steal pk ref g) pk = hashes g pk"
  by (auto simp: g_steal_def split: option.splits)

lemma g_point_frame [simp]:
  "vals (g_point pk ref ttl g) = vals g"
  "aclock (g_point pk ref ttl g) = aclock (snd (g_expAt ttl g))"
  by (simp_all add: g_point_def case_prod_unfold Let_def)

lemma hash_tails_simps [simp]:
  "hash_tails None = {}" "hash_tails (Some h) = tails (mh_fields h)"
  by (simp_all add: hash_tails_def)

lemma tailsI [intro]: "fmlookup flds f = Some v \<Longrightarrow> alias_tail f v \<in> tails flds"
  by (auto simp: tails_def)

lemma tails_fmempty [simp]: "tails fmempty = {}"
  by (simp add: tails_def)

subsection \<open>The invariant\<close>

text \<open>\<open>before d d'\<close>: the deadline \<open>d\<close> is not later than \<open>d'\<close>.\<close>

definition before :: "int option \<Rightarrow> int option \<Rightarrow> bool" where
  "before d d' \<longleftrightarrow> (case d' of None \<Rightarrow> True | Some y \<Rightarrow> (case d of None \<Rightarrow> False | Some x \<Rightarrow> x \<le> y))"

lemma before_refl [simp]: "before d d"
  by (simp add: before_def split: option.splits)

lemma before_deadline: "t \<le> t' \<Longrightarrow> before (deadline t ttl) (deadline t' ttl)"
  by (simp add: before_def deadline_def)

lemma before_expired: "before d d' \<Longrightarrow> expired_at d' t \<Longrightarrow> expired_at d t"
  by (auto simp: before_def split: option.splits)

definition g_inv :: "agroup \<Rightarrow> bool" where
  "g_inv g \<longleftrightarrow>
     mono_clock (aclock g) \<and>
     (\<forall>pk h f v. hashes g pk = Some h \<longrightarrow> fmlookup (mh_fields h) f = Some v \<longrightarrow>
        CHR '':'' \<notin> set f \<and>
        ptrs g (alias_tail f v) = Some \<lparr>e_val = pk, e_expiresAt = mh_expiresAt h\<rparr>) \<and>
     (\<forall>t e. ptrs g t = Some e \<longrightarrow>
        (\<exists>h f v. hashes g (e_val e) = Some h \<and> fmlookup (mh_fields h) f = Some v \<and> t = alias_tail f v)) \<and>
     (\<forall>pk h. hashes g pk = Some h \<longrightarrow>
        (\<exists>e. vals g pk = Some e \<and> before (e_expiresAt e) (mh_expiresAt h)))"

lemma g_invI:
  assumes "mono_clock (aclock g)"
    and "\<And>pk h f v. hashes g pk = Some h \<Longrightarrow> fmlookup (mh_fields h) f = Some v \<Longrightarrow>
      CHR '':'' \<notin> set f \<and> ptrs g (alias_tail f v) = Some \<lparr>e_val = pk, e_expiresAt = mh_expiresAt h\<rparr>"
    and "\<And>t e. ptrs g t = Some e \<Longrightarrow>
      \<exists>h f v. hashes g (e_val e) = Some h \<and> fmlookup (mh_fields h) f = Some v \<and> t = alias_tail f v"
    and "\<And>pk h. hashes g pk = Some h \<Longrightarrow>
      \<exists>e. vals g pk = Some e \<and> before (e_expiresAt e) (mh_expiresAt h)"
  shows "g_inv g"
  using assms by (auto simp: g_inv_def)

lemma g_invD:
  assumes "g_inv g"
  shows "mono_clock (aclock g)"
    and "hashes g pk = Some h \<Longrightarrow> fmlookup (mh_fields h) f = Some v \<Longrightarrow> CHR '':'' \<notin> set f"
    and "hashes g pk = Some h \<Longrightarrow> fmlookup (mh_fields h) f = Some v \<Longrightarrow>
      ptrs g (alias_tail f v) = Some \<lparr>e_val = pk, e_expiresAt = mh_expiresAt h\<rparr>"
    and "ptrs g t = Some e \<Longrightarrow>
      \<exists>h f v. hashes g (e_val e) = Some h \<and> fmlookup (mh_fields h) f = Some v \<and> t = alias_tail f v"
    and "hashes g pk = Some h \<Longrightarrow>
      \<exists>e. vals g pk = Some e \<and> before (e_expiresAt e) (mh_expiresAt h)"
  using assms by (auto simp: g_inv_def)

text \<open>An alias with a separator-free field belongs to a record exactly when its pointer says so.\<close>

lemma g_ptr_iff:
  assumes "g_inv g" "CHR '':'' \<notin> set f"
  shows "ptrs g (alias_tail f v) = Some e \<longleftrightarrow>
    (\<exists>h. hashes g (e_val e) = Some h \<and> fmlookup (mh_fields h) f = Some v \<and>
       e = \<lparr>e_val = e_val e, e_expiresAt = mh_expiresAt h\<rparr>)"
proof
  assume p: "ptrs g (alias_tail f v) = Some e"
  then obtain h f' v' where h: "hashes g (e_val e) = Some h" "fmlookup (mh_fields h) f' = Some v'"
    "alias_tail f v = alias_tail f' v'"
    using g_invD(4) [OF assms(1)] by blast
  then have "f = f'" "v = v'"
    using assms g_invD(2) [OF assms(1)] alias_tail_inject by metis+
  with h p g_invD(3) [OF assms(1)] 
  show "\<exists>h. hashes g (e_val e) = Some h \<and> fmlookup (mh_fields h) f = Some v \<and>
      e = \<lparr>e_val = e_val e, e_expiresAt = mh_expiresAt h\<rparr>"
    by fastforce
next
  assume "\<exists>h. hashes g (e_val e) = Some h \<and> fmlookup (mh_fields h) f = Some v \<and>
      e = \<lparr>e_val = e_val e, e_expiresAt = mh_expiresAt h\<rparr>"
  then show "ptrs g (alias_tail f v) = Some e"
    using g_invD(3) [OF assms(1)] by metis
qed

lemma tails_mem:
  assumes "\<And>f' v'. fmlookup flds f' = Some v' \<Longrightarrow> CHR '':'' \<notin> set f'" "CHR '':'' \<notin> set f"
  shows "alias_tail f v \<in> tails flds \<longleftrightarrow> fmlookup flds f = Some v"
proof
  assume "alias_tail f v \<in> tails flds"
  then obtain f' v' where *: "alias_tail f v = alias_tail f' v'" "fmlookup flds f' = Some v'"
    by (auto simp: tails_def)
  with assms have "f = f' \<and> v = v'" by (metis alias_tail_inject)
  with * show "fmlookup flds f = Some v" by simp
qed auto

lemma g_tails_mem:
  assumes "g_inv g" "hashes g pk = Some h" "CHR '':'' \<notin> set f"
  shows "alias_tail f v \<in> tails (mh_fields h) \<longleftrightarrow> fmlookup (mh_fields h) f = Some v"
  using g_invD(2) [OF assms(1,2)] assms(3) by (rule tails_mem)

text \<open>At most one record answers to an alias.\<close>

lemma g_alias_unique:
  assumes "g_inv g" "hashes g pk = Some h" "fmlookup (mh_fields h) f = Some v"
    and "hashes g pk' = Some h'" "fmlookup (mh_fields h') f = Some v"
  shows "pk = pk'"
  using g_invD(3) [OF assms(1-3)] g_invD(3) [OF assms(1,4,5)] by simp

subsection \<open>Every operation keeps the invariant\<close>

lemma g_write_refresh_inv:
  assumes "g_inv g" shows "g_inv (g_PutValue pk val ttl g)"
proof -
  let ?g1 = "g_write pk val ttl g"
  have n: "g_now g \<le> g_now ?g1" "mono_clock (aclock ?g1)"
    using g_now_mono(3,4) [OF g_invD(1) [OF assms], of ttl] by (simp_all add: g_now_def)
  show ?thesis
    unfolding g_PutValue_def
  proof (rule g_invI)
    show "mono_clock (aclock (g_refresh pk ttl ?g1))"
      using n(2) g_now_mono(3) [OF n(2)]
      by (auto simp: g_refresh_def case_prod_unfold Let_def split: option.splits)
  next
    fix q h f v
    assume h: "hashes (g_refresh pk ttl ?g1) q = Some h" "fmlookup (mh_fields h) f = Some v"
    then obtain h0 where h0: "hashes g q = Some h0" "mh_fields h = mh_fields h0"
      by (auto split: if_splits)
    have nf: "CHR '':'' \<notin> set f" using h h0 g_invD(2) [OF assms h0(1)] by simp
    have p: "ptrs g (alias_tail f v) = Some \<lparr>e_val = q, e_expiresAt = mh_expiresAt h0\<rparr>"
      using h h0 g_invD(3) [OF assms h0(1)] by simp
    have "alias_tail f v \<in> hash_tails (hashes g pk) \<longleftrightarrow> q = pk"
    proof
      assume "alias_tail f v \<in> hash_tails (hashes g pk)"
      then obtain h1 where h1: "hashes g pk = Some h1" "fmlookup (mh_fields h1) f = Some v"
        using g_tails_mem [OF assms _ nf] by (auto simp: hash_tails_def split: option.splits)
      then show "q = pk" using g_alias_unique [OF assms h0(1)] h h0 by simp
    qed (use h h0 in auto)
    with h h0 p nf show "CHR '':'' \<notin> set f \<and> ptrs (g_refresh pk ttl ?g1) (alias_tail f v) =
        Some \<lparr>e_val = q, e_expiresAt = mh_expiresAt h\<rparr>"
      by (auto split: if_splits)
  next
    fix t e
    assume "ptrs (g_refresh pk ttl ?g1) t = Some e"
    then obtain e0 where e0: "ptrs g t = Some e0" "e_val e = e_val e0"
      by (auto split: if_splits)
    from g_invD(4) [OF assms this(1)] e0(2)
    show "\<exists>h f v. hashes (g_refresh pk ttl ?g1) (e_val e) = Some h \<and>
        fmlookup (mh_fields h) f = Some v \<and> t = alias_tail f v"
      by fastforce
  next
    fix q h
    assume "hashes (g_refresh pk ttl ?g1) q = Some h"
    then show "\<exists>e. vals (g_refresh pk ttl ?g1) q = Some e \<and> before (e_expiresAt e) (mh_expiresAt h)"
      using g_invD(5) [OF assms] before_deadline [OF n(1)] by (auto split: if_splits)
  qed
qed

lemma g_evict_set_inv:
  assumes "g_inv g" shows "g_inv (g_evict_set S g)"
proof (rule g_invI)
  show "mono_clock (aclock (g_evict_set S g))" using g_invD(1) [OF assms] by (simp add: g_evict_set_def)
next
  fix q h f v
  assume a: "hashes (g_evict_set S g) q = Some h" "fmlookup (mh_fields h) f = Some v"
  then have h: "hashes g q = Some h" "q \<notin> S" by (auto simp: g_evict_set_def split: if_splits)
  have nf: "CHR '':'' \<notin> set f" using g_invD(2) [OF assms h(1)] a by simp
  have "alias_tail f v \<notin> hash_tails (hashes g pk)" if "pk \<in> S" for pk
    using g_tails_mem [OF assms _ nf] g_alias_unique [OF assms h(1) a(2)] that h(2)
    by (auto simp: hash_tails_def split: option.splits)
  then show "CHR '':'' \<notin> set f \<and> ptrs (g_evict_set S g) (alias_tail f v) =
      Some \<lparr>e_val = q, e_expiresAt = mh_expiresAt h\<rparr>"
    using nf g_invD(3) [OF assms h(1) a(2)] by (auto simp: g_evict_set_def)
next
  fix t e
  assume a: "ptrs (g_evict_set S g) t = Some e"
  then have e: "ptrs g t = Some e" "\<And>pk. pk \<in> S \<Longrightarrow> t \<notin> hash_tails (hashes g pk)"
    by (auto simp: g_evict_set_def split: if_splits)
  from g_invD(4) [OF assms e(1)] obtain h f v where
    "hashes g (e_val e) = Some h" "fmlookup (mh_fields h) f = Some v" "t = alias_tail f v" by blast
  with e(2) [of "e_val e"]
  show "\<exists>h f v. hashes (g_evict_set S g) (e_val e) = Some h \<and> fmlookup (mh_fields h) f = Some v \<and>
      t = alias_tail f v"
    by (auto simp: g_evict_set_def)
next
  fix q h
  assume "hashes (g_evict_set S g) q = Some h"
  then show "\<exists>e. vals (g_evict_set S g) q = Some e \<and> before (e_expiresAt e) (mh_expiresAt h)"
    using g_invD(5) [OF assms] by (auto simp: g_evict_set_def split: if_splits)
qed

lemma g_evict_singleton: "g_evict pk g = g_evict_set {pk} g"
  by (simp add: g_evict_def g_evict_set_def fun_eq_iff)

lemma g_evict_inv: "g_inv g \<Longrightarrow> g_inv (g_evict pk g)"
  by (simp add: g_evict_singleton g_evict_set_inv)

lemma g_EvictByAlias_inv: "g_inv g \<Longrightarrow> g_inv (g_EvictByAlias ref g)"
  by (auto simp: g_EvictByAlias_def g_evict_inv split: option.splits)

subsection \<open>Registering an alias\<close>

definition group_fields :: "agroup \<Rightarrow> string \<Rightarrow> string gomap" where
  "group_fields g pk = (case hashes g pk of None \<Rightarrow> fmempty | Some h \<Rightarrow> mh_fields h)"

lemma group_fields_Some [simp]: "hashes g pk = Some h \<Longrightarrow> group_fields g pk = mh_fields h"
  by (simp add: group_fields_def)

text \<open>The deadline that the final refresh of \<open>PutByAlias\<close> gives to the bookkeeping.\<close>

definition put_deadline :: "string \<Rightarrow> AliasRef \<Rightarrow> bytes \<Rightarrow> int \<Rightarrow> agroup \<Rightarrow> int option" where
  "put_deadline pk ref val ttl g =
     deadline (g_now (g_point pk ref ttl (g_steal pk ref (g_replace pk ref (g_write pk val ttl g))))) ttl"

lemma g_replace_ptrs:
  "ptrs (g_replace pk ref g) t =
     (if \<exists>old. fmlookup (group_fields g pk) (Field ref) = Some old \<and> old \<noteq> Value ref \<and>
           t = alias_tail (Field ref) old
      then None else ptrs g t)"
  by (auto simp: g_replace_def group_fields_def split: option.splits)

lemma g_point_sel:
  "ptrs (g_point pk ref ttl g) = (ptrs g)(alias_tail (Field ref) (Value ref) \<mapsto>
     \<lparr>e_val = pk, e_expiresAt = deadline (g_now g) ttl\<rparr>)"
  "hashes (g_point pk ref ttl g) q =
     (if q = pk then Some \<lparr>mh_fields = fmupd (Field ref) (Value ref) (group_fields g pk),
        mh_expiresAt = (case hashes g pk of None \<Rightarrow> None | Some h \<Rightarrow> mh_expiresAt h)\<rparr>
      else hashes g q)"
  by (auto simp: g_point_def group_fields_def case_prod_unfold Let_def split: option.splits)

lemma g_PutByAlias_vals:
  "vals (g_PutByAlias pk ref val ttl g) =
     (vals g)(pk \<mapsto> \<lparr>e_val = val, e_expiresAt = deadline (g_now g) ttl\<rparr>)"
  by (simp add: g_PutByAlias_def)

lemma g_PutByAlias_hash_self:
  "hashes (g_PutByAlias pk ref val ttl g) pk =
     Some \<lparr>mh_fields = fmupd (Field ref) (Value ref) (group_fields g pk),
           mh_expiresAt = put_deadline pk ref val ttl g\<rparr>"
  by (simp add: g_PutByAlias_def g_point_sel put_deadline_def group_fields_def)

text \<open>Stealing takes the field from exactly the record that had this alias.\<close>

lemma g_PutByAlias_hash_other:
  assumes "g_inv g" "CHR '':'' \<notin> set (Field ref)" "q \<noteq> pk"
  shows "hashes (g_PutByAlias pk ref val ttl g) q =
     map_option (\<lambda>h. if fmlookup (mh_fields h) (Field ref) = Some (Value ref)
                     then h\<lparr>mh_fields := fmdrop (Field ref) (mh_fields h)\<rparr> else h) (hashes g q)"
proof -
  let ?t = "alias_tail (Field ref) (Value ref)"
  let ?g1 = "g_write pk val ttl g"
  let ?g2 = "g_replace pk ref ?g1"
  have p: "ptrs ?g2 ?t = ptrs g ?t"
    by (auto simp: g_replace_ptrs alias_tail_def)
  have "hashes (g_PutByAlias pk ref val ttl g) q = hashes (g_steal pk ref ?g2) q"
    using assms(3) by (simp add: g_PutByAlias_def g_point_sel)
  also have "\<dots> = map_option (\<lambda>h. if fmlookup (mh_fields h) (Field ref) = Some (Value ref)
      then h\<lparr>mh_fields := fmdrop (Field ref) (mh_fields h)\<rparr> else h) (hashes g q)"
  proof (cases "\<exists>h. hashes g q = Some h \<and> fmlookup (mh_fields h) (Field ref) = Some (Value ref)")
    case True
    then obtain h where h: "hashes g q = Some h" "fmlookup (mh_fields h) (Field ref) = Some (Value ref)"
      by blast
    with assms(3) show ?thesis
      using g_invD(3) [OF assms(1) h] by (simp add: g_steal_def p)
  next
    case False
    have "hashes (g_steal pk ref ?g2) q = hashes g q"
    proof (cases "ptrs g ?t")
      case None
      then show ?thesis by (simp add: g_steal_def p)
    next
      case (Some e)
      then have "e_val e \<noteq> q"
        using g_ptr_iff [OF assms(1,2)] False by metis
      with Some show ?thesis by (auto simp: g_steal_def p split: option.splits)
    qed
    with False show ?thesis by (cases "hashes g q") auto
  qed
  finally show ?thesis .
qed

lemma g_PutByAlias_ptrs:
  assumes inv: "g_inv g" and nf: "CHR '':'' \<notin> set (Field ref)" "CHR '':'' \<notin> set f"
  shows "ptrs (g_PutByAlias pk ref val ttl g) (alias_tail f v) =
     (if f = Field ref \<and> v = Value ref \<or> f \<noteq> Field ref \<and> fmlookup (group_fields g pk) f = Some v
      then Some \<lparr>e_val = pk, e_expiresAt = put_deadline pk ref val ttl g\<rparr>
      else if f = Field ref \<and> fmlookup (group_fields g pk) f = Some v then None
      else ptrs g (alias_tail f v))"
proof -
  let ?F = "group_fields g pk"
  let ?g2 = "g_steal pk ref (g_replace pk ref (g_write pk val ttl g))"
  let ?g3 = "g_point pk ref ttl ?g2"
  have Fnf: "CHR '':'' \<notin> set f'" if "fmlookup ?F f' = Some v'" for f' v'
    using that g_invD(2) [OF inv] by (auto simp: group_fields_def split: option.splits)
  have F2: "group_fields ?g2 pk = ?F" by (simp add: group_fields_def)
  have mem: "alias_tail f v \<in> hash_tails (hashes ?g3 pk) \<longleftrightarrow>
      (if f = Field ref then v = Value ref else fmlookup ?F f = Some v)"
  proof -
    have "fmlookup (fmupd (Field ref) (Value ref) ?F) f' = Some v' \<Longrightarrow> CHR '':'' \<notin> set f'" for f' v'
      using nf(1) Fnf by (auto split: if_splits)
    then have "alias_tail f v \<in> tails (fmupd (Field ref) (Value ref) ?F) \<longleftrightarrow>
        fmlookup (fmupd (Field ref) (Value ref) ?F) f = Some v"
      using nf(2) by (rule tails_mem)
    then show ?thesis by (auto simp: g_point_sel F2)
  qed
  have p3: "ptrs ?g3 (alias_tail f v) =
      (if f = Field ref \<and> v = Value ref then Some \<lparr>e_val = pk, e_expiresAt = deadline (g_now ?g2) ttl\<rparr>
       else if f = Field ref \<and> fmlookup ?F f = Some v then None else ptrs g (alias_tail f v))"
  proof (cases "f = Field ref")
    case True
    then show ?thesis by (auto simp: g_point_sel g_replace_ptrs group_fields_def)
  next
    case False
    then have "alias_tail f v \<noteq> alias_tail (Field ref) v'" for v'
      using alias_tail_inject [OF nf(2,1)] by simp
    with False show ?thesis by (auto simp: g_point_sel g_replace_ptrs)
  qed
  have pF: "ptrs g (alias_tail f v) = Some \<lparr>e_val = pk, e_expiresAt = mh_expiresAt (the (hashes g pk))\<rparr>"
    if "fmlookup ?F f = Some v"
    using that g_invD(3) [OF inv] by (auto simp: group_fields_def split: option.splits)
  have "ptrs (g_PutByAlias pk ref val ttl g) (alias_tail f v) =
      (if alias_tail f v \<in> hash_tails (hashes ?g3 pk)
       then map_option (\<lambda>e. e\<lparr>e_expiresAt := put_deadline pk ref val ttl g\<rparr>) (ptrs ?g3 (alias_tail f v))
       else ptrs ?g3 (alias_tail f v))"
    by (simp add: g_PutByAlias_def put_deadline_def)
  then show ?thesis unfolding mem p3 using pF by auto
qed

text \<open>Every pointer of the result is one of a separator-free field.\<close>

lemma g_PutByAlias_ptr_shape:
  assumes "g_inv g" "CHR '':'' \<notin> set (Field ref)" "ptrs (g_PutByAlias pk ref val ttl g) t = Some e"
  shows "\<exists>f v. t = alias_tail f v \<and> CHR '':'' \<notin> set f"
proof (cases "t = alias_tail (Field ref) (Value ref)")
  case True
  with assms(2) show ?thesis by blast
next
  case False
  let ?g2 = "g_steal pk ref (g_replace pk ref (g_write pk val ttl g))"
  from assms(3) have "ptrs (g_point pk ref ttl ?g2) t \<noteq> None"
    by (auto simp: g_PutByAlias_def split: if_splits)
  with False have "ptrs g t \<noteq> None"
    by (auto simp: g_point_sel g_replace_ptrs split: if_splits)
  then show ?thesis using g_invD(4,2) [OF assms(1)] by blast
qed

lemma put_deadline_after:
  assumes "mono_clock (aclock g)"
  shows "before (deadline (g_now g) ttl) (put_deadline pk ref val ttl g)"
    and "mono_clock (aclock (g_PutByAlias pk ref val ttl g))"
proof -
  let ?g3 = "g_point pk ref ttl (g_steal pk ref (g_replace pk ref (g_write pk val ttl g)))"
  have "g_now g \<le> g_now ?g3" "mono_clock (aclock ?g3)"
    using assms mono_clockD [OF assms, of 0 1] mono_clockD [OF assms, of 0 "Suc (Suc 0)"]
    by (auto simp: g_now_def g_expAt_def g_tick_def)
  then show "before (deadline (g_now g) ttl) (put_deadline pk ref val ttl g)"
    "mono_clock (aclock (g_PutByAlias pk ref val ttl g))"
    using g_now_mono(3) [of ?g3]
    by (auto simp: put_deadline_def g_PutByAlias_def g_refresh_def case_prod_unfold Let_def
        intro: before_deadline split: option.splits)
qed

lemma g_PutByAlias_inv:
  assumes inv: "g_inv g" and nf: "CHR '':'' \<notin> set (Field ref)"
  shows "g_inv (g_PutByAlias pk ref val ttl g)" (is "g_inv ?g'")
proof (rule g_invI)
  show "mono_clock (aclock ?g')" by (rule put_deadline_after(2) [OF g_invD(1) [OF inv]])
next
  fix q h f v
  assume h: "hashes ?g' q = Some h" "fmlookup (mh_fields h) f = Some v"
  show "CHR '':'' \<notin> set f \<and> ptrs ?g' (alias_tail f v) = Some \<lparr>e_val = q, e_expiresAt = mh_expiresAt h\<rparr>"
  proof (cases "q = pk")
    case True
    then have h': "h = \<lparr>mh_fields = fmupd (Field ref) (Value ref) (group_fields g pk),
        mh_expiresAt = put_deadline pk ref val ttl g\<rparr>"
      using h(1) by (simp add: g_PutByAlias_hash_self)
    with h(2) have fv: "f = Field ref \<and> v = Value ref \<or> f \<noteq> Field ref \<and> fmlookup (group_fields g pk) f = Some v"
      by (auto split: if_splits)
    then have "CHR '':'' \<notin> set f"
      using nf g_invD(2) [OF inv] by (auto simp: group_fields_def split: option.splits)
    with fv True h' show ?thesis by (simp add: g_PutByAlias_ptrs [OF inv nf])
  next
    case False
    from h(1) obtain h0 where q: "hashes g q = Some h0" and h': "h =
        (if fmlookup (mh_fields h0) (Field ref) = Some (Value ref)
         then h0\<lparr>mh_fields := fmdrop (Field ref) (mh_fields h0)\<rparr> else h0)"
      unfolding g_PutByAlias_hash_other [OF inv nf False] by (cases "hashes g q") simp_all
    have h0: "hashes g q = Some h0" "fmlookup (mh_fields h0) f = Some v"
        "mh_expiresAt h = mh_expiresAt h0" "\<not> (f = Field ref \<and> v = Value ref)"
      using h(2) q unfolding h' by (auto split: if_splits)
    have "fmlookup (group_fields g pk) f \<noteq> Some v"
      using g_alias_unique [OF inv h0(1,2)] False by (auto simp: group_fields_def split: option.splits)
    with h0 show ?thesis
      using g_invD(2,3) [OF inv h0(1,2)] by (auto simp: g_PutByAlias_ptrs [OF inv nf])
  qed
next
  fix t e
  assume e: "ptrs ?g' t = Some e"
  obtain f v where t: "t = alias_tail f v" and f: "CHR '':'' \<notin> set f"
    using g_PutByAlias_ptr_shape [OF inv nf e] by blast
  have "\<exists>h. hashes ?g' (e_val e) = Some h \<and> fmlookup (mh_fields h) f = Some v"
  proof (cases "f = Field ref \<and> v = Value ref \<or> f \<noteq> Field ref \<and> fmlookup (group_fields g pk) f = Some v")
    case True
    with e t have "e_val e = pk" by (auto simp: g_PutByAlias_ptrs [OF inv nf f])
    with True show ?thesis by (auto simp: g_PutByAlias_hash_self)
  next
    case False
    with e t have ne: "fmlookup (group_fields g pk) f \<noteq> Some v" "ptrs g t = Some e"
      by (auto simp: g_PutByAlias_ptrs [OF inv nf f] split: if_splits)
    then obtain h where h: "hashes g (e_val e) = Some h" "fmlookup (mh_fields h) f = Some v"
      using g_ptr_iff [OF inv f] t by blast
    with ne have "e_val e \<noteq> pk" by auto
    with h False show ?thesis by (auto simp: g_PutByAlias_hash_other [OF inv nf])
  qed
  with t show "\<exists>h f v. hashes ?g' (e_val e) = Some h \<and> fmlookup (mh_fields h) f = Some v \<and> t = alias_tail f v"
    by blast
next
  fix q h
  assume h: "hashes ?g' q = Some h"
  show "\<exists>e. vals ?g' q = Some e \<and> before (e_expiresAt e) (mh_expiresAt h)"
  proof (cases "q = pk")
    case True
    with h show ?thesis
      using put_deadline_after(1) [OF g_invD(1) [OF inv]]
      by (auto simp: g_PutByAlias_vals g_PutByAlias_hash_self)
  next
    case False
    with h show ?thesis
      using g_invD(5) [OF inv]
      by (fastforce simp: g_PutByAlias_vals g_PutByAlias_hash_other [OF inv nf] split: if_splits)
  qed
qed

subsection \<open>Reads\<close>

lemma g_read_frame [simp]:
  "vals (snd (g_GetValue pk g)) = vals g" "hashes (snd (g_GetValue pk g)) = hashes g"
  "ptrs (snd (g_GetValue pk g)) = ptrs g"
  "vals (snd (g_GetByAlias ref g)) = vals g" "hashes (snd (g_GetByAlias ref g)) = hashes g"
  "ptrs (snd (g_GetByAlias ref g)) = ptrs g"
  by (auto simp: g_GetByAlias_def g_GetValue_def case_prod_unfold Let_def split: option.splits)

lemma g_read_clock:
  assumes "mono_clock (aclock g)"
  shows "mono_clock (aclock (snd (g_GetValue pk g)))" "mono_clock (aclock (snd (g_GetByAlias ref g)))"
  using assms by (auto simp: g_GetByAlias_def g_GetValue_def case_prod_unfold Let_def
      g_now_mono(1) split: option.splits)

lemma g_inv_same_maps:
  "g_inv g \<Longrightarrow> vals g' = vals g \<Longrightarrow> hashes g' = hashes g \<Longrightarrow> ptrs g' = ptrs g \<Longrightarrow>
     mono_clock (aclock g') \<Longrightarrow> g_inv g'"
  by (simp add: g_inv_def)

lemma g_read_inv:
  assumes "g_inv g"
  shows "g_inv (snd (g_GetValue pk g))" "g_inv (snd (g_GetByAlias ref g))"
  using g_read_clock [OF g_invD(1) [OF assms]] by (auto intro: g_inv_same_maps [OF assms])

lemma g_GetValue_fst:
  "fst (g_GetValue pk g) =
     (case vals g pk of None \<Rightarrow> Inl ErrStoreMiss
      | Some e \<Rightarrow> if expired_at (e_expiresAt e) (g_now g) then Inl ErrStoreMiss else Inr (e_val e))"
  by (auto simp: g_GetValue_def case_prod_unfold Let_def split: option.splits)

text \<open>
  An alias read answers with the value of the record that has the alias, whenever that value is
  itself still readable at the last instant the read looks at the clock, and misses otherwise.
\<close>

definition alias_read_instant :: "AliasRef \<Rightarrow> agroup \<Rightarrow> agroup" where
  "alias_read_instant ref g =
     (case ptrs g (alias_tail (Field ref) (Value ref)) of
        None \<Rightarrow> g
      | Some pe \<Rightarrow> snd (g_expired (e_expiresAt pe) (snd (g_expired (e_expiresAt pe) g))))"

lemma g_GetByAlias_hit_sound:
  assumes inv: "g_inv g" and nf: "CHR '':'' \<notin> set (Field ref)"
    and hit: "fst (g_GetByAlias ref g) = Inr b"
  obtains pk h e where "hashes g pk = Some h" "fmlookup (mh_fields h) (Field ref) = Some (Value ref)"
    "vals g pk = Some e" "e_val e = b"
proof -
  from hit obtain pe where pe: "ptrs g (alias_tail (Field ref) (Value ref)) = Some pe"
    by (auto simp: g_GetByAlias_def split: option.splits)
  with g_ptr_iff [OF inv nf] obtain h where
    h: "hashes g (e_val pe) = Some h" "fmlookup (mh_fields h) (Field ref) = Some (Value ref)" by blast
  from hit pe h have "\<exists>g'. vals g' = vals g \<and> fst (g_GetValue (e_val pe) g') = Inr b"
    by (auto simp: g_GetByAlias_def case_prod_unfold Let_def split: if_splits
        intro!: exI [of _ "snd (g_expired _ (snd (g_expired _ g)))"])
  then obtain e where "vals g (e_val pe) = Some e" "e_val e = b"
    by (auto simp: g_GetValue_fst split: option.splits if_splits)
  with h show ?thesis by (rule that)
qed

lemma g_GetByAlias_live:
  assumes inv: "g_inv g"
    and h: "hashes g pk = Some h" "fmlookup (mh_fields h) (Field ref) = Some (Value ref)"
    and e: "vals g pk = Some e"
    and live: "\<not> expired_at (e_expiresAt e) (g_now (alias_read_instant ref g))"
  shows "fst (g_GetByAlias ref g) = Inr (e_val e)"
proof -
  have p: "ptrs g (alias_tail (Field ref) (Value ref)) =
      Some \<lparr>e_val = pk, e_expiresAt = mh_expiresAt h\<rparr>"
    using g_invD(3) [OF inv h] by simp
  let ?d = "mh_expiresAt h"
  let ?g1 = "snd (g_expired ?d g)"
  let ?g2 = "snd (g_expired ?d ?g1)"
  have bd: "before (e_expiresAt e) ?d" using g_invD(5) [OF inv h(1)] e by auto
  note m = g_now_mono(1,2) [OF g_invD(1) [OF inv], of ?d]
  have le: "g_now g \<le> g_now ?g2" "g_now ?g1 \<le> g_now ?g2"
    using m(2) g_now_mono(2) [OF m(1), of ?d] by linarith+
  from live p have l: "\<not> expired_at (e_expiresAt e) (g_now ?g2)" by (simp add: alias_read_instant_def)
  then have "\<not> expired_at ?d (g_now ?g2)" using before_expired [OF bd] by blast
  then have "\<not> expired_at ?d (g_now g)" "\<not> expired_at ?d (g_now ?g1)"
    using le expired_at_mono by blast+
  with p h e l show ?thesis
    by (simp add: g_GetByAlias_def case_prod_unfold Let_def g_GetValue_fst)
qed

lemma g_GetByAlias_dead:
  assumes inv: "g_inv g" and nf: "CHR '':'' \<notin> set (Field ref)"
    and none: "\<And>pk h. hashes g pk = Some h \<Longrightarrow> fmlookup (mh_fields h) (Field ref) \<noteq> Some (Value ref)"
  shows "fst (g_GetByAlias ref g) = Inl ErrStoreMiss"
proof -
  have "ptrs g (alias_tail (Field ref) (Value ref)) = None"
    using g_ptr_iff [OF inv nf] none by (metis not_None_eq)
  then show ?thesis by (simp add: g_GetByAlias_def)
qed

end
