(* ===== verification/Mem_Alias.thy ===== *)
theory Mem_Alias
  imports Alias_Spec
begin

text \<open>
  \<open>memstore/aliasops.go\<close>: alias groups in the in-memory store.  Every method holds the store's
  mutex from its first line to its last, so each is one atomic operation.  A record is the
  value under \<open>valueKey\<close>, the members hash under \<open>membersKey\<close> (field to alias value) and one
  pointer per alias under \<open>pointerKey\<close>, whose bytes are the primary key.
\<close>

record memAliasOps =
  mo_ns :: string
  mo_sharded :: bool

definition mem_AliasGroup :: "string \<Rightarrow> AliasMode \<Rightarrow> memAliasOps" where
  "mem_AliasGroup ns mode = \<lparr>mo_ns = ns, mo_sharded = (mode = AliasSharded)\<rparr>"

definition valueKey :: "memAliasOps \<Rightarrow> string \<Rightarrow> string" where
  "valueKey m pk = ValueKey (mo_ns m) pk (mo_sharded m)"

definition membersKey :: "memAliasOps \<Rightarrow> string \<Rightarrow> string" where
  "membersKey m pk = MembersKey (mo_ns m) pk (mo_sharded m)"

definition pointerKey :: "memAliasOps \<Rightarrow> string \<Rightarrow> string \<Rightarrow> string" where
  "pointerKey m field value = PointerKey (mo_ns m) field value (mo_sharded m)"

subsection \<open>The locked helpers\<close>

definition writeValueLocked :: "memAliasOps \<Rightarrow> string \<Rightarrow> bytes \<Rightarrow> int \<Rightarrow> memstore \<Rightarrow> memstore" where
  "writeValueLocked m primary val ttl s =
     (let (expiry, s1) = expAt ttl s
      in s1\<lparr>data := fmupd (valueKey m primary)
               \<lparr>e_val = cloneBytes val, e_expiresAt = expiry\<rparr> (data s1)\<rparr>)"

text \<open>The loop of \<open>refreshGroupLocked\<close> over the fields, in the order \<open>range\<close> gives them.\<close>

fun refresh_loop ::
  "memAliasOps \<Rightarrow> string gomap \<Rightarrow> int option \<Rightarrow> string list \<Rightarrow> memstore \<Rightarrow> memstore" where
  "refresh_loop m flds expiry [] s = s"
| "refresh_loop m flds expiry (field # fs) s =
     (case fmlookup flds field of
        None \<Rightarrow> refresh_loop m flds expiry fs s
      | Some value \<Rightarrow>
          (let pkey = pointerKey m field value
           in case fmlookup (data s) pkey of
                Some e \<Rightarrow>
                  refresh_loop m flds expiry fs
                    (s\<lparr>data := fmupd pkey (e\<lparr>e_expiresAt := expiry\<rparr>) (data s)\<rparr>)
              | None \<Rightarrow> refresh_loop m flds expiry fs s))"

definition refreshGroupLocked :: "memAliasOps \<Rightarrow> string \<Rightarrow> int \<Rightarrow> memstore \<Rightarrow> memstore" where
  "refreshGroupLocked m primary ttl s =
     (case fmlookup (members s) (membersKey m primary) of
        None \<Rightarrow> s
      | Some mh \<Rightarrow>
          (let (expiry, s1) = expAt ttl s;
               s2 = s1\<lparr>members := fmupd (membersKey m primary) (mh\<lparr>mh_expiresAt := expiry\<rparr>) (members s1)\<rparr>
           in refresh_loop m (mh_fields mh) expiry (range_ord s2 (fmdom (mh_fields mh))) s2))"

fun drop_pointers :: "memAliasOps \<Rightarrow> string gomap \<Rightarrow> string list \<Rightarrow> memstore \<Rightarrow> memstore" where
  "drop_pointers m flds [] s = s"
| "drop_pointers m flds (field # fs) s =
     (case fmlookup flds field of
        None \<Rightarrow> drop_pointers m flds fs s
      | Some value \<Rightarrow>
          drop_pointers m flds fs (s\<lparr>data := fmdrop (pointerKey m field value) (data s)\<rparr>))"

definition evictLocked :: "memAliasOps \<Rightarrow> string \<Rightarrow> memstore \<Rightarrow> memstore" where
  "evictLocked m primary s =
     (let s1 = s\<lparr>data := fmdrop (valueKey m primary) (data s)\<rparr>;
          mkey = membersKey m primary;
          s2 = (case fmlookup (members s1) mkey of
                  None \<Rightarrow> s1
                | Some mh \<Rightarrow>
                    drop_pointers m (mh_fields mh) (range_ord s1 (fmdom (mh_fields mh))) s1)
      in s2\<lparr>members := fmdrop mkey (members s2)\<rparr>)"

subsection \<open>The operations of the handle\<close>

definition mao_GetValue :: "memAliasOps \<Rightarrow> string \<Rightarrow> (error + bytes, memstore) op" where
  "mao_GetValue m primary s =
     (case fmlookup (data s) (valueKey m primary) of
        None \<Rightarrow> (Inl ErrStoreMiss, s)
      | Some e \<Rightarrow>
          (let (ex, s1) = aliasExpired (e_expiresAt e) s
           in if ex then (Inl ErrStoreMiss, s1) else (Inr (cloneBytes (e_val e)), s1)))"

definition mao_PutValue ::
  "memAliasOps \<Rightarrow> string \<Rightarrow> bytes \<Rightarrow> int \<Rightarrow> (error option, memstore) op" where
  "mao_PutValue m primary val ttl s =
     (let s1 = writeValueLocked m primary val ttl s
      in (None, refreshGroupLocked m primary ttl s1))"

text \<open>
  \<open>PutByAlias\<close>.  The hash \<open>mh\<close> is a pointer read before the steal; the steal changes the hash
  of another primary only (\<open>oldPk \<noteq> primary\<close>), so the value read first is still its content.
\<close>

definition mao_PutByAlias ::
  "memAliasOps \<Rightarrow> string \<Rightarrow> AliasRef \<Rightarrow> bytes \<Rightarrow> int \<Rightarrow> (error option, memstore) op" where
  "mao_PutByAlias m primary ref val ttl s =
     (let s1 = writeValueLocked m primary val ttl s;
          mkey = membersKey m primary;
          mh = fmlookup (members s1) mkey;
          s2 = (case mh of
                  None \<Rightarrow> s1
                | Some h \<Rightarrow>
                    (case fmlookup (mh_fields h) (Field ref) of
                       None \<Rightarrow> s1
                     | Some oldVal \<Rightarrow>
                         if oldVal \<noteq> Value ref
                         then s1\<lparr>data := fmdrop (pointerKey m (Field ref) oldVal) (data s1)\<rparr>
                         else s1));
          pkey = pointerKey m (Field ref) (Value ref);
          s3 = (case fmlookup (data s2) pkey of
                  None \<Rightarrow> s2
                | Some pe \<Rightarrow>
                    (let oldPk = e_val pe
                     in if oldPk \<noteq> primary
                        then case fmlookup (members s2) (membersKey m oldPk) of
                               None \<Rightarrow> s2
                             | Some oldMh \<Rightarrow>
                                 s2\<lparr>members := fmupd (membersKey m oldPk)
                                       (oldMh\<lparr>mh_fields := fmdrop (Field ref) (mh_fields oldMh)\<rparr>)
                                       (members s2)\<rparr>
                        else s2));
          (expiry, s4) = expAt ttl s3;
          s5 = s4\<lparr>data := fmupd pkey \<lparr>e_val = primary, e_expiresAt = expiry\<rparr> (data s4)\<rparr>;
          h = (case mh of None \<Rightarrow> \<lparr>mh_fields = fmempty, mh_expiresAt = None\<rparr> | Some h \<Rightarrow> h);
          s6 = s5\<lparr>members := fmupd mkey
                     (h\<lparr>mh_fields := fmupd (Field ref) (Value ref) (mh_fields h)\<rparr>) (members s5)\<rparr>
      in (None, refreshGroupLocked m primary ttl s6))"

text \<open>A missing field reads as the empty string, Go's zero value.\<close>

definition field_or_zero :: "string gomap \<Rightarrow> string \<Rightarrow> string" where
  "field_or_zero flds f = (case fmlookup flds f of None \<Rightarrow> '''' | Some v \<Rightarrow> v)"

definition mao_GetByAlias :: "memAliasOps \<Rightarrow> AliasRef \<Rightarrow> (error + bytes, memstore) op" where
  "mao_GetByAlias m ref s =
     (case fmlookup (data s) (pointerKey m (Field ref) (Value ref)) of
        None \<Rightarrow> (Inl ErrStoreMiss, s)
      | Some pe \<Rightarrow>
          (let (ex, s1) = aliasExpired (e_expiresAt pe) s
           in if ex then (Inl ErrStoreMiss, s1)
              else
                let pk = e_val pe
                in case fmlookup (members s1) (membersKey m pk) of
                     None \<Rightarrow> (Inl ErrStoreMiss, s1)
                   | Some mh \<Rightarrow>
                       (let (mex, s2) = aliasExpired (mh_expiresAt mh) s1
                        in if mex \<or> field_or_zero (mh_fields mh) (Field ref) \<noteq> Value ref
                           then (Inl ErrStoreMiss, s2)
                           else
                             case fmlookup (data s2) (valueKey m pk) of
                               None \<Rightarrow> (Inl ErrStoreMiss, s2)
                             | Some e \<Rightarrow>
                                 (let (vex, s3) = aliasExpired (e_expiresAt e) s2
                                  in if vex then (Inl ErrStoreMiss, s3)
                                     else (Inr (cloneBytes (e_val e)), s3)))))"

definition mao_EvictByPrimary :: "memAliasOps \<Rightarrow> string \<Rightarrow> (error option, memstore) op" where
  "mao_EvictByPrimary m primary s = (None, evictLocked m primary s)"

definition mao_EvictByAlias :: "memAliasOps \<Rightarrow> AliasRef \<Rightarrow> (error option, memstore) op" where
  "mao_EvictByAlias m ref s =
     (case fmlookup (data s) (pointerKey m (Field ref) (Value ref)) of
        None \<Rightarrow> (None, s)
      | Some pe \<Rightarrow> (None, evictLocked m (e_val pe) s))"

fun collect_primaries ::
  "(string \<Rightarrow> string \<times> bool) \<Rightarrow> string \<Rightarrow> string list \<Rightarrow> string fset \<Rightarrow> string fset" where
  "collect_primaries primary_of pfx [] primaries = primaries"
| "collect_primaries primary_of pfx (k # ks) primaries =
     (case primary_of k of
        (pk, ok) \<Rightarrow>
          collect_primaries primary_of pfx ks
            (if ok \<and> HasPrefix pk pfx then finsert pk primaries else primaries))"

definition mao_EvictByPrimaryPrefix ::
  "memAliasOps \<Rightarrow> string \<Rightarrow> (int \<times> error option, memstore) op" where
  "mao_EvictByPrimaryPrefix m primaryPrefix s =
     (let primaries0 = collect_primaries
            (\<lambda>k. PrimaryFromValueKey (mo_ns m) k (mo_sharded m)) primaryPrefix
            (range_ord s (fmdom (data s))) {||};
          primaries = collect_primaries
            (\<lambda>k. PrimaryFromMembersKey (mo_ns m) k (mo_sharded m)) primaryPrefix
            (range_ord s (fmdom (members s))) primaries0
      in ((int (fcard primaries), None), fold (evictLocked m) (range_ord s primaries) s))"

definition mem_alias_ops :: "memAliasOps \<Rightarrow> memstore alias_ops" where
  "mem_alias_ops m =
     \<lparr>ao_GetValue = mao_GetValue m, ao_PutValue = mao_PutValue m,
      ao_EvictByPrimary = mao_EvictByPrimary m, ao_GetByAlias = mao_GetByAlias m,
      ao_PutByAlias = mao_PutByAlias m, ao_EvictByAlias = mao_EvictByAlias m,
      ao_EvictByPrimaryPrefix = Some (mao_EvictByPrimaryPrefix m)\<rparr>"

definition mem_impl :: "memstore store_impl" where
  "mem_impl =
     \<lparr>si_store = mem_store, si_GetMany = Some mem_GetMany,
      si_DeleteByPrefix = Some mem_DeleteByPrefix,
      si_AliasGroup = Some (\<lambda>ns mode. mem_alias_ops (mem_AliasGroup ns mode))\<rparr>"

subsection \<open>Refinement of the abstract alias group\<close>

definition mem_abs :: "memAliasOps \<Rightarrow> memstore \<Rightarrow> agroup" where
  "mem_abs m s =
     \<lparr>vals = (\<lambda>pk. fmlookup (data s) (valueKey m pk)),
      hashes = (\<lambda>pk. fmlookup (members s) (membersKey m pk)),
      ptrs = (\<lambda>t. fmlookup (data s) (tail_key (mo_ns m) t (mo_sharded m))),
      aclock = clock s\<rparr>"

lemma key_simps [simp]:
  "valueKey m pk = valueKey m pk' \<longleftrightarrow> pk = pk'"
  "membersKey m pk = membersKey m pk' \<longleftrightarrow> pk = pk'"
  "valueKey m pk \<noteq> tail_key ns t sh" "tail_key ns t sh \<noteq> valueKey m pk"
  "pointerKey m f v = tail_key (mo_ns m) (alias_tail f v) (mo_sharded m)"
  by (simp_all add: valueKey_def membersKey_def pointerKey_def PointerKey_tail)

lemma mem_abs_sel [simp]:
  "vals (mem_abs m s) pk = fmlookup (data s) (valueKey m pk)"
  "hashes (mem_abs m s) pk = fmlookup (members s) (membersKey m pk)"
  "ptrs (mem_abs m s) t = fmlookup (data s) (tail_key (mo_ns m) t (mo_sharded m))"
  "aclock (mem_abs m s) = clock s"
  "g_now (mem_abs m s) = mem_now s"
  by (simp_all add: mem_abs_def g_now_def mem_now_def)

lemma agroup_eqI:
  assumes "\<And>pk. vals g pk = vals g' pk" "\<And>pk. hashes g pk = hashes g' pk"
    "\<And>t. ptrs g t = ptrs g' t" "aclock g = aclock g'"
  shows "g = (g' :: agroup)"
  using assms by (simp add: agroup.equality fun_eq_iff)

lemma clock_steps [simp]:
  "clock (snd (expAt ttl s)) = (if ttl > 0 then tail_clock (clock s) else clock s)"
  "clock (snd (aliasExpired d s)) = (if d = None then clock s else tail_clock (clock s))"
  "aclock (snd (g_expAt ttl g)) = (if ttl > 0 then tail_clock (aclock g) else aclock g)"
  "aclock (snd (g_expired d g)) = (if d = None then aclock g else tail_clock (aclock g))"
  by (auto simp: expAt_def aliasExpired_def time_Now_def g_expAt_def g_expired_def g_tick_def
      split: option.splits)

lemma mem_abs_aliasExpired [simp]:
  "mem_abs m (snd (aliasExpired d s)) = snd (g_expired d (mem_abs m s))"
  by (rule agroup_eqI) auto

lemma writeValueLocked_abs [simp]:
  "mem_abs m (writeValueLocked m pk val ttl s) = g_write pk val ttl (mem_abs m s)"
  by (rule agroup_eqI) (auto simp: writeValueLocked_def case_prod_unfold Let_def)

text \<open>The pointers of a list of fields.\<close>

definition tails_of :: "string gomap \<Rightarrow> string list \<Rightarrow> string set" where
  "tails_of flds fs = {alias_tail f v | f v. f \<in> set fs \<and> fmlookup flds f = Some v}"

lemma tails_of_simps [simp]:
  "tails_of flds [] = {}"
  "tails_of flds (f # fs) =
     (case fmlookup flds f of None \<Rightarrow> tails_of flds fs
      | Some v \<Rightarrow> insert (alias_tail f v) (tails_of flds fs))"
  by (auto simp: tails_of_def split: option.splits)

lemma tails_of_all: "set fs = fset (fmdom flds) \<Longrightarrow> tails_of flds fs = tails flds"
  by (auto simp: tails_def tails_of_def intro: fmdomI)

lemma refresh_loop_sel [simp]:
  "fmlookup (data (refresh_loop m flds x fs s)) (valueKey m pk) = fmlookup (data s) (valueKey m pk)"
  "members (refresh_loop m flds x fs s) = members s"
  "clock (refresh_loop m flds x fs s) = clock s"
  "range_ord (refresh_loop m flds x fs s) = range_ord s"
  "fmlookup (data (refresh_loop m flds x fs s)) (tail_key (mo_ns m) t (mo_sharded m)) =
     (if t \<in> tails_of flds fs
      then map_option (\<lambda>e. e\<lparr>e_expiresAt := x\<rparr>) (fmlookup (data s) (tail_key (mo_ns m) t (mo_sharded m)))
      else fmlookup (data s) (tail_key (mo_ns m) t (mo_sharded m)))"
  by (induction fs arbitrary: s) (auto simp: Let_def split: option.splits)

lemma drop_pointers_sel [simp]:
  "fmlookup (data (drop_pointers m flds fs s)) (valueKey m pk) = fmlookup (data s) (valueKey m pk)"
  "members (drop_pointers m flds fs s) = members s"
  "clock (drop_pointers m flds fs s) = clock s"
  "range_ord (drop_pointers m flds fs s) = range_ord s"
  "fmlookup (data (drop_pointers m flds fs s)) (tail_key (mo_ns m) t (mo_sharded m)) =
     (if t \<in> tails_of flds fs then None
      else fmlookup (data s) (tail_key (mo_ns m) t (mo_sharded m)))"
  by (induction fs arbitrary: s) (auto split: option.splits)

lemma range_ord_expAt [simp]: "range_ord (snd (expAt ttl s)) = range_ord s"
  by (simp add: expAt_def time_Now_def)

lemma mem_inv_tails [simp]:
  "mem_inv s \<Longrightarrow> tails_of flds (range_ord s (fmdom flds)) = tails flds"
  by (rule tails_of_all) (simp add: mem_inv_def)

lemma refreshGroupLocked_abs [simp]:
  "mem_inv s \<Longrightarrow> mem_abs m (refreshGroupLocked m pk ttl s) = g_refresh pk ttl (mem_abs m s)"
  by (rule agroup_eqI)
    (auto simp: refreshGroupLocked_def g_refresh_def case_prod_unfold Let_def split: option.splits)

lemma evictLocked_abs [simp]:
  "mem_inv s \<Longrightarrow> mem_abs m (evictLocked m pk s) = g_evict pk (mem_abs m s)"
  by (rule agroup_eqI) (auto simp: evictLocked_def Let_def split: option.splits)

lemma later_helpers [simp]:
  "later s (writeValueLocked m pk val ttl s)"
  "later s (refresh_loop m flds x fs s)"
  "later s (drop_pointers m flds fs s)"
  "later s (evictLocked m pk s)"
proof -
  show r: "later s (refresh_loop m flds x fs s)" for s
    by (auto simp: later_def intro: exI [of _ 0])
  show d: "later s (drop_pointers m flds fs s)" for s flds fs
    by (auto simp: later_def intro: exI [of _ 0])
  show "later s (writeValueLocked m pk val ttl s)"
    by (simp add: writeValueLocked_def case_prod_unfold Let_def)
  have "later (s\<lparr>data := dd\<rparr>) (drop_pointers m flds fs (s\<lparr>data := dd\<rparr>))" for dd flds fs
    by (rule d)
  then have "later s (drop_pointers m flds fs (s\<lparr>data := dd\<rparr>))" for dd flds fs by simp
  then show "later s (evictLocked m pk s)"
    by (auto simp: evictLocked_def Let_def split: option.splits)
qed

lemma later_refresh [simp]: "later s (refreshGroupLocked m pk ttl s)"
proof -
  have "later s (refresh_loop m flds x fs (snd (expAt ttl s)\<lparr>members := mm\<rparr>))" for flds x fs mm
    by (rule later_trans [OF _ later_helpers(2)]) simp
  then show ?thesis
    by (auto simp: refreshGroupLocked_def case_prod_unfold Let_def split: option.splits)
qed

lemma mem_inv_later [simp]:
  "mem_inv s \<Longrightarrow> mem_inv (writeValueLocked m pk val ttl s)"
  "mem_inv s \<Longrightarrow> mem_inv (refreshGroupLocked m pk ttl s)"
  "mem_inv s \<Longrightarrow> mem_inv (evictLocked m pk s)"
  "mem_inv s \<Longrightarrow> mem_inv (snd (expAt ttl s))"
  "mem_inv s \<Longrightarrow> mem_inv (snd (aliasExpired d s))"
  by (simp_all add: later_inv [of s])

text \<open>The three stages of \<open>PutByAlias\<close> between the value write and the group refresh.\<close>

definition put_replace :: "memAliasOps \<Rightarrow> membersHash option \<Rightarrow> AliasRef \<Rightarrow> memstore \<Rightarrow> memstore" where
  "put_replace m mh ref s =
     (case mh of
        None \<Rightarrow> s
      | Some h \<Rightarrow>
          (case fmlookup (mh_fields h) (Field ref) of
             None \<Rightarrow> s
           | Some oldVal \<Rightarrow>
               if oldVal \<noteq> Value ref
               then s\<lparr>data := fmdrop (pointerKey m (Field ref) oldVal) (data s)\<rparr> else s))"

definition put_steal :: "memAliasOps \<Rightarrow> string \<Rightarrow> AliasRef \<Rightarrow> memstore \<Rightarrow> memstore" where
  "put_steal m pk ref s =
     (case fmlookup (data s) (pointerKey m (Field ref) (Value ref)) of
        None \<Rightarrow> s
      | Some pe \<Rightarrow>
          if e_val pe \<noteq> pk
          then case fmlookup (members s) (membersKey m (e_val pe)) of
                 None \<Rightarrow> s
               | Some oldMh \<Rightarrow>
                   s\<lparr>members := fmupd (membersKey m (e_val pe))
                       (oldMh\<lparr>mh_fields := fmdrop (Field ref) (mh_fields oldMh)\<rparr>) (members s)\<rparr>
          else s)"

definition put_point ::
  "memAliasOps \<Rightarrow> string \<Rightarrow> membersHash option \<Rightarrow> AliasRef \<Rightarrow> int \<Rightarrow> memstore \<Rightarrow> memstore" where
  "put_point m pk mh ref ttl s =
     (let (expiry, s1) = expAt ttl s;
          s2 = s1\<lparr>data := fmupd (pointerKey m (Field ref) (Value ref))
                    \<lparr>e_val = pk, e_expiresAt = expiry\<rparr> (data s1)\<rparr>;
          h = (case mh of None \<Rightarrow> \<lparr>mh_fields = fmempty, mh_expiresAt = None\<rparr> | Some h \<Rightarrow> h)
      in s2\<lparr>members := fmupd (membersKey m pk)
              (h\<lparr>mh_fields := fmupd (Field ref) (Value ref) (mh_fields h)\<rparr>) (members s2)\<rparr>)"

lemma mao_PutByAlias_stages:
  "mao_PutByAlias m pk ref val ttl s =
     (let s1 = writeValueLocked m pk val ttl s; mh = fmlookup (members s1) (membersKey m pk)
      in (None, refreshGroupLocked m pk ttl
            (put_point m pk mh ref ttl (put_steal m pk ref (put_replace m mh ref s1)))))"
  unfolding mao_PutByAlias_def put_replace_def put_steal_def put_point_def Let_def
  by (simp only: case_prod_unfold)

lemma put_replace_abs:
  "mh = fmlookup (members s) (membersKey m pk) \<Longrightarrow>
     mem_abs m (put_replace m mh ref s) = g_replace pk ref (mem_abs m s)"
  by (rule agroup_eqI) (auto simp: put_replace_def g_replace_def split: option.splits)

lemma put_steal_abs: "mem_abs m (put_steal m pk ref s) = g_steal pk ref (mem_abs m s)"
  by (rule agroup_eqI) (auto simp: put_steal_def g_steal_def split: option.splits)

lemma put_point_abs:
  "mh = fmlookup (members s) (membersKey m pk) \<Longrightarrow>
     mem_abs m (put_point m pk mh ref ttl s) = g_point pk ref ttl (mem_abs m s)"
  by (rule agroup_eqI)
    (auto simp: put_point_def g_point_def case_prod_unfold Let_def split: option.splits)

lemma put_stage_frame [simp]:
  "members (put_replace m mh ref s) = members s"
  "fmlookup (members (put_steal m pk ref s)) (membersKey m pk) = fmlookup (members s) (membersKey m pk)"
  "later s (put_replace m mh ref s)" "later s (put_steal m pk ref s)"
  "later s (put_point m pk mh ref ttl s)"
  by (auto simp: put_replace_def put_steal_def put_point_def case_prod_unfold Let_def split: option.splits)

lemma mao_PutByAlias_abs:
  assumes "mem_inv s"
  shows "mem_abs m (snd (mao_PutByAlias m pk ref val ttl s)) = g_PutByAlias pk ref val ttl (mem_abs m s)"
    and "fst (mao_PutByAlias m pk ref val ttl s) = None"
    and "later s (snd (mao_PutByAlias m pk ref val ttl s))"
proof -
  let ?s1 = "writeValueLocked m pk val ttl s"
  let ?mh = "fmlookup (members ?s1) (membersKey m pk)"
  let ?s2 = "put_replace m ?mh ref ?s1"
  let ?s3 = "put_steal m pk ref ?s2"
  let ?s4 = "put_point m pk ?mh ref ttl ?s3"
  have eq: "mao_PutByAlias m pk ref val ttl s = (None, refreshGroupLocked m pk ttl ?s4)"
    by (simp only: mao_PutByAlias_stages Let_def)
  have l4: "later s ?s4"
    using later_trans [OF later_trans [OF later_trans [OF later_helpers(1) put_stage_frame(3)]
      put_stage_frame(4)] put_stage_frame(5)] .
  have "mem_abs m ?s4 = g_point pk ref ttl (mem_abs m ?s3)"
    by (rule put_point_abs) simp
  also have "mem_abs m ?s3 = g_steal pk ref (g_replace pk ref (g_write pk val ttl (mem_abs m s)))"
    by (simp only: put_steal_abs put_replace_abs [OF refl] writeValueLocked_abs)
  finally show "mem_abs m (snd (mao_PutByAlias m pk ref val ttl s)) = g_PutByAlias pk ref val ttl (mem_abs m s)"
    using later_inv [OF l4 assms] by (simp only: eq snd_conv refreshGroupLocked_abs g_PutByAlias_def)
  show "fst (mao_PutByAlias m pk ref val ttl s) = None" by (simp only: eq fst_conv)
  show "later s (snd (mao_PutByAlias m pk ref val ttl s))"
    using later_trans [OF l4 later_refresh] by (simp only: eq snd_conv)
qed

lemma mao_GetValue_abs:
  "fst (mao_GetValue m pk s) = fst (g_GetValue pk (mem_abs m s))"
  "mem_abs m (snd (mao_GetValue m pk s)) = snd (g_GetValue pk (mem_abs m s))"
  by (auto simp: mao_GetValue_def g_GetValue_def case_prod_unfold Let_def split: option.splits)

lemma mao_PutValue_abs:
  assumes "mem_inv s"
  shows "fst (mao_PutValue m pk val ttl s) = None"
    and "mem_abs m (snd (mao_PutValue m pk val ttl s)) = g_PutValue pk val ttl (mem_abs m s)"
  using assms by (simp_all add: mao_PutValue_def g_PutValue_def Let_def)

lemma mem_now_aliasExpired:
  "mem_now (snd (aliasExpired d s)) = g_now (snd (g_expired d (mem_abs m s)))"
  by (simp add: mem_now_def g_now_def)

lemma mao_GetByAlias_abs:
  "fst (mao_GetByAlias m ref s) = fst (g_GetByAlias ref (mem_abs m s))"
  "mem_abs m (snd (mao_GetByAlias m ref s)) = snd (g_GetByAlias ref (mem_abs m s))"
  by (auto simp: mao_GetByAlias_def g_GetByAlias_def g_GetValue_def field_or_zero_def
      case_prod_unfold Let_def mem_now_aliasExpired [of _ _ m] split: option.splits)

lemma mao_EvictByPrimary_abs:
  assumes "mem_inv s"
  shows "fst (mao_EvictByPrimary m pk s) = None"
    and "mem_abs m (snd (mao_EvictByPrimary m pk s)) = g_evict pk (mem_abs m s)"
  using assms by (simp_all add: mao_EvictByPrimary_def)

lemma mao_EvictByAlias_abs:
  assumes "mem_inv s"
  shows "fst (mao_EvictByAlias m ref s) = None"
    and "mem_abs m (snd (mao_EvictByAlias m ref s)) = g_EvictByAlias ref (mem_abs m s)"
  using assms by (auto simp: mao_EvictByAlias_def g_EvictByAlias_def split: option.splits)

lemma mao_later [simp]:
  "later s (snd (mao_GetValue m pk s))"
  "later s (snd (mao_PutValue m pk val ttl s))"
  "later s (snd (mao_GetByAlias m ref s))"
  "later s (snd (mao_EvictByPrimary m pk s))"
  "later s (snd (mao_EvictByAlias m ref s))"
proof -
  show "later s (snd (mao_GetValue m pk s))"
    by (auto simp: mao_GetValue_def case_prod_unfold Let_def split: option.splits)
  show "later s (snd (mao_PutValue m pk val ttl s))"
    using later_trans [OF later_helpers(1) later_refresh] by (simp add: mao_PutValue_def Let_def)
  have t: "later s (snd (aliasExpired d (snd (aliasExpired d' s))))" for d d'
    by (rule later_trans [OF _ aliasExpired_snd(3)]) simp
  have "later s (snd (aliasExpired d (snd (aliasExpired d' (snd (aliasExpired d'' s))))))" for d d' d''
    by (rule later_trans [OF t aliasExpired_snd(3)])
  with t show "later s (snd (mao_GetByAlias m ref s))"
    by (auto simp: mao_GetByAlias_def case_prod_unfold Let_def split: option.splits)
  show "later s (snd (mao_EvictByPrimary m pk s))" by (simp add: mao_EvictByPrimary_def)
  show "later s (snd (mao_EvictByAlias m ref s))"
    by (auto simp: mao_EvictByAlias_def split: option.splits)
qed

subsection \<open>Prefix eviction\<close>

lemma collect_primaries_set:
  "fset (collect_primaries f pfx ks S) =
     fset S \<union> {pk. \<exists>k \<in> set ks. f k = (pk, True) \<and> HasPrefix pk pfx}"
  by (induction ks arbitrary: S) (auto split: prod.splits)

lemma prefix_primaries:
  assumes "mem_inv s"
  shows "fset (collect_primaries (\<lambda>k. PrimaryFromMembersKey (mo_ns m) k (mo_sharded m)) pfx
      (range_ord s (fmdom (members s)))
      (collect_primaries (\<lambda>k. PrimaryFromValueKey (mo_ns m) k (mo_sharded m)) pfx
        (range_ord s (fmdom (data s))) {||})) = g_matching pfx (mem_abs m s)"
proof -
  have r: "set (range_ord s A) = fset A" for A using assms by (simp add: mem_inv_def)
  show ?thesis
    unfolding collect_primaries_set r g_matching_def
    by (auto simp: PrimaryFromValueKey_True_iff PrimaryFromMembersKey_True_iff valueKey_def membersKey_def
        fmlookup_dom_iff)
qed

lemma fold_evict_abs:
  assumes "mem_inv s"
  shows "mem_abs m (fold (evictLocked m) pks s) = fold g_evict pks (mem_abs m s)
    \<and> mem_inv (fold (evictLocked m) pks s) \<and> later s (fold (evictLocked m) pks s)"
  using assms
proof (induction pks arbitrary: s)
  case (Cons pk pks)
  from Cons.IH [of "evictLocked m pk s"] Cons.prems show ?case
    using later_trans [OF later_helpers(4) [of s m pk]] by auto
qed simp

lemma g_evict_set_insert: "g_evict_set S (g_evict pk g) = g_evict_set (insert pk S) g"
  by (rule agroup_eqI) (auto simp: g_evict_set_def)

lemma fold_g_evict: "fold g_evict pks g = g_evict_set (set pks) g"
proof (induction pks arbitrary: g)
  case Nil
  show ?case by (simp add: g_evict_set_def)
next
  case (Cons pk pks)
  show ?case by (simp add: Cons.IH g_evict_set_insert)
qed

lemma mao_EvictByPrimaryPrefix_abs:
  assumes "mem_inv s"
  shows "fst (mao_EvictByPrimaryPrefix m pfx s) = (int (card (g_matching pfx (mem_abs m s))), None)"
    and "mem_abs m (snd (mao_EvictByPrimaryPrefix m pfx s)) =
           g_evict_set (g_matching pfx (mem_abs m s)) (mem_abs m s)"
    and "later s (snd (mao_EvictByPrimaryPrefix m pfx s))"
proof -
  define P where "P = collect_primaries (\<lambda>k. PrimaryFromMembersKey (mo_ns m) k (mo_sharded m)) pfx
      (range_ord s (fmdom (members s)))
      (collect_primaries (\<lambda>k. PrimaryFromValueKey (mo_ns m) k (mo_sharded m)) pfx
        (range_ord s (fmdom (data s))) {||})"
  have P: "fset P = g_matching pfx (mem_abs m s)"
    unfolding P_def by (rule prefix_primaries [OF assms])
  have eq: "mao_EvictByPrimaryPrefix m pfx s =
      ((int (fcard P), None), fold (evictLocked m) (range_ord s P) s)"
    by (simp only: mao_EvictByPrimaryPrefix_def Let_def P_def)
  have "set (range_ord s P) = fset P" using assms by (simp add: mem_inv_def)
  with fold_evict_abs [OF assms, of m "range_ord s P"] P
  show "mem_abs m (snd (mao_EvictByPrimaryPrefix m pfx s)) =
      g_evict_set (g_matching pfx (mem_abs m s)) (mem_abs m s)"
    "later s (snd (mao_EvictByPrimaryPrefix m pfx s))"
    by (simp_all add: eq fold_g_evict)
  show "fst (mao_EvictByPrimaryPrefix m pfx s) = (int (card (g_matching pfx (mem_abs m s))), None)"
    using P by (simp add: eq fcard.rep_eq)
qed

end
