(* ===== verification/Float64.thy ===== *)
theory Float64
  imports Complex_Main "HOL-Library.Log_Nat"
begin

text \<open>
  The parts of Go's \<open>float64\<close> (IEEE 754 binary64, round to nearest, ties to even) that the
  program computes with: a float is a rational, an infinity or NaN (the sign of zero, which
  no operation of the program can see, is dropped).  \<open>round_pos\<close> is correct rounding of a
  positive rational to 53 significant bits with the subnormal range; the lemmas bound it
  against representable numbers and show that it is monotone.
\<close>

datatype f64 = Fin rat | PInf | NInf | NaN

subsection \<open>Rounding\<close>

text \<open>The exponent of a positive rational: \<open>2 ^ ilog2 x \<le> x < 2 ^ (ilog2 x + 1)\<close>.\<close>

definition ilog2 :: "rat \<Rightarrow> int" where
  "ilog2 x =
     (let (p, q) = quotient_of x;
          k = int (floorlog 2 (nat p)) - int (floorlog 2 (nat q))
      in if 2 powi k \<le> x then k else k - 1)"

definition rne :: "rat \<Rightarrow> int" where
  "rne x =
     (let f = floor x; d = x - of_int f
      in if d < 1 / 2 then f else if d > 1 / 2 then f + 1 else if even f then f else f + 1)"

definition ulp_exp :: "rat \<Rightarrow> int" where
  "ulp_exp x = max (-1074) (ilog2 x - 52)"

definition round_pos :: "rat \<Rightarrow> rat" where
  "round_pos x = (if x = 0 then 0 else of_int (rne (x / 2 powi ulp_exp x)) * 2 powi ulp_exp x)"

definition f64_of_rat :: "rat \<Rightarrow> f64" where
  "f64_of_rat x =
     (let y = (if x < 0 then - round_pos (- x) else round_pos x)
      in if y \<ge> 2 ^ 1024 then PInf else if y \<le> - (2 ^ 1024) then NInf else Fin y)"

subsection \<open>Operations\<close>

definition f64_signed_inf :: "bool \<Rightarrow> f64" where
  "f64_signed_inf negative = (if negative then NInf else PInf)"

fun f64_mul :: "f64 \<Rightarrow> f64 \<Rightarrow> f64" where
  "f64_mul NaN y = NaN"
| "f64_mul x NaN = NaN"
| "f64_mul (Fin a) (Fin b) = f64_of_rat (a * b)"
| "f64_mul (Fin a) PInf = (if a = 0 then NaN else f64_signed_inf (a < 0))"
| "f64_mul (Fin a) NInf = (if a = 0 then NaN else f64_signed_inf (a > 0))"
| "f64_mul PInf (Fin b) = (if b = 0 then NaN else f64_signed_inf (b < 0))"
| "f64_mul NInf (Fin b) = (if b = 0 then NaN else f64_signed_inf (b > 0))"
| "f64_mul PInf PInf = PInf"
| "f64_mul PInf NInf = NInf"
| "f64_mul NInf PInf = NInf"
| "f64_mul NInf NInf = PInf"

text \<open>Every comparison with NaN is false.\<close>

fun f64_less :: "f64 \<Rightarrow> f64 \<Rightarrow> bool" where
  "f64_less (Fin a) (Fin b) = (a < b)"
| "f64_less (Fin a) PInf = True"
| "f64_less NInf (Fin b) = True"
| "f64_less NInf PInf = True"
| "f64_less _ _ = False"

definition f64_le :: "f64 \<Rightarrow> f64 \<Rightarrow> bool" where
  "f64_le x y \<longleftrightarrow> x \<noteq> NaN \<and> y \<noteq> NaN \<and> (x = y \<or> f64_less x y)"

definition f64_of_int :: "int \<Rightarrow> f64" where
  "f64_of_int n = f64_of_rat (of_int n)"

text \<open>
  Conversion to \<open>int64\<close> truncates towards zero; where the value does not fit (NaN included) the
  language leaves the result to the implementation, which is the argument \<open>cvt\<close>.
\<close>

definition rat_trunc :: "rat \<Rightarrow> int" where
  "rat_trunc x = (if x \<ge> 0 then floor x else ceiling x)"

definition int64_of_f64 :: "(f64 \<Rightarrow> int) \<Rightarrow> f64 \<Rightarrow> int" where
  "int64_of_f64 cvt f =
     (case f of
        Fin x \<Rightarrow> (let n = rat_trunc x in if - (2 ^ 63) \<le> n \<and> n < 2 ^ 63 then n else cvt f)
      | _ \<Rightarrow> cvt f)"

text \<open>The two's complement wrap-around of \<open>int64\<close> arithmetic.\<close>

definition wrap64 :: "int \<Rightarrow> int" where
  "wrap64 x = (x + 2 ^ 63) mod 2 ^ 64 - 2 ^ 63"

lemma wrap64_id: "- (2 ^ 63) \<le> x \<Longrightarrow> x < 2 ^ 63 \<Longrightarrow> wrap64 x = x"
  by (simp add: wrap64_def)

subsection \<open>Rounding to an integer\<close>

lemma rne_of_int [simp]: "rne (of_int n) = n"
  by (simp add: rne_def)

lemma rne_bounds: "floor x \<le> rne x" "rne x \<le> floor x + 1"
  by (auto simp: rne_def Let_def)

lemma rne_near: "x - 1 / 2 \<le> of_int (rne x)" "of_int (rne x) \<le> x + 1 / 2"
proof -
  have "of_int (floor x) \<le> x" "x < of_int (floor x) + 1"
    by linarith+
  then show "x - 1 / 2 \<le> of_int (rne x)" "of_int (rne x) \<le> x + 1 / 2"
    unfolding rne_def Let_def by (auto, linarith+)
qed

lemma rne_mono: assumes "x \<le> y" shows "rne x \<le> rne y"
proof (cases "floor x = floor y")
  case True
  with assms show ?thesis by (auto simp: rne_def Let_def)
next
  case False
  with assms have "floor x + 1 \<le> floor y"
    using floor_mono [OF assms] by linarith
  with rne_bounds [of x] rne_bounds [of y] show ?thesis by linarith
qed

lemma rne_le: "x \<le> of_int n \<Longrightarrow> rne x \<le> n"
  using rne_mono [of x "of_int n"] by simp

lemma rne_ge: "of_int n \<le> x \<Longrightarrow> n \<le> rne x"
  using rne_mono [of "of_int n" x] by simp

lemma rne_half_below: assumes "x < of_int n - 1 / 2" shows "rne x < n"
proof -
  have "(of_int (rne x) :: rat) < of_int n"
    using rne_near(2) [of x] assms by linarith
  then show ?thesis by simp
qed

subsection \<open>The exponent\<close>

lemma ilog2_bounds:
  assumes "x > 0"
  shows "2 powi ilog2 x \<le> x" "x < 2 powi (ilog2 x + 1)"
proof -
  obtain p q where pq: "quotient_of x = (p, q)" by fastforce
  then have q: "q > 0" and x: "x = of_int p / of_int q"
    by (auto simp: quotient_of_denom_pos quotient_of_div)
  with assms have p: "p > 0" by (simp add: zero_less_divide_iff)
  define lp lq where "lp = floorlog 2 (nat p)" and "lq = floorlog 2 (nat q)"
  have bnd: "2 powi (int (floorlog 2 (nat i)) - 1) \<le> (of_int i :: rat) \<and>
      (of_int i :: rat) < 2 powi int (floorlog 2 (nat i))" if "i > 0" for i :: int
  proof -
    define l where "l = nat \<lfloor>log (real 2) (real (nat i))\<rfloor>"
    have l: "floorlog 2 (nat i) = Suc l"
      using that by (simp add: floorlog_def l_def)
    have "2 ^ l \<le> nat i" "nat i < 2 ^ Suc l"
      using floorlog_bounds [of "nat i" 2] that l by auto
    then have "2 ^ l \<le> i" "i < 2 ^ Suc l"
      using that by (simp_all add: le_nat_iff nat_less_iff)
    then have "(of_int (2 ^ l) :: rat) \<le> of_int i" "of_int i < (of_int (2 ^ Suc l) :: rat)"
      by (simp_all only: of_int_le_iff of_int_less_iff)
    moreover have "(2::rat) powi (int (floorlog 2 (nat i)) - 1) = 2 ^ l"
      "(2::rat) powi int (floorlog 2 (nat i)) = 2 ^ Suc l"
      by (simp_all add: l power_int_add flip: power_int_of_nat)
    ultimately show ?thesis by simp
  qed
  define k where "k = int lp - int lq"
  note P = bnd [OF p, folded lp_def] and Q = bnd [OF q, folded lq_def]
  have "x < 2 powi int lp / 2 powi (int lq - 1)"
    unfolding x using P Q q p by (intro frac_less) auto
  also have "\<dots> = 2 powi (k + 1)"
    by (simp add: k_def power_int_diff power_int_add field_simps)
  finally have hi: "x < 2 powi (k + 1)" .
  have "2 powi (int lp - 1) / 2 powi int lq \<le> x"
    unfolding x using P Q q p by (intro frac_le) auto
  moreover have "2 powi (int lp - 1) / 2 powi int lq = (2::rat) powi (k - 1)"
    by (simp add: k_def power_int_diff power_int_add field_simps)
  ultimately have lo: "2 powi (k - 1) \<le> x" by simp
  have il: "ilog2 x = (if 2 powi k \<le> x then k else k - 1)"
    by (simp add: ilog2_def pq lp_def lq_def k_def)
  show "2 powi ilog2 x \<le> x" "x < 2 powi (ilog2 x + 1)"
    using hi lo by (auto simp: il)
qed

lemma ilog2_mono: assumes "0 < x" "x \<le> y" shows "ilog2 x \<le> ilog2 y"
proof (rule ccontr)
  assume "\<not> ?thesis"
  then have "(2::rat) powi (ilog2 y + 1) \<le> 2 powi ilog2 x"
    by (intro power_int_increasing) auto
  with ilog2_bounds [of x] ilog2_bounds [of y] assms show False by linarith
qed

lemma ulp_exp_mono: "0 < x \<Longrightarrow> x \<le> y \<Longrightarrow> ulp_exp x \<le> ulp_exp y"
  using ilog2_mono [of x y] by (simp add: ulp_exp_def)

text \<open>The scaled significand is below \<open>2 ^ 53\<close>, and at least \<open>2 ^ 52\<close> unless \<open>x\<close> is subnormal.\<close>

lemma significand_bounds:
  assumes "x > 0"
  shows "x / 2 powi ulp_exp x < 2 ^ 53"
    and "ulp_exp x > -1074 \<Longrightarrow> 2 ^ 52 \<le> x / 2 powi ulp_exp x"
proof -
  let ?e = "ulp_exp x"
  have "x < 2 powi (ilog2 x + 1)" by (rule ilog2_bounds(2) [OF assms])
  also have "\<dots> \<le> 2 powi (?e + 53)" by (intro power_int_increasing) (auto simp: ulp_exp_def)
  also have "\<dots> = 2 ^ 53 * 2 powi ?e" by (simp add: power_int_add)
  finally show "x / 2 powi ?e < 2 ^ 53" by (simp add: field_simps)
  assume "?e > -1074"
  then have "ilog2 x = ?e + 52" by (auto simp: ulp_exp_def)
  then have "2 ^ 52 * 2 powi ?e \<le> x"
    using ilog2_bounds(1) [OF assms] by (simp add: power_int_add mult.commute)
  then show "2 ^ 52 \<le> x / 2 powi ?e" by (simp add: field_simps)
qed

subsection \<open>Representable numbers\<close>

definition is_double :: "rat \<Rightarrow> bool" where
  "is_double y \<longleftrightarrow> (\<exists>m e. y = of_int m * 2 powi e \<and> 0 \<le> m \<and> m < 2 ^ 53 \<and> -1074 \<le> e)"

lemma is_doubleI: "0 \<le> m \<Longrightarrow> m < 2 ^ 53 \<Longrightarrow> -1074 \<le> e \<Longrightarrow> is_double (of_int m * 2 powi e)"
  by (auto simp: is_double_def)

lemma powi_int_split:
  assumes "e \<le> e'" shows "(2::rat) powi e' = of_int (2 ^ nat (e' - e)) * 2 powi e"
proof -
  have "(2::rat) powi e' = 2 powi ((e' - e) + e)" by simp
  also have "\<dots> = 2 powi (e' - e) * 2 powi e" by (rule power_int_add) simp
  also have "(2::rat) powi (e' - e) = of_int (2 ^ nat (e' - e))"
    using assms by (simp add: power_int_def)
  finally show ?thesis .
qed

text \<open>A representable number lies on the grid of every smaller number.\<close>

lemma is_double_on_grid:
  assumes "is_double y" "0 < x" "x \<le> y"
  obtains n where "y = of_int n * 2 powi ulp_exp x"
proof -
  obtain m e where me: "y = of_int m * 2 powi e" "0 \<le> m" "m < 2 ^ 53" "-1074 \<le> e"
    using assms(1) by (auto simp: is_double_def)
  have "ulp_exp x \<le> e"
  proof (rule ccontr)
    assume "\<not> ulp_exp x \<le> e"
    then have e: "e + 1 \<le> ulp_exp x" and "ulp_exp x > -1074" using me by auto
    then have x: "2 ^ 52 * 2 powi ulp_exp x \<le> x"
      using significand_bounds(2) [OF assms(2)] by (simp add: field_simps)
    have "y < 2 ^ 53 * 2 powi e"
    proof -
      have "(of_int m :: rat) < of_int (2 ^ 53)" using me(3) by (simp only: of_int_less_iff)
      then show ?thesis by (simp add: me(1))
    qed
    also have "\<dots> = 2 ^ 52 * 2 powi (e + 1)" by (simp add: power_int_add)
    also have "\<dots> \<le> 2 ^ 52 * 2 powi ulp_exp x"
      by (intro mult_left_mono power_int_increasing e) auto
    finally show False using x assms(3) by linarith
  qed
  then have "y = of_int (m * 2 ^ nat (e - ulp_exp x)) * 2 powi ulp_exp x"
    unfolding me(1) powi_int_split [OF \<open>ulp_exp x \<le> e\<close>] of_int_mult by (simp only: mult.assoc)
  then show ?thesis by (rule that)
qed

lemma round_pos_0 [simp]: "round_pos 0 = 0"
  by (simp add: round_pos_def)

lemma round_pos_pos: "x > 0 \<Longrightarrow> round_pos x = of_int (rne (x / 2 powi ulp_exp x)) * 2 powi ulp_exp x"
  by (simp add: round_pos_def)

lemma round_pos_nonneg: "0 \<le> x \<Longrightarrow> 0 \<le> round_pos x"
  by (auto simp: round_pos_def intro!: mult_nonneg_nonneg rne_ge)

lemma round_pos_le_double:
  assumes "0 \<le> x" "x \<le> y" "is_double y"
  shows "round_pos x \<le> y"
proof (cases "x = 0")
  case True
  with assms show ?thesis by simp
next
  case False
  with assms have x: "0 < x" by simp
  obtain n where n: "y = of_int n * 2 powi ulp_exp x"
    using is_double_on_grid [OF assms(3) x assms(2)] .
  with assms(2) have "rne (x / 2 powi ulp_exp x) \<le> n"
    by (intro rne_le) (simp add: field_simps)
  then show ?thesis by (simp add: round_pos_pos [OF x] n)
qed

lemma round_pos_double_self:
  assumes "is_double y" "y > 0" shows "round_pos y = y"
proof -
  obtain n where n: "y = of_int n * 2 powi ulp_exp y"
    using is_double_on_grid [OF assms order.refl] .
  then have "y / 2 powi ulp_exp y = of_int n"
    by (metis nonzero_mult_div_cancel_right power_int_not_zero zero_neq_numeral)
  then show ?thesis using n by (simp add: round_pos_pos [OF assms(2)])
qed

lemma round_pos_mono:
  assumes "0 \<le> x" "x \<le> y" shows "round_pos x \<le> round_pos y"
proof (cases "x = 0")
  case True
  with assms show ?thesis by (simp add: round_pos_nonneg)
next
  case False
  with assms have x: "0 < x" and y: "0 < y" by auto
  show ?thesis
  proof (cases "ulp_exp x = ulp_exp y")
    case True
    have "rne (x / 2 powi ulp_exp y) \<le> rne (y / 2 powi ulp_exp y)"
      by (rule rne_mono) (use assms in \<open>simp add: divide_right_mono\<close>)
    then show ?thesis by (simp add: round_pos_pos [OF x] round_pos_pos [OF y] True)
  next
    case False
    with ulp_exp_mono [OF x assms(2)] have lt: "ulp_exp x < ulp_exp y" by simp
    then have gt: "ulp_exp y > -1074" by (simp add: ulp_exp_def)
    let ?z = "of_int (2 ^ 52) * (2::rat) powi ulp_exp y"
    have z: "is_double ?z" using gt by (intro is_doubleI) auto
    have "x \<le> 2 ^ 53 * 2 powi ulp_exp x"
      using significand_bounds(1) [OF x] by (simp add: field_simps)
    also have "\<dots> = 2 ^ 52 * 2 powi (ulp_exp x + 1)" by (simp add: power_int_add)
    also have "\<dots> \<le> 2 ^ 52 * 2 powi ulp_exp y"
      using lt by (intro mult_left_mono power_int_increasing) auto
    finally have "round_pos x \<le> ?z"
      using assms(1) z by (intro round_pos_le_double) auto
    also have "\<dots> \<le> round_pos y"
    proof -
      have "2 ^ 52 \<le> rne (y / 2 powi ulp_exp y)"
        by (rule rne_ge) (use significand_bounds(2) [OF y gt] in simp)
      then have "(of_int (2 ^ 52) :: rat) \<le> of_int (rne (y / 2 powi ulp_exp y))"
        by (simp only: of_int_le_iff)
      then show ?thesis by (simp add: round_pos_pos [OF y])
    qed
    finally show ?thesis .
  qed
qed

lemma round_pos_is_double: assumes "x > 0" shows "is_double (round_pos x)"
proof -
  let ?e = "ulp_exp x" and ?n = "rne (x / 2 powi ulp_exp x)"
  have n: "0 \<le> ?n" "?n \<le> 2 ^ 53"
    using significand_bounds(1) [OF assms] assms by (auto intro!: rne_ge rne_le)
  have e: "-1074 \<le> ?e" by (simp add: ulp_exp_def)
  show ?thesis
  proof (cases "?n = 2 ^ 53")
    case True
    then have "round_pos x = of_int (2 ^ 52) * 2 powi (?e + 1)"
      by (simp add: round_pos_pos [OF assms] power_int_add)
    with e show ?thesis using is_doubleI [of "2 ^ 52" "?e + 1"] by simp
  next
    case False
    with n e show ?thesis by (simp add: round_pos_pos [OF assms] is_doubleI)
  qed
qed

lemma ulp_exp_eqI:
  assumes "2 ^ 52 * 2 powi e \<le> x" "x < 2 ^ 53 * 2 powi e" "-1074 \<le> e"
  shows "ulp_exp x = e"
proof -
  have "0 < (2 ^ 52 * 2 powi e :: rat)" by simp
  with assms(1) have x: "0 < x" by linarith
  have a: "(2::rat) powi (e + 52) = 2 ^ 52 * 2 powi e" "(2::rat) powi (e + 53) = 2 ^ 53 * 2 powi e"
    by (simp_all add: power_int_add)
  have "(2::rat) powi (e + 52) < 2 powi (ilog2 x + 1)" "(2::rat) powi ilog2 x < 2 powi (e + 53)"
    using ilog2_bounds [OF x] assms(1,2) unfolding a by linarith+
  then have "\<not> ilog2 x + 1 \<le> e + 52" "\<not> e + 53 \<le> ilog2 x"
    using power_int_increasing [of _ _ "2::rat"] by (fastforce simp: not_le [symmetric])+
  with assms(3) show ?thesis by (simp add: ulp_exp_def)
qed

text \<open>
  Scaling a normal number by the largest float below one and rounding gives at most its
  predecessor: with \<open>b = (m + 1) * 2 ^ e\<close> the result is at most \<open>m * 2 ^ e\<close>.
\<close>

lemma scale_below_one:
  assumes b: "is_double b" "0 < b" and normal: "-1073 \<le> ulp_exp b - 1"
  obtains m e where "b = of_int (m + 1) * 2 powi e" "2 ^ 52 \<le> m" "m < 2 ^ 53" "-1074 \<le> e"
    "round_pos (b * (1 - 1 / 2 ^ 53)) \<le> of_int m * 2 powi e"
proof -
  let ?e = "ulp_exp b" and ?x = "b * (1 - 1 / 2 ^ 53)"
  obtain n where n: "b = of_int n * 2 powi ?e"
    using is_double_on_grid [OF b(1,2) order.refl] .
  then have "b / 2 powi ?e = of_int n"
    by (metis nonzero_mult_div_cancel_right power_int_not_zero zero_neq_numeral)
  then have "2 ^ 52 \<le> (of_int n :: rat)" "(of_int n :: rat) < 2 ^ 53"
    using significand_bounds [OF b(2)] normal by simp_all
  then have "(of_int (2 ^ 52) :: rat) \<le> of_int n" "(of_int n :: rat) < of_int (2 ^ 53)"
    by simp_all
  then have nb: "2 ^ 52 \<le> n" "n < 2 ^ 53"
    by (simp_all only: of_int_le_iff of_int_less_iff)
  show ?thesis
  proof (cases "n = 2 ^ 52")
    case True
    have eq: "b = 2 ^ 53 * 2 powi (?e - 1)"
      by (subst n) (simp add: True power_int_diff)
    then have x: "?x = of_int (2 ^ 53 - 1) * 2 powi (?e - 1)"
      by (simp add: algebra_simps)
    have "is_double ?x" unfolding x by (rule is_doubleI) (use normal in auto)
    then have "round_pos ?x \<le> of_int (2 ^ 53 - 1) * 2 powi (?e - 1)"
      using b(2) unfolding x by (intro round_pos_le_double) auto
    with eq show ?thesis
      using normal by (intro that [of "2 ^ 53 - 1" "?e - 1"]) auto
  next
    case False
    with nb have n1: "2 ^ 52 \<le> n - 1" by simp
    have x: "?x / 2 powi ?e = of_int n - of_int n / 2 ^ 53"
      by (subst n) (simp add: field_simps)
    have half: "1 / 2 < (of_int n / 2 ^ 53 :: rat)" "(of_int n / 2 ^ 53 :: rat) \<le> 1"
    proof -
      have "(of_int (2 ^ 52) :: rat) < of_int n" "(of_int n :: rat) < of_int (2 ^ 53)"
        using nb False by (simp_all only: of_int_less_iff)
      then show "1 / 2 < (of_int n / 2 ^ 53 :: rat)" "(of_int n / 2 ^ 53 :: rat) \<le> 1" by simp_all
    qed
    have "(of_int (2 ^ 52) :: rat) \<le> of_int (n - 1)" using n1 by (simp only: of_int_le_iff)
    then have lo: "2 ^ 52 \<le> ?x / 2 powi ?e" unfolding x using half by simp
    have hi: "?x / 2 powi ?e < 2 ^ 53"
    proof -
      have "(of_int n :: rat) < of_int (2 ^ 53)" using nb(2) by (simp only: of_int_less_iff)
      then show ?thesis unfolding x using half by simp
    qed
    have e: "ulp_exp ?x = ?e"
      by (rule ulp_exp_eqI) (use lo hi normal in \<open>simp_all add: field_simps\<close>)
    have "rne (?x / 2 powi ?e) < n"
      by (rule rne_half_below) (unfold x, use half in simp)
    then have "(of_int (rne (?x / 2 powi ?e)) :: rat) \<le> of_int (n - 1)"
      by (simp only: of_int_le_iff)
    moreover have "0 < ?x" using b(2) by simp
    ultimately have "round_pos ?x \<le> of_int (n - 1) * 2 powi ?e"
      by (simp only: round_pos_pos e) (rule mult_right_mono, simp_all)
    with n n1 nb normal show ?thesis by (intro that [of "n - 1" ?e]) auto
  qed
qed

text \<open>A float below one is at most \<open>1 - 2 ^ -53\<close>.\<close>

lemma is_double_below_one:
  assumes "is_double x" "x < 1" shows "x \<le> 1 - 1 / 2 ^ 53"
proof (cases "x \<le> 0")
  case True
  then show ?thesis by (rule order_trans) simp
next
  case False
  obtain m e where me: "x = of_int m * 2 powi e" "0 \<le> m" "m < 2 ^ 53" "-1074 \<le> e"
    using assms(1) by (auto simp: is_double_def)
  show ?thesis
  proof (cases "e < -53")
    case True
    have "(of_int m :: rat) < of_int (2 ^ 53)" using me(3) by (simp only: of_int_less_iff)
    then have "x \<le> 2 ^ 53 * 2 powi e" by (simp add: me(1))
    also have "\<dots> \<le> 2 ^ 53 * 2 powi (-54)"
      using True by (intro mult_left_mono power_int_increasing) auto
    also have "\<dots> \<le> 1 - 1 / 2 ^ 53" by (simp add: power_int_def power_one_over)
    finally show ?thesis .
  next
    case False
    then have "x = of_int (m * 2 ^ nat (e + 53)) * 2 powi (-53)"
      by (simp add: me(1) powi_int_split [of "-53" e] mult.assoc del: of_int_power)
    then have x: "x * 2 ^ 53 = of_int (m * 2 ^ nat (e + 53))"
      by (simp add: power_int_def power_one_over)
    with assms(2) have "(of_int (m * 2 ^ nat (e + 53)) :: rat) < of_int (2 ^ 53)"
      by (simp add: x [symmetric] del: of_int_mult of_int_power)
    then have "m * 2 ^ nat (e + 53) \<le> 2 ^ 53 - 1" by (simp only: of_int_less_iff)
    then have "(of_int (m * 2 ^ nat (e + 53)) :: rat) \<le> of_int (2 ^ 53 - 1)"
      by (simp only: of_int_le_iff)
    then show ?thesis by (simp add: x [symmetric] del: of_int_mult of_int_power)
  qed
qed

lemma f64_of_rat_Fin:
  assumes "0 \<le> x" "x < 2 ^ 64" shows "f64_of_rat x = Fin (round_pos x)"
proof -
  have "round_pos x \<le> of_int 1 * 2 powi 64"
    using assms by (intro round_pos_le_double is_doubleI) auto
  also have "\<dots> < (2 ^ 1024 :: rat)" by simp
  finally have "round_pos x < 2 ^ 1024" .
  moreover have "- (2 ^ 1024 :: rat) < 0" by simp
  ultimately show ?thesis
    using assms(1) round_pos_nonneg [OF assms(1)] by (simp add: f64_of_rat_def not_le)
qed

end
