(* ===== verification/Jitter.thy ===== *)
theory Jitter
  imports Float64 SC_Prelude
begin

text \<open>
  \<open>jitter.go\<close>: the downward jitter of a TTL.  A base duration is a positive \<open>int64\<close> of
  nanoseconds; \<open>jitterRand\<close> is a stream of floats in \<open>[0, 1)\<close>, of which \<open>applyJitter\<close> takes
  one only when it jitters.  The lemmas show, in the float arithmetic the code performs, that
  jitter never lengthens a TTL and never turns a finite TTL into one that stores read as
  \<open>no expiry\<close>.
\<close>

type_synonym rand_stream = "nat \<Rightarrow> f64"

definition defaultJitterFraction :: f64 where
  "defaultJitterFraction = f64_of_rat (1 / 10)"

definition applyJitter ::
  "(f64 \<Rightarrow> int) \<Rightarrow> int \<Rightarrow> f64 \<Rightarrow> rand_stream \<Rightarrow> int \<times> rand_stream" where
  "applyJitter cvt base fraction jitterRand =
     (if base \<le> 0 \<or> f64_le fraction (Fin 0) then (base, jitterRand)
      else
        let delta = int64_of_f64 cvt (f64_mul (f64_mul (jitterRand 0) fraction) (f64_of_int base))
        in (wrap64 (base - delta), \<lambda>i. jitterRand (Suc i)))"

definition is_unit_float :: "f64 \<Rightarrow> bool" where
  "is_unit_float f \<longleftrightarrow> (\<exists>x. f = Fin x \<and> is_double x \<and> 0 \<le> x \<and> x < 1)"

definition rand_ok :: "rand_stream \<Rightarrow> bool" where
  "rand_ok rs \<longleftrightarrow> (\<forall>i. is_unit_float (rs i))"

text \<open>The float \<open>b\<close> nearest to \<open>base\<close>, scaled by the largest float below one, is below \<open>base\<close>.\<close>

lemma powi_le_1_on_grid:
  assumes "e \<le> 0" shows "\<exists>n. (of_int k :: rat) = of_int n * 2 powi e"
proof
  have "(1::rat) = of_int (2 ^ nat (0 - e)) * 2 powi e"
    using powi_int_split [OF assms] by simp
  then show "(of_int k :: rat) = of_int (k * 2 ^ nat (0 - e)) * 2 powi e"
    by (metis (no_types, lifting) mult.assoc mult_1_right of_int_mult)
qed

lemma scaled_int_below:
  fixes base :: int
  assumes "1 \<le> base"
  shows "round_pos (round_pos (of_int base) * (1 - 1 / 2 ^ 53)) < of_int base"
proof -
  let ?x = "of_int base :: rat"
  let ?b = "round_pos ?x" and ?e = "ulp_exp ?x"
  have x: "0 < ?x" using assms by simp
  have "is_double (1::rat)" using is_doubleI [of 1 0] by simp
  then have "round_pos 1 = 1" by (rule round_pos_double_self) simp
  moreover have "round_pos 1 \<le> ?b" using assms by (intro round_pos_mono) auto
  ultimately have b1: "1 \<le> ?b" by simp
  then have b0: "0 < ?b" by linarith
  have u1: "ulp_exp 1 = -52" by (rule ulp_exp_eqI) (simp_all add: power_int_def power_one_over)
  have "-52 \<le> ulp_exp ?b" using ulp_exp_mono [OF _ b1] u1 by simp
  then obtain m e where me: "?b = of_int (m + 1) * 2 powi e" "2 ^ 52 \<le> m" "m < 2 ^ 53" "-1074 \<le> e"
    "round_pos (?b * (1 - 1 / 2 ^ 53)) \<le> of_int m * 2 powi e"
    using scale_below_one [OF round_pos_is_double [OF x] b0] by auto
  have d: "round_pos (?b * (1 - 1 / 2 ^ 53)) \<le> ?b - 2 powi e"
    using me(5) by (simp add: me(1) algebra_simps)
  show ?thesis
  proof (cases "?e \<le> 0")
    case True
    then obtain n where n: "?x = of_int n * 2 powi ?e" using powi_le_1_on_grid by blast
    then have "?x / 2 powi ?e = of_int n"
      by (metis nonzero_mult_div_cancel_right power_int_not_zero zero_neq_numeral)
    then have "?b = ?x" using n by (simp add: round_pos_pos [OF x])
    moreover have "(0::rat) < 2 powi e" by simp
    ultimately show ?thesis using d by linarith
  next
    case False
    then have norm: "?e > -1074" by simp
    let ?n = "rne (?x / 2 powi ?e)"
    have n: "2 ^ 52 \<le> ?n"
      by (rule rne_ge) (use significand_bounds(2) [OF x norm] in simp)
    have near: "?b - 2 powi ?e / 2 \<le> ?x"
    proof -
      have "(of_int ?n - 1 / 2) * 2 powi ?e \<le> ?x / 2 powi ?e * 2 powi ?e"
        using rne_near(2) [of "?x / 2 powi ?e"] by (intro mult_right_mono) auto
      then show ?thesis by (simp add: round_pos_pos [OF x] algebra_simps)
    qed
    show ?thesis
    proof (cases "?e \<le> e")
      case True
      then have "(2::rat) powi ?e \<le> 2 powi e" by (intro power_int_increasing) auto
      moreover have "(0::rat) < 2 powi ?e" by simp
      ultimately show ?thesis using near d by linarith
    next
      case False
      have "(of_int (m + 1) :: rat) \<le> of_int (2 ^ 53)" using me(3) by (simp only: of_int_le_iff)
      then have "?b \<le> 2 ^ 53 * 2 powi e" unfolding me(1) by (intro mult_right_mono) auto
      also have "\<dots> = 2 ^ 52 * 2 powi (e + 1)" by (simp add: power_int_add)
      also have "\<dots> \<le> 2 ^ 52 * 2 powi ?e"
        using False by (intro mult_left_mono power_int_increasing) auto
      also have "\<dots> \<le> ?x" using significand_bounds(2) [OF x norm] by (simp add: field_simps)
      finally have "?b \<le> ?x" .
      moreover have "(0::rat) < 2 powi e" by simp
      ultimately show ?thesis using d by linarith
    qed
  qed
qed

text \<open>What the float product of \<open>applyJitter\<close> comes to.\<close>

definition jitter_delta :: "rat \<Rightarrow> rat \<Rightarrow> int \<Rightarrow> rat" where
  "jitter_delta r f base = round_pos (round_pos (r * f) * round_pos (of_int base))"

lemma unit_product:
  assumes "is_double r" "0 \<le> r" "r < 1" "0 \<le> f" "f < 1"
  shows "0 \<le> round_pos (r * f)" "round_pos (r * f) \<le> 1 - 1 / 2 ^ 53"
proof -
  show "0 \<le> round_pos (r * f)" using assms by (intro round_pos_nonneg) auto
  have "r * f \<le> r" using assms by (simp add: mult_left_le)
  also have "r \<le> 1 - 1 / 2 ^ 53" using assms by (intro is_double_below_one) auto
  finally have "r * f \<le> 1 - 1 / 2 ^ 53" .
  moreover have "is_double (of_int (2 ^ 53 - 1) * 2 powi (-53))" by (rule is_doubleI) auto
  moreover have "of_int (2 ^ 53 - 1) * 2 powi (-53) = (1 - 1 / 2 ^ 53 :: rat)"
    by (simp add: power_int_def power_one_over)
  ultimately show "round_pos (r * f) \<le> 1 - 1 / 2 ^ 53"
    using assms by (intro round_pos_le_double) auto
qed

lemma jitter_delta_bounds:
  assumes "is_double r" "0 \<le> r" "r < 1" "0 \<le> f" "f < 1" "1 \<le> base"
  shows "0 \<le> jitter_delta r f base" "jitter_delta r f base < of_int base"
proof -
  note p = unit_product [OF assms(1-5)]
  have b: "0 \<le> round_pos (of_int base)" using assms(6) by (intro round_pos_nonneg) auto
  show "0 \<le> jitter_delta r f base"
    unfolding jitter_delta_def by (rule round_pos_nonneg, rule mult_nonneg_nonneg, fact p(1), fact b)
  have "jitter_delta r f base \<le> round_pos (round_pos (of_int base) * (1 - 1 / 2 ^ 53))"
    unfolding jitter_delta_def using p b
    by (intro round_pos_mono) (simp_all only: mult_nonneg_nonneg mult.commute [of "round_pos (r * f)"]
        mult_left_mono)
  also have "\<dots> < of_int base" using assms(6) by (rule scaled_int_below)
  finally show "jitter_delta r f base < of_int base" .
qed

lemma f64_jitter_product:
  assumes "is_double r" "0 \<le> r" "r < 1" "0 \<le> f" "f < 1" "1 \<le> base" "base < 2 ^ 63"
  shows "f64_mul (f64_mul (Fin r) (Fin f)) (f64_of_int base) = Fin (jitter_delta r f base)"
proof -
  note p = unit_product [OF assms(1-5)]
  have "0 \<le> r * f" "r * f < 1" using assms by (auto simp: mult_le_one intro: le_less_trans [OF mult_left_le])
  then have rf: "f64_of_rat (r * f) = Fin (round_pos (r * f))"
    by (simp add: f64_of_rat_Fin)
  have "(of_int base :: rat) < of_int (2 ^ 63)" using assms(7) by (simp only: of_int_less_iff)
  then have b63: "(of_int base :: rat) < 2 ^ 63" by simp
  then have b: "f64_of_int base = Fin (round_pos (of_int base))"
    using assms(6) by (simp add: f64_of_int_def f64_of_rat_Fin)
  have "round_pos (of_int base) \<le> of_int 1 * 2 powi 63"
    using assms(6) b63 by (intro round_pos_le_double is_doubleI) auto
  then have B: "0 \<le> round_pos (of_int base)" "round_pos (of_int base) \<le> (2 ^ 63 :: rat)"
    using assms(6) by (auto intro: round_pos_nonneg)
  then have "round_pos (r * f) * round_pos (of_int base) \<le> 1 * 2 ^ 63"
    using p by (intro mult_mono) auto
  then have "round_pos (r * f) * round_pos (of_int base) < 2 ^ 64" by simp
  then show ?thesis
    using p B by (simp add: rf b f64_of_rat_Fin jitter_delta_def)
qed

lemma applyJitter_eq:
  assumes "is_unit_float (rs 0)" "0 < f" "f < 1" "1 \<le> base" "base < 2 ^ 63"
  obtains r where "rs 0 = Fin r" "is_double r" "0 \<le> r" "r < 1"
    "applyJitter cvt base (Fin f) rs = (base - floor (jitter_delta r f base), \<lambda>i. rs (Suc i))"
    "0 \<le> floor (jitter_delta r f base)" "floor (jitter_delta r f base) < base"
proof -
  from assms(1) obtain r where r: "rs 0 = Fin r" "is_double r" "0 \<le> r" "r < 1"
    by (auto simp: is_unit_float_def)
  let ?d = "jitter_delta r f base"
  have d: "0 \<le> ?d" "?d < of_int base"
    using jitter_delta_bounds [of r f base] r assms by auto
  then have fl: "0 \<le> floor ?d" "floor ?d < base" by (auto simp: floor_less_iff)
  have "(of_int base :: rat) < of_int (2 ^ 63)" using assms(5) by (simp only: of_int_less_iff)
  then have "?d < 2 ^ 63" using d(2) by simp
  then have "int64_of_f64 cvt (Fin ?d) = floor ?d"
    using d(1) fl(1) by (simp add: int64_of_f64_def rat_trunc_def)
  moreover have "wrap64 (base - floor ?d) = base - floor ?d"
    by (rule wrap64_id; use fl assms in linarith)
  ultimately have "applyJitter cvt base (Fin f) rs = (base - floor ?d, \<lambda>i. rs (Suc i))"
    using assms r f64_jitter_product [of r f base]
    by (simp add: applyJitter_def f64_le_def del: f64_mul.simps)
  with r fl show ?thesis by (intro that)
qed

text \<open>A fraction the program treats as valid: a float in \<open>[0, 1)\<close>.\<close>

lemma applyJitter_bounds:
  assumes "rand_ok rs" "is_unit_float fraction" "0 < base" "base < 2 ^ 63"
  shows "0 < fst (applyJitter cvt base fraction rs)"
    and "fst (applyJitter cvt base fraction rs) \<le> base"
    and "rand_ok (snd (applyJitter cvt base fraction rs))"
proof -
  from assms(2) obtain f where f: "fraction = Fin f" "0 \<le> f" "f < 1"
    by (auto simp: is_unit_float_def)
  have "0 < fst (applyJitter cvt base fraction rs) \<and> fst (applyJitter cvt base fraction rs) \<le> base \<and>
      rand_ok (snd (applyJitter cvt base fraction rs))"
  proof (cases "f = 0")
    case True
    with f assms show ?thesis by (simp add: applyJitter_def f64_le_def)
  next
    case False
    with f assms applyJitter_eq [of rs f base cvt]
    obtain r where "applyJitter cvt base (Fin f) rs = (base - floor (jitter_delta r f base), \<lambda>i. rs (Suc i))"
      "0 \<le> floor (jitter_delta r f base)" "floor (jitter_delta r f base) < base"
      by (auto simp: rand_ok_def)
    with f assms(1) show ?thesis by (simp add: rand_ok_def)
  qed
  then show "0 < fst (applyJitter cvt base fraction rs)"
    "fst (applyJitter cvt base fraction rs) \<le> base"
    "rand_ok (snd (applyJitter cvt base fraction rs))" by blast+
qed

subsection \<open>How much jitter takes off\<close>

lemma int_is_double: assumes "0 \<le> base" "base \<le> 2 ^ 53" shows "is_double (of_int base)"
proof (cases "base = 2 ^ 53")
  case True
  then show ?thesis using is_doubleI [of 1 53] by simp
next
  case False
  with assms show ?thesis using is_doubleI [of base 0] by simp
qed

lemma jitter_delta_small:
  assumes "is_double f" "0 \<le> r" "r < 1" "0 \<le> f" "f < 2 powi (-64)" "0 \<le> b" "b \<le> 2 ^ 53"
  shows "round_pos (round_pos (r * f) * b) \<le> 1 / 2"
proof -
  have "r * f \<le> f" using assms by (simp add: mult_left_le_one_le)
  then have "round_pos (r * f) \<le> f" using assms by (intro round_pos_le_double) auto
  then have "round_pos (r * f) * b \<le> 2 powi (-64) * 2 ^ 53"
    using assms by (intro mult_mono) auto
  also have "\<dots> \<le> 1 / 2" by (simp add: power_int_def power_one_over)
  finally have "round_pos (r * f) * b \<le> 1 / 2" .
  moreover have "is_double (1 / 2)" using is_doubleI [of 1 "-1"] by (simp add: power_int_def)
  ultimately show ?thesis
    using assms by (intro round_pos_le_double mult_nonneg_nonneg round_pos_nonneg) auto
qed

text \<open>Rounding \<open>m * 2 ^ e * b\<close> up stays below the next multiple of \<open>b\<close>.\<close>

lemma round_product_le:
  assumes "2 ^ 52 \<le> m" "m < 2 ^ 53" "-1074 \<le> e" "1 \<le> b"
  shows "round_pos (of_int m * 2 powi e * b) \<le> of_int (m + 1) * 2 powi e * b"
proof -
  let ?x = "of_int m * 2 powi e * b" and ?g = "2 powi e * b"
  have "(0::int) < m" using assms(1) by simp
  then have x: "0 < ?x" using assms(4) by simp
  let ?u = "ulp_exp ?x"
  have "2 powi ?u \<le> 2 * ?g"
  proof (cases "?u = -1074")
    case True
    have "2 powi (-1074) \<le> (2 powi e :: rat)" using assms(3) by (intro power_int_increasing) auto
    also have "\<dots> \<le> ?g" using assms(4) by simp
    finally show ?thesis using True assms(4) by simp
  next
    case False
    then have "?u > -1074" by (simp add: ulp_exp_def)
    then have "2 ^ 52 * 2 powi ?u \<le> ?x"
      using significand_bounds(2) [OF x] by (simp add: field_simps)
    also have "\<dots> \<le> 2 ^ 53 * ?g"
    proof -
      have "(of_int m :: rat) < of_int (2 ^ 53)" using assms(2) by (simp only: of_int_less_iff)
      then have "(of_int m :: rat) \<le> 2 ^ 53" by simp
      then show ?thesis using assms(4) by (simp only: mult.assoc) (intro mult_right_mono, simp_all)
    qed
    finally show ?thesis by (simp add: mult.commute)
  qed
  moreover have "round_pos ?x \<le> ?x + 2 powi ?u / 2"
  proof -
    have "of_int (rne (?x / 2 powi ?u)) * 2 powi ?u \<le> (?x / 2 powi ?u + 1 / 2) * 2 powi ?u"
      by (intro mult_right_mono rne_near) auto
    also have "\<dots> = ?x + 2 powi ?u / 2" by (simp add: distrib_right)
    finally show ?thesis by (simp only: round_pos_pos [OF x])
  qed
  ultimately have "round_pos ?x \<le> ?x + ?g" by linarith
  then show ?thesis by (simp add: algebra_simps)
qed

lemma jitter_delta_le:
  assumes "is_double r" "0 \<le> r" "r < 1" "is_double f" "0 < f" "f < 1" "1 \<le> base" "base \<le> 2 ^ 53"
  shows "of_int (floor (jitter_delta r f base)) \<le> f * of_int base"
proof -
  let ?b = "of_int base :: rat"
  have b: "1 \<le> ?b" using assms(7) by simp
  have "(of_int base :: rat) \<le> of_int (2 ^ 53)" using assms(8) by (simp only: of_int_le_iff)
  then have b2: "?b \<le> 2 ^ 53" by simp
  have rb: "round_pos ?b = ?b"
    using assms(7,8) by (intro round_pos_double_self int_is_double) auto
  have d: "jitter_delta r f base = round_pos (round_pos (r * f) * ?b)"
    by (simp add: jitter_delta_def rb)
  show ?thesis
  proof (cases "f < 2 powi (-64)")
    case True
    have "jitter_delta r f base \<le> 1 / 2"
      unfolding d by (rule jitter_delta_small) (use assms True b b2 in auto)
    then have "floor (jitter_delta r f base) \<le> 0" by linarith
    then have "(of_int (floor (jitter_delta r f base)) :: rat) \<le> 0" by simp
    also have "0 \<le> f * ?b" using assms by simp
    finally show ?thesis .
  next
    case False
    have "ulp_exp (2 powi (-64)) = -116"
      by (rule ulp_exp_eqI) (simp_all add: power_int_def power_one_over)
    with False have "-116 \<le> ulp_exp f"
      using ulp_exp_mono [of "2 powi (-64)" f] by simp
    then obtain m e where me: "f = of_int (m + 1) * 2 powi e" "2 ^ 52 \<le> m" "m < 2 ^ 53" "-1074 \<le> e"
      "round_pos (f * (1 - 1 / 2 ^ 53)) \<le> of_int m * 2 powi e"
      using scale_below_one [OF assms(4,5)] by auto
    have "r * f \<le> f * (1 - 1 / 2 ^ 53)"
      using is_double_below_one [OF assms(1,3)] assms(5)
      by (simp only: mult.commute [of r f]) (intro mult_left_mono, simp_all)
    then have "round_pos (r * f) \<le> round_pos (f * (1 - 1 / 2 ^ 53))"
      using assms by (intro round_pos_mono) auto
    with me(5) have "round_pos (r * f) * ?b \<le> of_int m * 2 powi e * ?b"
      using b by (intro mult_right_mono) auto
    moreover have "0 \<le> round_pos (r * f) * ?b"
      using assms b by (intro mult_nonneg_nonneg round_pos_nonneg) auto
    ultimately have "jitter_delta r f base \<le> round_pos (of_int m * 2 powi e * ?b)"
      unfolding d by (intro round_pos_mono)
    also have "\<dots> \<le> f * ?b"
      unfolding me(1) using me(2-4) b by (rule round_product_le)
    finally show ?thesis using of_int_floor_le [of "jitter_delta r f base"] by linarith
  qed
qed

lemma applyJitter_lower:
  assumes "is_unit_float (rs 0)" "is_unit_float (Fin f)" "0 < base" "base \<le> 2 ^ 53"
  shows "(1 - f) * of_int base \<le> of_int (fst (applyJitter cvt base (Fin f) rs))"
proof (cases "f = 0")
  case True
  with assms show ?thesis by (simp add: applyJitter_def f64_le_def)
next
  case False
  with assms(2) have f: "is_double f" "0 < f" "f < 1" by (auto simp: is_unit_float_def)
  with assms obtain r where r: "is_double r" "0 \<le> r" "r < 1"
    "applyJitter cvt base (Fin f) rs = (base - floor (jitter_delta r f base), \<lambda>i. rs (Suc i))"
    using applyJitter_eq [of rs f base cvt] by auto
  from jitter_delta_le [OF r(1-3) f] assms
  have "of_int (floor (jitter_delta r f base)) \<le> f * of_int base" by simp
  then show ?thesis by (simp add: r(4) algebra_simps)
qed

end
