(* ===== verification/Telemetry.thy ===== *)
theory Telemetry
  imports Errors Float64
begin

text \<open>
  \<open>telemetry.go\<close> and the \<open>Outcome\<close> type of \<open>cache.go\<close>.  The OpenTelemetry packages are not part
  of the repository: a \<open>meter\<close> is a record of its two constructors, which may fail; an
  instrument is known by the handle they return; and what the program does with instruments is
  the log \<open>metric_log\<close> of its \<open>Add\<close> and \<open>Record\<close> calls, the latest last.
\<close>

subsection \<open>Outcomes\<close>

text \<open>\<open>Outcome\<close> is a Go \<open>int\<close>; \<open>OutcomeInt\<close> stands for the integers that no constant names.\<close>

datatype Outcome =
    Hit | Loaded | LoadedNotCached | NegativeHit | Written | WrittenNotCached | OutcomeInt int

fun dec_digits :: "nat \<Rightarrow> string" where
  "dec_digits n =
     (if n < 10 then [char_of (48 + n)] else dec_digits (n div 10) @ [char_of (48 + n mod 10)])"

declare dec_digits.simps [simp del]

definition Sprintf_d :: "int \<Rightarrow> string" where
  "Sprintf_d i = (if i < 0 then CHR ''-'' # dec_digits (nat (- i)) else dec_digits (nat i))"

fun Outcome_String :: "Outcome \<Rightarrow> string" where
  "Outcome_String Hit = ''Hit''"
| "Outcome_String Loaded = ''Loaded''"
| "Outcome_String LoadedNotCached = ''LoadedNotCached''"
| "Outcome_String NegativeHit = ''NegativeHit''"
| "Outcome_String Written = ''Written''"
| "Outcome_String WrittenNotCached = ''WrittenNotCached''"
| "Outcome_String (OutcomeInt i) = ''Outcome('' @ Sprintf_d i @ '')''"

subsection \<open>The OTLP configuration\<close>

record OTLPConfig =
  URL :: "string option"
  FlushInterval :: "int option"
  Timeout :: "int option"
  Insecure :: "bool option"
  ServiceName :: "string option"

record resolvedOTLP =
  endpoint :: string
  flushInterval :: int
  timeout :: int
  insecure :: bool
  serviceName :: string

definition time_Second :: int where "time_Second = 1000000000"

definition resolveOTLP :: "OTLPConfig \<Rightarrow> error + resolvedOTLP" where
  "resolveOTLP cfg =
     (case URL cfg of
        None \<Rightarrow> Inl (OtherErr ''smartcache: WithOTLP requires a non-nil URL'')
      | Some url \<Rightarrow>
          let r = \<lparr>endpoint = url, flushInterval = 15 * time_Second, timeout = 10 * time_Second,
                   insecure = False, serviceName = ''smartcache''\<rparr>;
              r1 = (case FlushInterval cfg of None \<Rightarrow> r | Some d \<Rightarrow> r\<lparr>flushInterval := d\<rparr>);
              r2 = (case Timeout cfg of None \<Rightarrow> r1 | Some d \<Rightarrow> r1\<lparr>timeout := d\<rparr>);
              r3 = (case Insecure cfg of None \<Rightarrow> r2 | Some b \<Rightarrow> r2\<lparr>insecure := b\<rparr>);
              r4 = (case ServiceName cfg of None \<Rightarrow> r3 | Some n \<Rightarrow> r3\<lparr>serviceName := n\<rparr>)
          in Inr r4)"

subsection \<open>Meters and meter providers\<close>

type_synonym instrument = string

record meter =
  mt_Int64Counter :: "string \<Rightarrow> error + instrument"
  mt_Float64Histogram :: "string \<Rightarrow> string \<Rightarrow> error + instrument"

record meter_provider =
  mp_Meter :: "string \<Rightarrow> meter"
  mp_Shutdown :: "error option"

datatype otlp_option = WithEndpoint string | WithTimeout int | WithInsecure

text \<open>The SDK constructors that \<open>newMeterProvider\<close> calls, over the SDK's own exporter and reader.\<close>

record ('exp, 'rd) otel_sdk =
  sdk_New :: "otlp_option list \<Rightarrow> error + 'exp"
  sdk_NewPeriodicReader :: "'exp \<Rightarrow> int \<Rightarrow> 'rd"
  sdk_NewMeterProvider :: "'rd \<Rightarrow> string \<times> string \<Rightarrow> meter_provider"

definition newMeterProvider :: "('exp, 'rd) otel_sdk \<Rightarrow> resolvedOTLP \<Rightarrow> error + meter_provider" where
  "newMeterProvider sdk r =
     (let opts = [WithEndpoint (endpoint r), WithTimeout (timeout r)];
          opts1 = (if insecure r then opts @ [WithInsecure] else opts)
      in case sdk_New sdk opts1 of
           Inl err \<Rightarrow> Inl (WrapErr ''smartcache: otlp metric exporter'' err)
         | Inr exporter \<Rightarrow>
             (let reader = sdk_NewPeriodicReader sdk exporter (flushInterval r)
              in Inr (sdk_NewMeterProvider sdk reader (''service.name'', serviceName r))))"

subsection \<open>The instruments of one cache\<close>

record cacheMetrics =
  m_hit :: instrument
  m_loaded :: instrument
  m_loadedNotCached :: instrument
  m_negativeHit :: instrument
  m_loadError :: instrument
  m_written :: instrument
  m_writtenNotCached :: instrument
  m_evict :: instrument
  m_loadLatency :: instrument

text \<open>The early return \<open>if err != nil { return nil, err }\<close>.\<close>

fun try_go :: "error + 'a \<Rightarrow> ('a \<Rightarrow> error + 'b) \<Rightarrow> error + 'b" where
  "try_go (Inl err) k = Inl err"
| "try_go (Inr x) k = k x"

definition newCacheMetrics :: "meter \<Rightarrow> string \<Rightarrow> error + cacheMetrics" where
  "newCacheMetrics mt name =
     (let counter = (\<lambda>event. mt_Int64Counter mt (''smartcache.'' @ name @ event)) in
      try_go (counter ''.hit'') (\<lambda>h.
      try_go (counter ''.loaded'') (\<lambda>l.
      try_go (counter ''.loaded_not_cached'') (\<lambda>lnc.
      try_go (counter ''.negative_hit'') (\<lambda>nh.
      try_go (counter ''.load_error'') (\<lambda>le.
      try_go (counter ''.written'') (\<lambda>w.
      try_go (counter ''.written_not_cached'') (\<lambda>wnc.
      try_go (counter ''.evict'') (\<lambda>ev.
      try_go (mt_Float64Histogram mt (''smartcache.'' @ name @ ''.load_latency'') ''s'') (\<lambda>ll.
        Inr \<lparr>m_hit = h, m_loaded = l, m_loadedNotCached = lnc, m_negativeHit = nh,
             m_loadError = le, m_written = w, m_writtenNotCached = wnc, m_evict = ev,
             m_loadLatency = ll\<rparr>))))))))))"

subsection \<open>Recording\<close>

datatype metric_event = Add instrument int | Record instrument f64

type_synonym metric_log = "metric_event list"

definition recordOutcome :: "cacheMetrics option \<Rightarrow> Outcome \<Rightarrow> metric_log \<Rightarrow> metric_log" where
  "recordOutcome m out l =
     (case m of
        None \<Rightarrow> l
      | Some m \<Rightarrow>
          (case out of
             Hit \<Rightarrow> l @ [Add (m_hit m) 1]
           | Loaded \<Rightarrow> l @ [Add (m_loaded m) 1]
           | LoadedNotCached \<Rightarrow> l @ [Add (m_loadedNotCached m) 1]
           | NegativeHit \<Rightarrow> l @ [Add (m_negativeHit m) 1]
           | Written \<Rightarrow> l @ [Add (m_written m) 1]
           | WrittenNotCached \<Rightarrow> l @ [Add (m_writtenNotCached m) 1]
           | OutcomeInt i \<Rightarrow> l))"

definition recordLoadError :: "cacheMetrics option \<Rightarrow> metric_log \<Rightarrow> metric_log" where
  "recordLoadError m l = (case m of None \<Rightarrow> l | Some m \<Rightarrow> l @ [Add (m_loadError m) 1])"

definition recordLoadLatencySeconds :: "cacheMetrics option \<Rightarrow> f64 \<Rightarrow> metric_log \<Rightarrow> metric_log" where
  "recordLoadLatencySeconds m s l =
     (case m of None \<Rightarrow> l | Some m \<Rightarrow> l @ [Record (m_loadLatency m) s])"

definition recordEvict :: "cacheMetrics option \<Rightarrow> int \<Rightarrow> metric_log \<Rightarrow> metric_log" where
  "recordEvict m n l = (case m of None \<Rightarrow> l | Some m \<Rightarrow> l @ [Add (m_evict m) n])"

text \<open>What each call adds to the log.\<close>

definition outcome_events :: "cacheMetrics option \<Rightarrow> Outcome \<Rightarrow> metric_log" where
  "outcome_events m out = recordOutcome m out []"

lemma recordOutcome_append: "recordOutcome m out l = l @ outcome_events m out"
  by (simp add: recordOutcome_def outcome_events_def split: option.splits Outcome.splits)

lemma outcome_events_simps [simp]:
  "outcome_events None out = []"
  "outcome_events (Some m) Hit = [Add (m_hit m) 1]"
  "outcome_events (Some m) Loaded = [Add (m_loaded m) 1]"
  "outcome_events (Some m) LoadedNotCached = [Add (m_loadedNotCached m) 1]"
  "outcome_events (Some m) NegativeHit = [Add (m_negativeHit m) 1]"
  "outcome_events (Some m) Written = [Add (m_written m) 1]"
  "outcome_events (Some m) WrittenNotCached = [Add (m_writtenNotCached m) 1]"
  by (simp_all add: outcome_events_def recordOutcome_def)

lemma record_nil [simp]:
  "recordOutcome None out l = l" "recordLoadError None l = l"
  "recordLoadLatencySeconds None s l = l" "recordEvict None n l = l"
  by (simp_all add: recordOutcome_def recordLoadError_def recordLoadLatencySeconds_def recordEvict_def)

lemma record_Some [simp]:
  "recordLoadError (Some m) l = l @ [Add (m_loadError m) 1]"
  "recordLoadLatencySeconds (Some m) s l = l @ [Record (m_loadLatency m) s]"
  "recordEvict (Some m) n l = l @ [Add (m_evict m) n]"
  by (simp_all add: recordLoadError_def recordLoadLatencySeconds_def recordEvict_def)

subsection \<open>Registration of instruments\<close>

lemma try_go_Inr [simp]: "try_go r k = Inr y \<longleftrightarrow> (\<exists>x. r = Inr x \<and> k x = Inr y)"
  by (cases r) auto

lemma try_go_Inl: "try_go r k = Inl e \<longleftrightarrow> r = Inl e \<or> (\<exists>x. r = Inr x \<and> k x = Inl e)"
  by (cases r) auto

text \<open>The events that get an instrument, in the order of the record's fields.\<close>

definition counter_events :: "string list" where
  "counter_events = [''.hit'', ''.loaded'', ''.loaded_not_cached'', ''.negative_hit'',
     ''.load_error'', ''.written'', ''.written_not_cached'', ''.evict'']"

definition counters :: "cacheMetrics \<Rightarrow> instrument list" where
  "counters m = [m_hit m, m_loaded m, m_loadedNotCached m, m_negativeHit m, m_loadError m,
     m_written m, m_writtenNotCached m, m_evict m]"

lemma newCacheMetrics_Inr:
  "newCacheMetrics mt name = Inr m \<longleftrightarrow>
     map (\<lambda>ev. mt_Int64Counter mt (''smartcache.'' @ name @ ev)) counter_events = map Inr (counters m) \<and>
     mt_Float64Histogram mt (''smartcache.'' @ name @ ''.load_latency'') ''s'' = Inr (m_loadLatency m)"
  by (auto simp: newCacheMetrics_def counter_events_def counters_def Let_def)

lemma newCacheMetrics_fails:
  "newCacheMetrics mt name = Inl err \<Longrightarrow>
     (\<exists>nm. mt_Int64Counter mt nm = Inl err) \<or> (\<exists>nm u. mt_Float64Histogram mt nm u = Inl err)"
  unfolding newCacheMetrics_def Let_def try_go_Inl by blast

lemma resolveOTLP_Inl: "resolveOTLP cfg = Inl e \<Longrightarrow> URL cfg = None"
  by (simp add: resolveOTLP_def Let_def split: option.splits)

end
