(* ===== verification/Cache.thy ===== *)
theory Cache
  imports Store_Interface Keyspace Jitter Telemetry
begin

text \<open>
  \<open>cache.go\<close> and \<open>alias_cache.go\<close>: the operations of \<open>Cache[T]\<close>.

  Everything an operation can touch is the \<open>world\<close>: the backend's state \<open>'s\<close>, the application's
  source of truth \<open>'x\<close> (what a loader or writer reads and writes), the stream of
  \<open>jitterRand\<close>, the stopwatch readings of \<open>time.Since\<close>, the log of metric calls, the order of
  \<open>range\<close>, and how this machine converts an out-of-range float to an integer.  An operation on a
  cache of values \<open>'v\<close> takes the world and returns its result and the next world.  A \<open>*T\<close> is a
  \<open>'v option\<close>, \<open>None\<close> being the nil pointer.
\<close>

subsection \<open>The world\<close>

record ('s, 'x) world =
  w_store :: 's
  w_app :: 'x
  w_rand :: rand_stream
  w_elapsed :: "nat \<Rightarrow> f64"
  w_metrics :: metric_log
  w_range :: range_order
  w_cvt :: "f64 \<Rightarrow> int"

definition on_store :: "('a, 's) op \<Rightarrow> ('a, ('s, 'x) world) op" where
  "on_store f w = (let (r, s) = f (w_store w) in (r, w\<lparr>w_store := s\<rparr>))"

definition on_app :: "('a, 'x) op \<Rightarrow> ('a, ('s, 'x) world) op" where
  "on_app f w = (let (r, x) = f (w_app w) in (r, w\<lparr>w_app := x\<rparr>))"

definition metered :: "(metric_log \<Rightarrow> metric_log) \<Rightarrow> ('s, 'x) world \<Rightarrow> ('s, 'x) world" where
  "metered f w = w\<lparr>w_metrics := f (w_metrics w)\<rparr>"

definition time_Since :: "(f64, ('s, 'x) world) op" where
  "time_Since w = (w_elapsed w 0, w\<lparr>w_elapsed := (\<lambda>i. w_elapsed w (Suc i))\<rparr>)"

subsection \<open>The cache\<close>

text \<open>What the generic code asks of its type \<open>T\<close>: its name, is it a pointer, and does it implement
  \<open>UniqueKeyed\<close> (\<open>alias.go\<close>), with which \<open>CacheUniqueKey\<close>.\<close>

record 'v gotype =
  t_String :: string
  t_pointer :: bool
  t_CacheUniqueKey :: "('v \<Rightarrow> string) option"

record 'v Codec =
  cd_Marshal :: "'v option \<Rightarrow> error + bytes"
  cd_Unmarshal :: "bytes \<Rightarrow> error + 'v"

record 'v Options =
  o_Prefix :: string
  o_TTL :: int
  o_AllowInfinite :: bool
  o_NegativeTTL :: int
  o_Codec :: "'v Codec"
  o_DisableSingleflight :: bool

text \<open>
  The \<open>any\<close> that a deduplicated call returns.  \<open>GetByKey\<close> and \<open>GetByAlias\<close> each declare a local
  type \<open>loadResult\<close>; Go keeps the two types apart.
\<close>

datatype 'v any = NilAny | KeyLoad 'v bool | AliasLoad 'v bool

text \<open>\<open>singleflight.Group\<close> is a third-party type: a parameter, its method \<open>Do\<close>.\<close>

type_synonym ('v, 's, 'x) flight_group =
  "string \<Rightarrow> ('v any \<times> error option, ('s, 'x) world) op \<Rightarrow> ('v any \<times> error option, ('s, 'x) world) op"

text \<open>
  The fields \<open>aliasOps\<close> and \<open>isAliasGroup\<close>, which \<open>RegisterAliasGroup\<close> sets together, are one
  optional field here; \<open>isAliasGroup\<close> is whether it is there.
\<close>

record ('v, 's, 'x) Cache =
  c_type :: "'v gotype"
  c_store :: "'s cache_store"
  c_batch :: "'s get_many option"
  c_prefixStore :: "'s delete_by_prefix option"
  c_prefixAlias :: "'s delete_by_prefix option"
  c_opts :: "'v Options"
  c_codec :: "'v Codec"
  c_group :: "('v, 's, 'x) flight_group option"
  c_jitterFraction :: f64
  c_metrics :: "cacheMetrics option"
  c_aliasOps :: "'s alias_ops option"

definition c_isAliasGroup :: "('v, 's, 'x) Cache \<Rightarrow> bool" where
  "c_isAliasGroup c = (c_aliasOps c \<noteq> None)"

type_synonym ('v, 'x) loader = "('v option \<times> error option, 'x) op"

text \<open>The marker: \<open>"\x00smartcache\x00negative\x00"\<close>.\<close>

definition negativeMarker :: bytes where
  "negativeMarker = CHR 0x00 # ''smartcache'' @ CHR 0x00 # ''negative'' @ [CHR 0x00]"

definition fullKey :: "('v, 's, 'x) Cache \<Rightarrow> string \<Rightarrow> string" where
  "fullKey c key = NonAliasKey (o_Prefix (c_opts c)) key"

definition getValue :: "('v, 's, 'x) Cache \<Rightarrow> string \<Rightarrow> (error + bytes, ('s, 'x) world) op" where
  "getValue c key =
     (case c_aliasOps c of
        Some ao \<Rightarrow> on_store (ao_GetValue ao key)
      | None \<Rightarrow> on_store (cs_Get (c_store c) (fullKey c key)))"

definition setValue ::
  "('v, 's, 'x) Cache \<Rightarrow> string \<Rightarrow> bytes \<Rightarrow> int \<Rightarrow> (error option, ('s, 'x) world) op" where
  "setValue c key b ttl =
     (case c_aliasOps c of
        Some ao \<Rightarrow> on_store (ao_PutValue ao key b ttl)
      | None \<Rightarrow> on_store (cs_Set (c_store c) (fullKey c key) b ttl))"

definition deleteValue :: "('v, 's, 'x) Cache \<Rightarrow> string \<Rightarrow> (error option, ('s, 'x) world) op" where
  "deleteValue c key =
     (case c_aliasOps c of
        Some ao \<Rightarrow> on_store (ao_EvictByPrimary ao key)
      | None \<Rightarrow> on_store (cs_Delete (c_store c) (fullKey c key)))"

definition jittered :: "int \<Rightarrow> f64 \<Rightarrow> (int, ('s, 'x) world) op" where
  "jittered base fraction w =
     (let (ttl, rs) = applyJitter (w_cvt w) base fraction (w_rand w) in (ttl, w\<lparr>w_rand := rs\<rparr>))"

definition positiveTTL :: "('v, 's, 'x) Cache \<Rightarrow> (int, ('s, 'x) world) op" where
  "positiveTTL c w =
     (if o_AllowInfinite (c_opts c) then (o_TTL (c_opts c), w)
      else jittered (o_TTL (c_opts c)) (c_jitterFraction c) w)"

definition negativeTTL :: "('v, 's, 'x) Cache \<Rightarrow> (int, ('s, 'x) world) op" where
  "negativeTTL c w = jittered (o_NegativeTTL (c_opts c)) (c_jitterFraction c) w"

text \<open>\<open>c.metrics.recordOutcome(ctx, o)\<close> and the other metric calls.\<close>

definition outcome :: "('v, 's, 'x) Cache \<Rightarrow> Outcome \<Rightarrow> ('s, 'x) world \<Rightarrow> ('s, 'x) world" where
  "outcome c out = metered (recordOutcome (c_metrics c) out)"

definition load_error :: "('v, 's, 'x) Cache \<Rightarrow> ('s, 'x) world \<Rightarrow> ('s, 'x) world" where
  "load_error c = metered (recordLoadError (c_metrics c))"

definition evicted :: "('v, 's, 'x) Cache \<Rightarrow> int \<Rightarrow> ('s, 'x) world \<Rightarrow> ('s, 'x) world" where
  "evicted c n = metered (recordEvict (c_metrics c) n)"

text \<open>Running a loader under the stopwatch: \<open>time.Now\<close>, the call, \<open>recordLoadLatencySeconds\<close>.\<close>

definition timed_load :: "('v, 's, 'x) Cache \<Rightarrow> ('a, 'x) op \<Rightarrow> ('a, ('s, 'x) world) op" where
  "timed_load c load w =
     (let (r, w1) = on_app load w;
          (seconds, w2) = time_Since w1
      in (r, metered (recordLoadLatencySeconds (c_metrics c) seconds) w2))"

definition flight_Do ::
  "('v, 's, 'x) Cache \<Rightarrow> string \<Rightarrow> ('v any \<times> error option, ('s, 'x) world) op \<Rightarrow>
     ('v any \<times> error option, ('s, 'x) world) op" where
  "flight_Do c key f = (case c_group c of None \<Rightarrow> f | Some Do \<Rightarrow> Do key f)"

type_synonym 'v result = "'v option \<times> Outcome \<times> error option"

subsection \<open>\<open>GetByKey\<close>\<close>

definition GetByKey_doLoad ::
  "('v, 's, 'x) Cache \<Rightarrow> string \<Rightarrow> ('v, 'x) loader \<Rightarrow> ('v any \<times> error option, ('s, 'x) world) op" where
  "GetByKey_doLoad c key loader w =
     (let ((val, lerr), w1) = timed_load c loader w in
      if errors_Is lerr ErrNotFound then
        if o_NegativeTTL (c_opts c) > 0 then
          (let (ttl, w2) = negativeTTL c w1;
               (sErr, w3) = setValue c key negativeMarker ttl w2
           in if sErr \<noteq> None then ((NilAny, Some ErrNotFound), w3)
              else ((NilAny, Some ErrNotFound), w3))
        else ((NilAny, Some ErrNotFound), w1)
      else
        case (lerr, val) of
          (Some err, _) \<Rightarrow> ((NilAny, Some err), load_error c w1)
        | (None, None) \<Rightarrow> ((NilAny, Some ErrNotFound), w1)
        | (None, Some v) \<Rightarrow>
            (case cd_Marshal (c_codec c) (Some v) of
               Inl mErr \<Rightarrow> ((KeyLoad v False, None), w1)
             | Inr b \<Rightarrow>
                 (let (ttl, w2) = positiveTTL c w1;
                      (sErr, w3) = setValue c key b ttl w2
                  in if sErr \<noteq> None then ((KeyLoad v False, None), w3)
                     else ((KeyLoad v True, None), w3))))"

text \<open>After the deduplicated call; a result of the wrong type is a nil \<open>*loadResult\<close>.\<close>

definition GetByKey_finish ::
  "('v, 's, 'x) Cache \<Rightarrow> 'v any \<times> error option \<Rightarrow> ('s, 'x) world \<Rightarrow> 'v result go \<times> ('s, 'x) world" where
  "GetByKey_finish c rl w =
     (case rl of (res, lerr) \<Rightarrow>
        if errors_Is lerr ErrNotFound then (Ret (None, Loaded, Some ErrNotFound), outcome c Loaded w)
        else
          case lerr of
            Some err \<Rightarrow> (Ret (None, Loaded, Some err), w)
          | None \<Rightarrow>
              (case res of
                 KeyLoad v populated \<Rightarrow>
                   if populated then (Ret (Some v, Loaded, None), outcome c Loaded w)
                   else (Ret (Some v, LoadedNotCached, None), outcome c LoadedNotCached w)
               | _ \<Rightarrow> (Panic ''nil pointer dereference'', w)))"

definition GetByKey_miss ::
  "('v, 's, 'x) Cache \<Rightarrow> string \<Rightarrow> ('v, 'x) loader \<Rightarrow> ('v result go, ('s, 'x) world) op" where
  "GetByKey_miss c key loader w =
     (let (rl, w1) = flight_Do c key (GetByKey_doLoad c key loader) w in GetByKey_finish c rl w1)"

definition GetByKey ::
  "('v, 's, 'x) Cache \<Rightarrow> string \<Rightarrow> ('v, 'x) loader \<Rightarrow> ('v result go, ('s, 'x) world) op" where
  "GetByKey c key loader w =
     (let (got, w1) = getValue c key w in
      case got of
        Inr raw \<Rightarrow>
          if raw = negativeMarker
          then (Ret (None, NegativeHit, Some ErrNotFound), outcome c NegativeHit w1)
          else
            (case cd_Unmarshal (c_codec c) raw of
               Inr v \<Rightarrow> (Ret (Some v, Hit, None), outcome c Hit w1)
             | Inl uErr \<Rightarrow> GetByKey_miss c key loader w1)
      | Inl getErr \<Rightarrow> GetByKey_miss c key loader w1)"

subsection \<open>Writes and evictions by key\<close>

definition PutByKey ::
  "('v, 's, 'x) Cache \<Rightarrow> string \<Rightarrow> ('v, 'x) loader \<Rightarrow> ('v result, ('s, 'x) world) op" where
  "PutByKey c key writer w =
     (let ((val, err), w1) = on_app writer w in
      case (err, val) of
        (Some e, _) \<Rightarrow> ((None, Written, Some e), w1)
      | (None, None) \<Rightarrow> ((None, Written, Some ErrNilWrite), w1)
      | (None, Some v) \<Rightarrow>
          (case cd_Marshal (c_codec c) (Some v) of
             Inl mErr \<Rightarrow> ((Some v, WrittenNotCached, None), outcome c WrittenNotCached w1)
           | Inr b \<Rightarrow>
               (let (ttl, w2) = positiveTTL c w1;
                    (sErr, w3) = setValue c key b ttl w2
                in if sErr \<noteq> None
                   then ((Some v, WrittenNotCached, None), outcome c WrittenNotCached w3)
                   else ((Some v, Written, None), outcome c Written w3))))"

definition PutValueByKey ::
  "('v, 's, 'x) Cache \<Rightarrow> string \<Rightarrow> 'v option \<Rightarrow> (error option, ('s, 'x) world) op" where
  "PutValueByKey c key val w =
     (case cd_Marshal (c_codec c) val of
        Inl err \<Rightarrow> (Some err, w)
      | Inr b \<Rightarrow> (let (ttl, w1) = positiveTTL c w in setValue c key b ttl w1))"

definition EvictByKey :: "('v, 's, 'x) Cache \<Rightarrow> string \<Rightarrow> (error option, ('s, 'x) world) op" where
  "EvictByKey c key w = deleteValue c key (evicted c 1 w)"

fun evict_many_loop ::
  "('v, 's, 'x) Cache \<Rightarrow> string list \<Rightarrow> error list \<Rightarrow> (error list, ('s, 'x) world) op" where
  "evict_many_loop c [] errs w = (errs, w)"
| "evict_many_loop c (key # keys) errs w =
     (let (err, w1) = deleteValue c key w
      in evict_many_loop c keys (case err of None \<Rightarrow> errs | Some e \<Rightarrow> errs @ [e]) w1)"

definition EvictManyByKey ::
  "('v, 's, 'x) Cache \<Rightarrow> string list \<Rightarrow> (error option, ('s, 'x) world) op" where
  "EvictManyByKey c keys w =
     (let (errs, w1) = evict_many_loop c keys [] (evicted c (int (length keys)) w)
      in (errors_Join errs, w1))"

definition evictPrefix ::
  "('v, 's, 'x) Cache \<Rightarrow> string \<Rightarrow> (int \<times> error option, ('s, 'x) world) op" where
  "evictPrefix c keyPrefix w =
     (if c_isAliasGroup c then
        case c_prefixAlias c of
          None \<Rightarrow> ((0, Some ErrPrefixEvictNotSupported), w)
        | Some evict \<Rightarrow> on_store (evict keyPrefix) w
      else
        case c_prefixStore c of
          None \<Rightarrow> ((0, Some ErrPrefixEvictNotSupported), w)
        | Some del \<Rightarrow> on_store (del (NonAliasKeyPrefix (o_Prefix (c_opts c)) keyPrefix)) w)"

definition EvictByKeyPrefix ::
  "('v, 's, 'x) Cache \<Rightarrow> string \<Rightarrow> (int \<times> error option, ('s, 'x) world) op" where
  "EvictByKeyPrefix c keyPrefix w =
     (if keyPrefix = '''' then ((0, Some ErrEmptyKeyPrefix), w)
      else if strings_Contains keyPrefix ''*'' then ((0, Some ErrWildcardKeyPrefix), w)
      else
        let ((n, err), w1) = evictPrefix c keyPrefix w
        in ((n, err), if n > 0 then evicted c n w1 else w1))"

subsection \<open>\<open>GetManyByKey\<close>\<close>

fun dedup_loop :: "string list \<Rightarrow> string set \<Rightarrow> string list \<Rightarrow> string list" where
  "dedup_loop [] seen out = out"
| "dedup_loop (k # ks) seen out =
     (if k \<in> seen then dedup_loop ks seen out else dedup_loop ks (insert k seen) (out @ [k]))"

definition dedupKeys :: "string list \<Rightarrow> string list" where
  "dedupKeys keys = dedup_loop keys {} []"

text \<open>The map from full keys back to logical keys that \<open>readManyRaw\<close> builds.\<close>

fun full_keys :: "('v, 's, 'x) Cache \<Rightarrow> string list \<Rightarrow> string list \<Rightarrow> string gomap \<Rightarrow> string list \<times> string gomap" where
  "full_keys c [] full fullToLogical = (full, fullToLogical)"
| "full_keys c (k # ks) full fullToLogical =
     full_keys c ks (full @ [fullKey c k]) (fmupd (fullKey c k) k fullToLogical)"

definition string_or_zero :: "string gomap \<Rightarrow> string \<Rightarrow> string" where
  "string_or_zero m k = (case fmlookup m k of None \<Rightarrow> '''' | Some v \<Rightarrow> v)"

fun logical_loop :: "string gomap \<Rightarrow> bytes gomap \<Rightarrow> string list \<Rightarrow> bytes gomap \<Rightarrow> bytes gomap" where
  "logical_loop fullToLogical got [] out = out"
| "logical_loop fullToLogical got (fk # fks) out =
     logical_loop fullToLogical got fks
       (case fmlookup got fk of
          None \<Rightarrow> out
        | Some b \<Rightarrow> fmupd (string_or_zero fullToLogical fk) b out)"

fun read_each_loop ::
  "('v, 's, 'x) Cache \<Rightarrow> string list \<Rightarrow> bytes gomap \<Rightarrow> (bytes gomap, ('s, 'x) world) op" where
  "read_each_loop c [] out w = (out, w)"
| "read_each_loop c (k # ks) out w =
     (let (got, w1) = getValue c k w
      in case got of
           Inr b \<Rightarrow> read_each_loop c ks (fmupd k b out) w1
         | Inl gErr \<Rightarrow> read_each_loop c ks out w1)"

definition readManyRaw ::
  "('v, 's, 'x) Cache \<Rightarrow> string list \<Rightarrow> (bytes gomap, ('s, 'x) world) op" where
  "readManyRaw c keys w =
     (case (c_isAliasGroup c, c_batch c) of
        (False, Some GetMany) \<Rightarrow>
          (let (full, fullToLogical) = full_keys c keys [] fmempty;
               (got, w1) = on_store (GetMany full) w
           in case got of
                Inl bErr \<Rightarrow> (fmempty, w1)
              | Inr got \<Rightarrow>
                  (logical_loop fullToLogical got (w_range w1 (fmdom got)) fmempty, w1))
      | _ \<Rightarrow> read_each_loop c keys fmempty w)"

fun split_loop ::
  "('v, 's, 'x) Cache \<Rightarrow> bytes gomap \<Rightarrow> string list \<Rightarrow> 'v gomap \<Rightarrow> string list \<Rightarrow>
     ('v gomap \<times> string list, ('s, 'x) world) op" where
  "split_loop c raw [] result missing w = ((result, missing), w)"
| "split_loop c raw (k # ks) result missing w =
     (case fmlookup raw k of
        None \<Rightarrow> split_loop c raw ks result (missing @ [k]) w
      | Some b \<Rightarrow>
          if b = negativeMarker then split_loop c raw ks result missing (outcome c NegativeHit w)
          else
            case cd_Unmarshal (c_codec c) b of
              Inl uErr \<Rightarrow> split_loop c raw ks result (missing @ [k]) w
            | Inr v \<Rightarrow> split_loop c raw ks (fmupd k v result) missing (outcome c Hit w))"

definition splitHitsAndMisses ::
  "('v, 's, 'x) Cache \<Rightarrow> string list \<Rightarrow> bytes gomap \<Rightarrow> ('v gomap \<times> string list, ('s, 'x) world) op" where
  "splitHitsAndMisses c keys raw w = split_loop c raw keys fmempty [] w"

fun populateLoaded ::
  "('v, 's, 'x) Cache \<Rightarrow> string list \<Rightarrow> 'v option gomap \<Rightarrow> 'v gomap \<Rightarrow> ('v gomap, ('s, 'x) world) op" where
  "populateLoaded c [] loaded result w = (result, w)"
| "populateLoaded c (origKey # missing) loaded result w =
     (case fmlookup loaded origKey of
        Some (Some v) \<Rightarrow>
          (let result1 = fmupd origKey v result in
           case cd_Marshal (c_codec c) (Some v) of
             Inl mErr \<Rightarrow> populateLoaded c missing loaded result1 (outcome c LoadedNotCached w)
           | Inr b \<Rightarrow>
               (let (ttl, w1) = positiveTTL c w;
                    (sErr, w2) = setValue c origKey b ttl w1
                in populateLoaded c missing loaded result1
                     (outcome c (if sErr \<noteq> None then LoadedNotCached else Loaded) w2)))
      | _ \<Rightarrow>
          if o_NegativeTTL (c_opts c) > 0 then
            (let (ttl, w1) = negativeTTL c w;
                 (sErr, w2) = setValue c origKey negativeMarker ttl w1
             in populateLoaded c missing loaded result
                  (outcome c (if sErr \<noteq> None then LoadedNotCached else Loaded) w2))
          else populateLoaded c missing loaded result (outcome c Loaded w))"

definition GetManyByKey ::
  "('v, 's, 'x) Cache \<Rightarrow> string list \<Rightarrow>
     (string list \<Rightarrow> ('v option gomap \<times> error option, 'x) op) \<Rightarrow>
     ('v gomap option \<times> error option, ('s, 'x) world) op" where
  "GetManyByKey c keys loadMissing w =
     (if keys = [] then ((Some fmempty, None), w)
      else
        let uniq = dedupKeys keys;
            (raw, w1) = readManyRaw c uniq w;
            ((result, missing), w2) = splitHitsAndMisses c uniq raw w1
        in if missing = [] then ((Some result, None), w2)
           else
             let ((loaded, lErr), w3) = timed_load c (loadMissing missing) w2
             in case lErr of
                  Some err \<Rightarrow> ((None, Some (WrapErr ''smartcache: GetMany load'' err)), load_error c w3)
                | None \<Rightarrow>
                    (let (result1, w4) = populateLoaded c missing loaded result w3
                     in ((Some result1, None), w4)))"

subsection \<open>Value-derived operations\<close>

definition uniqueKeyOf :: "('v, 's, 'x) Cache \<Rightarrow> 'v option \<Rightarrow> error + string" where
  "uniqueKeyOf c val =
     (case val of
        None \<Rightarrow> Inl ErrNilWrite
      | Some v \<Rightarrow>
          (case t_CacheUniqueKey (c_type c) of
             None \<Rightarrow> Inl ErrNotUniqueKeyed
           | Some CacheUniqueKey \<Rightarrow>
               let key = CacheUniqueKey v in if key = '''' then Inl ErrNotUniqueKeyed else Inr key))"

definition Put :: "('v, 's, 'x) Cache \<Rightarrow> ('v, 'x) loader \<Rightarrow> ('v result, ('s, 'x) world) op" where
  "Put c writer w =
     (let ((val, err), w1) = on_app writer w in
      case (err, val) of
        (Some e, _) \<Rightarrow> ((None, Written, Some e), w1)
      | (None, None) \<Rightarrow> ((None, Written, Some ErrNilWrite), w1)
      | (None, Some v) \<Rightarrow>
          (case uniqueKeyOf c (Some v) of
             Inl kErr \<Rightarrow> ((Some v, WrittenNotCached, Some kErr), outcome c WrittenNotCached w1)
           | Inr key \<Rightarrow> PutByKey c key (\<lambda>x. ((Some v, None), x)) w1))"

definition PutValue :: "('v, 's, 'x) Cache \<Rightarrow> 'v option \<Rightarrow> (error option, ('s, 'x) world) op" where
  "PutValue c val w =
     (case uniqueKeyOf c val of Inl err \<Rightarrow> (Some err, w) | Inr key \<Rightarrow> PutValueByKey c key val w)"

definition Evict :: "('v, 's, 'x) Cache \<Rightarrow> 'v option \<Rightarrow> (error option, ('s, 'x) world) op" where
  "Evict c val w =
     (case uniqueKeyOf c val of Inl err \<Rightarrow> (Some err, w) | Inr key \<Rightarrow> EvictByKey c key w)"

subsection \<open>Alias operations\<close>

definition GetByAlias_doLoad ::
  "('v, 's, 'x) Cache \<Rightarrow> 's alias_ops \<Rightarrow> AliasRef \<Rightarrow> ('v, 'x) loader \<Rightarrow>
     ('v any \<times> error option, ('s, 'x) world) op" where
  "GetByAlias_doLoad c ao alias loader w =
     (let ((val, lerr), w1) = timed_load c loader w in
      if errors_Is lerr ErrNotFound then ((NilAny, Some ErrNotFound), w1)
      else
        case (lerr, val) of
          (Some err, _) \<Rightarrow> ((NilAny, Some err), load_error c w1)
        | (None, None) \<Rightarrow> ((NilAny, Some ErrNotFound), w1)
        | (None, Some v) \<Rightarrow>
            (case t_CacheUniqueKey (c_type c) of
               None \<Rightarrow> ((AliasLoad v False, None), w1)
             | Some CacheUniqueKey \<Rightarrow>
                 let primary = CacheUniqueKey v
                 in if primary = '''' then ((AliasLoad v False, None), w1)
                    else
                      case cd_Marshal (c_codec c) (Some v) of
                        Inl mErr \<Rightarrow> ((AliasLoad v False, None), w1)
                      | Inr b \<Rightarrow>
                          (let (ttl, w2) = positiveTTL c w1;
                               (sErr, w3) = on_store (ao_PutByAlias ao primary alias b ttl) w2
                           in if sErr \<noteq> None then ((AliasLoad v False, None), w3)
                              else ((AliasLoad v True, None), w3))))"

definition GetByAlias_finish ::
  "('v, 's, 'x) Cache \<Rightarrow> 'v any \<times> error option \<Rightarrow> ('s, 'x) world \<Rightarrow> 'v result go \<times> ('s, 'x) world" where
  "GetByAlias_finish c rl w =
     (case rl of (res, lerr) \<Rightarrow>
        if errors_Is lerr ErrNotFound then (Ret (None, Loaded, Some ErrNotFound), outcome c Loaded w)
        else
          case lerr of
            Some err \<Rightarrow> (Ret (None, Loaded, Some err), w)
          | None \<Rightarrow>
              (case res of
                 AliasLoad v populated \<Rightarrow>
                   if populated then (Ret (Some v, Loaded, None), outcome c Loaded w)
                   else (Ret (Some v, LoadedNotCached, None), outcome c LoadedNotCached w)
               | _ \<Rightarrow> (Panic ''nil pointer dereference'', w)))"

definition alias_flight_key :: "AliasRef \<Rightarrow> string" where
  "alias_flight_key alias = ''alias:'' @ Field alias @ '':'' @ Value alias"

definition GetByAlias_miss ::
  "('v, 's, 'x) Cache \<Rightarrow> 's alias_ops \<Rightarrow> AliasRef \<Rightarrow> ('v, 'x) loader \<Rightarrow>
     ('v result go, ('s, 'x) world) op" where
  "GetByAlias_miss c ao alias loader w =
     (let (rl, w1) = flight_Do c (alias_flight_key alias) (GetByAlias_doLoad c ao alias loader) w
      in GetByAlias_finish c rl w1)"

definition GetByAlias ::
  "('v, 's, 'x) Cache \<Rightarrow> AliasRef \<Rightarrow> ('v, 'x) loader \<Rightarrow> ('v result go, ('s, 'x) world) op" where
  "GetByAlias c alias loader w =
     (case c_aliasOps c of
        None \<Rightarrow> (Ret (None, Hit, Some ErrNotAliasGroup), w)
      | Some ao \<Rightarrow>
          (let (got, w1) = on_store (ao_GetByAlias ao alias) w in
           case got of
             Inr raw \<Rightarrow>
               if raw = negativeMarker
               then (Ret (None, NegativeHit, Some ErrNotFound), outcome c NegativeHit w1)
               else
                 (case cd_Unmarshal (c_codec c) raw of
                    Inr v \<Rightarrow> (Ret (Some v, Hit, None), outcome c Hit w1)
                  | Inl uErr \<Rightarrow> GetByAlias_miss c ao alias loader w1)
           | Inl getErr \<Rightarrow> GetByAlias_miss c ao alias loader w1))"

definition PutAliased ::
  "('v, 's, 'x) Cache \<Rightarrow> string \<Rightarrow> AliasRef \<Rightarrow> ('v, 'x) loader \<Rightarrow> ('v result, ('s, 'x) world) op" where
  "PutAliased c primaryKey alias writer w =
     (case c_aliasOps c of
        None \<Rightarrow> ((None, Written, Some ErrNotAliasGroup), w)
      | Some ao \<Rightarrow>
          (let ((val, err), w1) = on_app writer w in
           case (err, val) of
             (Some e, _) \<Rightarrow> ((None, Written, Some e), w1)
           | (None, None) \<Rightarrow> ((None, Written, Some ErrNilWrite), w1)
           | (None, Some v) \<Rightarrow>
               (case cd_Marshal (c_codec c) (Some v) of
                  Inl mErr \<Rightarrow> ((Some v, WrittenNotCached, None), outcome c WrittenNotCached w1)
                | Inr b \<Rightarrow>
                    (let (ttl, w2) = positiveTTL c w1;
                         (sErr, w3) = on_store (ao_PutByAlias ao primaryKey alias b ttl) w2
                     in if sErr \<noteq> None
                        then ((Some v, WrittenNotCached, None), outcome c WrittenNotCached w3)
                        else ((Some v, Written, None), outcome c Written w3)))))"

definition PutAliasedValue ::
  "('v, 's, 'x) Cache \<Rightarrow> string \<Rightarrow> AliasRef \<Rightarrow> 'v option \<Rightarrow> (error option, ('s, 'x) world) op" where
  "PutAliasedValue c primaryKey alias val w =
     (case c_aliasOps c of
        None \<Rightarrow> (Some ErrNotAliasGroup, w)
      | Some ao \<Rightarrow>
          (case val of
             None \<Rightarrow> (Some ErrNilWrite, w)
           | Some v \<Rightarrow>
               (case cd_Marshal (c_codec c) (Some v) of
                  Inl err \<Rightarrow> (Some err, w)
                | Inr b \<Rightarrow>
                    (let (ttl, w1) = positiveTTL c w
                     in on_store (ao_PutByAlias ao primaryKey alias b ttl) w1))))"

definition EvictByAlias :: "('v, 's, 'x) Cache \<Rightarrow> AliasRef \<Rightarrow> (error option, ('s, 'x) world) op" where
  "EvictByAlias c alias w =
     (case c_aliasOps c of
        None \<Rightarrow> (Some ErrNotAliasGroup, w)
      | Some ao \<Rightarrow> on_store (ao_EvictByAlias ao alias) (evicted c 1 w))"

end
