(* ===== verification/Cache_Laws.thy ===== *)
theory Cache_Laws
  imports Cache
begin

text \<open>
  What the operations of \<open>Cache\<close> do on any backend, whatever it answers and however it fails:
  which answer the caller gets, how often the loader runs, what is metered, and what is
  written.  Later theories add what a backend promises.
\<close>

subsection \<open>Frame rules of the small steps\<close>

lemma on_store_simps [simp]:
  "fst (on_store f w) = fst (f (w_store w))"
  "w_store (snd (on_store f w)) = snd (f (w_store w))"
  "w_app (snd (on_store f w)) = w_app w"
  "w_rand (snd (on_store f w)) = w_rand w"
  "w_metrics (snd (on_store f w)) = w_metrics w"
  "w_range (snd (on_store f w)) = w_range w"
  "w_cvt (snd (on_store f w)) = w_cvt w"
  by (simp_all add: on_store_def case_prod_unfold Let_def)

lemma on_app_simps [simp]:
  "fst (on_app f w) = fst (f (w_app w))"
  "w_store (snd (on_app f w)) = w_store w"
  "w_app (snd (on_app f w)) = snd (f (w_app w))"
  "w_rand (snd (on_app f w)) = w_rand w"
  "w_metrics (snd (on_app f w)) = w_metrics w"
  "w_range (snd (on_app f w)) = w_range w"
  "w_cvt (snd (on_app f w)) = w_cvt w"
  by (simp_all add: on_app_def case_prod_unfold Let_def)

lemma metered_simps [simp]:
  "w_store (metered f w) = w_store w" "w_app (metered f w) = w_app w"
  "w_rand (metered f w) = w_rand w" "w_metrics (metered f w) = f (w_metrics w)"
  "w_range (metered f w) = w_range w" "w_cvt (metered f w) = w_cvt w"
  by (simp_all add: metered_def)

lemma metric_calls [simp]:
  "w_store (outcome c out w) = w_store w" "w_app (outcome c out w) = w_app w"
  "w_rand (outcome c out w) = w_rand w" "w_range (outcome c out w) = w_range w"
  "w_cvt (outcome c out w) = w_cvt w"
  "w_metrics (outcome c out w) = w_metrics w @ outcome_events (c_metrics c) out"
  "w_store (load_error c w) = w_store w" "w_app (load_error c w) = w_app w"
  "w_rand (load_error c w) = w_rand w" "w_range (load_error c w) = w_range w"
  "w_cvt (load_error c w) = w_cvt w"
  "w_store (evicted c n w) = w_store w" "w_app (evicted c n w) = w_app w"
  "w_rand (evicted c n w) = w_rand w" "w_range (evicted c n w) = w_range w"
  "w_cvt (evicted c n w) = w_cvt w"
  by (simp_all add: outcome_def load_error_def evicted_def recordOutcome_append)

lemma jittered_simps [simp]:
  "fst (jittered base f w) = fst (applyJitter (w_cvt w) base f (w_rand w))"
  "w_rand (snd (jittered base f w)) = snd (applyJitter (w_cvt w) base f (w_rand w))"
  "w_store (snd (jittered base f w)) = w_store w" "w_app (snd (jittered base f w)) = w_app w"
  "w_metrics (snd (jittered base f w)) = w_metrics w"
  "w_range (snd (jittered base f w)) = w_range w" "w_cvt (snd (jittered base f w)) = w_cvt w"
  by (simp_all add: jittered_def case_prod_unfold Let_def)

lemma ttl_simps [simp]:
  "w_store (snd (positiveTTL c w)) = w_store w" "w_app (snd (positiveTTL c w)) = w_app w"
  "w_metrics (snd (positiveTTL c w)) = w_metrics w"
  "w_range (snd (positiveTTL c w)) = w_range w" "w_cvt (snd (positiveTTL c w)) = w_cvt w"
  "w_store (snd (negativeTTL c w)) = w_store w" "w_app (snd (negativeTTL c w)) = w_app w"
  "w_metrics (snd (negativeTTL c w)) = w_metrics w"
  "w_range (snd (negativeTTL c w)) = w_range w" "w_cvt (snd (negativeTTL c w)) = w_cvt w"
  by (simp_all add: positiveTTL_def negativeTTL_def)

lemma timed_load_simps [simp]:
  "fst (timed_load c load w) = fst (load (w_app w))"
  "w_store (snd (timed_load c load w)) = w_store w"
  "w_app (snd (timed_load c load w)) = snd (load (w_app w))"
  "w_rand (snd (timed_load c load w)) = w_rand w"
  "w_range (snd (timed_load c load w)) = w_range w"
  "w_cvt (snd (timed_load c load w)) = w_cvt w"
  by (simp_all add: timed_load_def time_Since_def case_prod_unfold Let_def)

lemma value_frame [simp]:
  "w_app (snd (getValue c k w)) = w_app w" "w_app (snd (setValue c k b ttl w)) = w_app w"
  "w_app (snd (deleteValue c k w)) = w_app w"
  "w_rand (snd (getValue c k w)) = w_rand w" "w_rand (snd (setValue c k b ttl w)) = w_rand w"
  "w_rand (snd (deleteValue c k w)) = w_rand w"
  "w_metrics (snd (getValue c k w)) = w_metrics w"
  "w_metrics (snd (setValue c k b ttl w)) = w_metrics w"
  "w_metrics (snd (deleteValue c k w)) = w_metrics w"
  "w_range (snd (getValue c k w)) = w_range w" "w_range (snd (setValue c k b ttl w)) = w_range w"
  "w_range (snd (deleteValue c k w)) = w_range w"
  "w_cvt (snd (getValue c k w)) = w_cvt w" "w_cvt (snd (setValue c k b ttl w)) = w_cvt w"
  "w_cvt (snd (deleteValue c k w)) = w_cvt w"
  by (simp_all add: getValue_def setValue_def deleteValue_def split: option.splits)

subsection \<open>The two ways of filling the cache\<close>

text \<open>Marshal a value and store it under the positive TTL: did it get into the store?\<close>

definition store_value :: "('v, 's, 'x) Cache \<Rightarrow> string \<Rightarrow> 'v \<Rightarrow> (bool, ('s, 'x) world) op" where
  "store_value c key v w =
     (case cd_Marshal (c_codec c) (Some v) of
        Inl e \<Rightarrow> (False, w)
      | Inr b \<Rightarrow>
          (let (ttl, w1) = positiveTTL c w; (sErr, w2) = setValue c key b ttl w1
           in (sErr = None, w2)))"

text \<open>Store the negative marker, where negative caching is on.\<close>

definition store_negative :: "('v, 's, 'x) Cache \<Rightarrow> string \<Rightarrow> (bool, ('s, 'x) world) op" where
  "store_negative c key w =
     (if o_NegativeTTL (c_opts c) > 0 then
        (let (ttl, w1) = negativeTTL c w; (sErr, w2) = setValue c key negativeMarker ttl w1
         in (sErr = None, w2))
      else (True, w))"

lemma store_frame [simp]:
  "w_app (snd (store_value c k v w)) = w_app w" "w_app (snd (store_negative c k w)) = w_app w"
  "w_metrics (snd (store_value c k v w)) = w_metrics w"
  "w_metrics (snd (store_negative c k w)) = w_metrics w"
  "w_range (snd (store_value c k v w)) = w_range w" "w_range (snd (store_negative c k w)) = w_range w"
  "w_cvt (snd (store_value c k v w)) = w_cvt w" "w_cvt (snd (store_negative c k w)) = w_cvt w"
  by (simp_all add: store_value_def store_negative_def case_prod_unfold Let_def split: sum.splits)

subsection \<open>Flights\<close>

text \<open>No other call of the same key is in flight: \<open>Do\<close> runs the function it is given.\<close>

definition solo_flight :: "('v, 's, 'x) Cache \<Rightarrow> bool" where
  "solo_flight c \<longleftrightarrow> (\<forall>Do. c_group c = Some Do \<longrightarrow> (\<forall>k f. Do k f = f))"

lemma solo_flight_Do [simp]: "solo_flight c \<Longrightarrow> flight_Do c key f = f"
  by (simp add: solo_flight_def flight_Do_def split: option.splits)

subsection \<open>\<open>GetByKey\<close>\<close>

text \<open>The answer that the bytes of the store give, if they give one.\<close>

definition cached_answer :: "('v, 's, 'x) Cache \<Rightarrow> error + bytes \<Rightarrow> 'v result option" where
  "cached_answer c got =
     (case got of
        Inl e \<Rightarrow> None
      | Inr raw \<Rightarrow>
          if raw = negativeMarker then Some (None, NegativeHit, Some ErrNotFound)
          else (case cd_Unmarshal (c_codec c) raw of Inl e \<Rightarrow> None | Inr v \<Rightarrow> Some (Some v, Hit, None)))"

text \<open>The answer that a loader's result gives.\<close>

definition load_answer :: "'v option \<times> error option \<Rightarrow> bool \<Rightarrow> 'v result" where
  "load_answer r populated =
     (case r of (val, lerr) \<Rightarrow>
        if errors_Is lerr ErrNotFound then (None, Loaded, Some ErrNotFound)
        else
          case (lerr, val) of
            (Some e, _) \<Rightarrow> (None, Loaded, Some e)
          | (None, None) \<Rightarrow> (None, Loaded, Some ErrNotFound)
          | (None, Some v) \<Rightarrow> (Some v, if populated then Loaded else LoadedNotCached, None))"

text \<open>The state after a load: what the loader's result makes the cache store.\<close>

definition load_effect ::
  "('v, 's, 'x) Cache \<Rightarrow> string \<Rightarrow> 'v option \<times> error option \<Rightarrow> (bool, ('s, 'x) world) op" where
  "load_effect c key r w =
     (case r of (val, lerr) \<Rightarrow>
        if errors_Is lerr ErrNotFound then (False, snd (store_negative c key w))
        else
          case (lerr, val) of
            (Some e, _) \<Rightarrow> (False, load_error c w)
          | (None, None) \<Rightarrow> (False, w)
          | (None, Some v) \<Rightarrow> store_value c key v w)"

text \<open>What is metered once the answer is known: nothing for a failed load, else the outcome.\<close>

definition answer_metric :: "('v, 's, 'x) Cache \<Rightarrow> 'v result \<Rightarrow> ('s, 'x) world \<Rightarrow> ('s, 'x) world" where
  "answer_metric c r w =
     (case r of (v, out, err) \<Rightarrow>
        if err \<noteq> None \<and> \<not> errors_Is err ErrNotFound then w else outcome c out w)"

lemma load_effect_frame [simp]:
  "w_app (snd (load_effect c k r w)) = w_app w"
  "w_range (snd (load_effect c k r w)) = w_range w" "w_cvt (snd (load_effect c k r w)) = w_cvt w"
  by (auto simp: load_effect_def split: prod.splits option.splits)

lemma answer_metric_frame [simp]:
  "w_store (answer_metric c r w) = w_store w" "w_app (answer_metric c r w) = w_app w"
  "w_rand (answer_metric c r w) = w_rand w" "w_range (answer_metric c r w) = w_range w"
  "w_cvt (answer_metric c r w) = w_cvt w"
  by (auto simp: answer_metric_def split: prod.splits)

lemma GetByKey_miss_eq:
  assumes "solo_flight c"
  shows "GetByKey_miss c key loader w =
     (let (r, w1) = timed_load c loader w;
          (populated, w2) = load_effect c key r w1
      in (Ret (load_answer r populated), answer_metric c (load_answer r populated) w2))"
proof -
  obtain val lerr w1 where t: "timed_load c loader w = ((val, lerr), w1)"
    by (metis prod.exhaust)
  show ?thesis
    using assms
    by (cases "errors_Is lerr ErrNotFound"; cases lerr; cases val)
      (simp_all add: t GetByKey_miss_def GetByKey_doLoad_def GetByKey_finish_def load_effect_def load_answer_def
        answer_metric_def store_negative_def store_value_def case_prod_unfold Let_def split: sum.splits)
qed

lemma GetByKey_eq:
  assumes "solo_flight c"
  shows "GetByKey c key loader w =
     (let (got, w1) = getValue c key w in
      case cached_answer c got of
        Some r \<Rightarrow> (Ret r, answer_metric c r w1)
      | None \<Rightarrow>
          (let (r, w2) = timed_load c loader w1;
               (populated, w3) = load_effect c key r w2
           in (Ret (load_answer r populated), answer_metric c (load_answer r populated) w3)))"
  by (auto simp: GetByKey_def cached_answer_def answer_metric_def GetByKey_miss_eq [OF assms]
      case_prod_unfold Let_def split: sum.splits)

lemma GetByKey_from_cache:
  "cached_answer c (fst (getValue c key w)) = Some r \<Longrightarrow>
     GetByKey c key loader w = (Ret r, answer_metric c r (snd (getValue c key w)))"
  by (auto simp: GetByKey_def cached_answer_def answer_metric_def case_prod_unfold Let_def
      split: sum.splits if_splits)

lemma GetByKey_from_loader:
  assumes "solo_flight c" "cached_answer c (fst (getValue c key w)) = None"
  shows "fst (GetByKey c key loader w) =
      Ret (load_answer (fst (loader (w_app w)))
        (fst (load_effect c key (fst (loader (w_app w))) (snd (timed_load c loader (snd (getValue c key w)))))))"
    and "w_app (snd (GetByKey c key loader w)) = snd (loader (w_app w))"
    and "w_store (snd (GetByKey c key loader w)) =
      w_store (snd (load_effect c key (fst (loader (w_app w))) (snd (timed_load c loader (snd (getValue c key w))))))"
  using assms(2) by (simp_all add: GetByKey_eq [OF assms(1)] case_prod_unfold Let_def)

lemma load_answer_simps [simp]:
  "load_answer (Some v, None) p = (Some v, if p then Loaded else LoadedNotCached, None)"
  "load_answer (None, None) p = (None, Loaded, Some ErrNotFound)"
  "\<not> errors_is e ErrNotFound \<Longrightarrow> load_answer (x, Some e) p = (None, Loaded, Some e)"
  "errors_is e ErrNotFound \<Longrightarrow> load_answer (x, Some e) p = (None, Loaded, Some ErrNotFound)"
  by (simp_all add: load_answer_def)

lemma load_effect_simps [simp]:
  "load_effect c k (Some v, None) w = store_value c k v w"
  "load_effect c k (None, None) w = (False, w)"
  "\<not> errors_is e ErrNotFound \<Longrightarrow> load_effect c k (x, Some e) w = (False, load_error c w)"
  "errors_is e ErrNotFound \<Longrightarrow> load_effect c k (x, Some e) w = (False, snd (store_negative c k w))"
  by (simp_all add: load_effect_def)

subsection \<open>Writes\<close>

lemma PutByKey_eq:
  "PutByKey c key writer w =
     (let ((val, err), w1) = on_app writer w in
      case (err, val) of
        (Some e, _) \<Rightarrow> ((None, Written, Some e), w1)
      | (None, None) \<Rightarrow> ((None, Written, Some ErrNilWrite), w1)
      | (None, Some v) \<Rightarrow>
          (let (ok, w2) = store_value c key v w1;
               out = (if ok then Written else WrittenNotCached)
           in ((Some v, out, None), outcome c out w2)))"
  by (auto simp: PutByKey_def store_value_def case_prod_unfold Let_def split: option.splits sum.splits)

lemma PutByKey_value:
  "PutByKey c key (\<lambda>x. ((Some v, None), x)) w =
     (let (ok, w2) = store_value c key v w; out = (if ok then Written else WrittenNotCached)
      in ((Some v, out, None), outcome c out w2))"
  by (simp add: PutByKey_eq on_app_def case_prod_unfold Let_def)

lemma PutValueByKey_Some:
  "PutValueByKey c key (Some v) w =
     (case cd_Marshal (c_codec c) (Some v) of
        Inl e \<Rightarrow> (Some e, w)
      | Inr b \<Rightarrow> setValue c key b (fst (positiveTTL c w)) (snd (positiveTTL c w)))"
  by (simp add: PutValueByKey_def case_prod_unfold Let_def split: sum.splits)

subsection \<open>Alias operations\<close>

definition store_aliased ::
  "('v, 's, 'x) Cache \<Rightarrow> 's alias_ops \<Rightarrow> string \<Rightarrow> AliasRef \<Rightarrow> 'v \<Rightarrow> (bool, ('s, 'x) world) op" where
  "store_aliased c ao primary alias v w =
     (case cd_Marshal (c_codec c) (Some v) of
        Inl e \<Rightarrow> (False, w)
      | Inr b \<Rightarrow>
          (let (ttl, w1) = positiveTTL c w; (sErr, w2) = on_store (ao_PutByAlias ao primary alias b ttl) w1
           in (sErr = None, w2)))"

text \<open>The key under which a value is stored: its unique key, if it has a non-empty one.\<close>

definition unique_key :: "('v, 's, 'x) Cache \<Rightarrow> 'v \<Rightarrow> string option" where
  "unique_key c v =
     (case t_CacheUniqueKey (c_type c) of
        None \<Rightarrow> None | Some f \<Rightarrow> if f v = '''' then None else Some (f v))"

definition alias_effect ::
  "('v, 's, 'x) Cache \<Rightarrow> 's alias_ops \<Rightarrow> AliasRef \<Rightarrow> 'v option \<times> error option \<Rightarrow>
     (bool, ('s, 'x) world) op" where
  "alias_effect c ao alias r w =
     (case r of (val, lerr) \<Rightarrow>
        if errors_Is lerr ErrNotFound then (False, w)
        else
          case (lerr, val) of
            (Some e, _) \<Rightarrow> (False, load_error c w)
          | (None, None) \<Rightarrow> (False, w)
          | (None, Some v) \<Rightarrow>
              (case unique_key c v of None \<Rightarrow> (False, w) | Some pk \<Rightarrow> store_aliased c ao pk alias v w))"

lemma alias_effect_frame [simp]:
  "w_app (snd (store_aliased c ao pk a v w)) = w_app w"
  "w_app (snd (alias_effect c ao a r w)) = w_app w"
  "w_metrics (snd (store_aliased c ao pk a v w)) = w_metrics w"
  "w_range (snd (store_aliased c ao pk a v w)) = w_range w"
  "w_range (snd (alias_effect c ao a r w)) = w_range w"
  "w_cvt (snd (store_aliased c ao pk a v w)) = w_cvt w"
  "w_cvt (snd (alias_effect c ao a r w)) = w_cvt w"
  by (auto simp: alias_effect_def store_aliased_def case_prod_unfold Let_def split: option.splits sum.splits)

lemma GetByAlias_miss_eq:
  assumes "solo_flight c"
  shows "GetByAlias_miss c ao alias loader w =
     (let (r, w1) = timed_load c loader w;
          (populated, w2) = alias_effect c ao alias r w1
      in (Ret (load_answer r populated), answer_metric c (load_answer r populated) w2))"
proof -
  obtain val lerr w1 where t: "timed_load c loader w = ((val, lerr), w1)"
    by (metis prod.exhaust)
  show ?thesis
    using assms
    by (cases "errors_Is lerr ErrNotFound"; cases lerr; cases val)
      (simp_all add: t GetByAlias_miss_def GetByAlias_doLoad_def GetByAlias_finish_def alias_effect_def
        load_answer_def answer_metric_def store_aliased_def unique_key_def case_prod_unfold Let_def
        split: sum.splits option.splits)
qed

lemma GetByAlias_eq:
  assumes "solo_flight c" "c_aliasOps c = Some ao"
  shows "GetByAlias c alias loader w =
     (let (got, w1) = on_store (ao_GetByAlias ao alias) w in
      case cached_answer c got of
        Some r \<Rightarrow> (Ret r, answer_metric c r w1)
      | None \<Rightarrow>
          (let (r, w2) = timed_load c loader w1;
               (populated, w3) = alias_effect c ao alias r w2
           in (Ret (load_answer r populated), answer_metric c (load_answer r populated) w3)))"
  using assms(2)
  by (auto simp: GetByAlias_def cached_answer_def answer_metric_def GetByAlias_miss_eq [OF assms(1)]
      case_prod_unfold Let_def split: sum.splits)

lemma PutAliased_eq:
  assumes "c_aliasOps c = Some ao"
  shows "PutAliased c pk alias writer w =
     (let ((val, err), w1) = on_app writer w in
      case (err, val) of
        (Some e, _) \<Rightarrow> ((None, Written, Some e), w1)
      | (None, None) \<Rightarrow> ((None, Written, Some ErrNilWrite), w1)
      | (None, Some v) \<Rightarrow>
          (let (ok, w2) = store_aliased c ao pk alias v w1;
               out = (if ok then Written else WrittenNotCached)
           in ((Some v, out, None), outcome c out w2)))"
  using assms
  by (auto simp: PutAliased_def store_aliased_def case_prod_unfold Let_def split: option.splits sum.splits)

lemma not_alias_group:
  assumes "c_aliasOps c = None"
  shows "GetByAlias c alias loader w = (Ret (None, Hit, Some ErrNotAliasGroup), w)"
    and "PutAliased c pk alias writer w = ((None, Written, Some ErrNotAliasGroup), w)"
    and "PutAliasedValue c pk alias val w = (Some ErrNotAliasGroup, w)"
    and "EvictByAlias c alias w = (Some ErrNotAliasGroup, w)"
  using assms by (simp_all add: GetByAlias_def PutAliased_def PutAliasedValue_def EvictByAlias_def)

end
