(* ===== verification/Cache_Many.thy ===== *)
theory Cache_Many
  imports Cache_Laws
begin

text \<open>
  \<open>GetManyByKey\<close> on any backend: which keys are looked up, which go to the one call of
  \<open>loadMissing\<close>, and what the result map holds.
\<close>

subsection \<open>Deduplication\<close>

lemma dedup_loop_spec:
  "distinct out \<Longrightarrow> set out = seen \<Longrightarrow>
     distinct (dedup_loop ks seen out) \<and> set (dedup_loop ks seen out) = seen \<union> set ks"
  by (induction ks arbitrary: seen out) auto

lemma dedupKeys_spec [simp]:
  "distinct (dedupKeys keys)" "set (dedupKeys keys) = set keys"
  using dedup_loop_spec [of "[]" "{}" keys] by (simp_all add: dedupKeys_def)

text \<open>The keys keep the order of their first occurrence.\<close>

lemma dedup_loop_order:
  "set out = seen \<Longrightarrow> dedup_loop ks seen out = out @ rev (remdups (rev (filter (\<lambda>k. k \<notin> seen) ks)))"
proof (induction ks arbitrary: seen out)
  case (Cons k ks)
  have f: "filter (\<lambda>x. x \<notin> insert k seen) ks = filter (\<lambda>x. x \<noteq> k) (filter (\<lambda>x. x \<notin> seen) ks)"
    by (simp add: conj_commute)
  have r: "rev (remdups (rev ys @ [k])) = k # rev (remdups (rev (filter (\<lambda>x. x \<noteq> k) ys)))" for ys
  proof -
    have "remdups (xs @ [k]) = remdups (filter (\<lambda>x. x \<noteq> k) xs) @ [k]" for xs
      by (induction xs) auto
    then show ?thesis by (simp add: rev_filter)
  qed
  show ?case
    using Cons.IH [of "out @ [k]" "insert k seen"] Cons.IH [OF Cons.prems] Cons.prems
    by (simp add: f r conj_commute)
qed simp

lemma dedupKeys_order: "dedupKeys keys = rev (remdups (rev keys))"
  by (simp add: dedupKeys_def dedup_loop_order)

subsection \<open>Hits and misses\<close>

text \<open>What the bytes read for a key make of it.\<close>

definition raw_answer :: "('v, 's, 'x) Cache \<Rightarrow> bytes gomap \<Rightarrow> string \<Rightarrow> 'v result option" where
  "raw_answer c raw k =
     cached_answer c (case fmlookup raw k of None \<Rightarrow> Inl ErrStoreMiss | Some b \<Rightarrow> Inr b)"

definition answer_value :: "'v result option \<Rightarrow> 'v option" where
  "answer_value a = (case a of Some (v, _, _) \<Rightarrow> v | None \<Rightarrow> None)"

definition is_missing :: "('v, 's, 'x) Cache \<Rightarrow> bytes gomap \<Rightarrow> string \<Rightarrow> bool" where
  "is_missing c raw k = (raw_answer c raw k = None)"

definition hit_events :: "('v, 's, 'x) Cache \<Rightarrow> bytes gomap \<Rightarrow> string list \<Rightarrow> metric_log" where
  "hit_events c raw ks = concat (map (\<lambda>k. case raw_answer c raw k of
     None \<Rightarrow> [] | Some (_, out, _) \<Rightarrow> outcome_events (c_metrics c) out) ks)"

lemma split_loop_spec:
  assumes "split_loop c raw ks result missing w = ((result', missing'), w')"
  shows "missing' = missing @ filter (is_missing c raw) ks"
    and "fmlookup result' k =
      (if k \<in> set ks \<and> answer_value (raw_answer c raw k) \<noteq> None
       then answer_value (raw_answer c raw k) else fmlookup result k)"
    and "w_store w' = w_store w" "w_app w' = w_app w" "w_rand w' = w_rand w"
    and "w_range w' = w_range w" "w_cvt w' = w_cvt w"
    and "w_metrics w' = w_metrics w @ hit_events c raw ks"
proof -
  have "missing' = missing @ filter (is_missing c raw) ks \<and>
      fmlookup result' k = (if k \<in> set ks \<and> answer_value (raw_answer c raw k) \<noteq> None
        then answer_value (raw_answer c raw k) else fmlookup result k) \<and>
      w_store w' = w_store w \<and> w_app w' = w_app w \<and> w_rand w' = w_rand w \<and>
      w_range w' = w_range w \<and> w_cvt w' = w_cvt w \<and> w_metrics w' = w_metrics w @ hit_events c raw ks"
    using assms
  proof (induction ks arbitrary: result missing w)
    case Nil
    then show ?case by (simp add: hit_events_def)
  next
    case (Cons q ks)
    show ?case
    proof (cases "raw_answer c raw q")
      case None
      then have "split_loop c raw ks result (missing @ [q]) w = ((result', missing'), w')"
        using Cons.prems
        by (auto simp: raw_answer_def cached_answer_def split: option.splits if_splits sum.splits)
      from Cons.IH [OF this] None show ?thesis
        by (auto simp: is_missing_def hit_events_def answer_value_def)
    next
      case (Some r)
      obtain v out e where r: "r = (v, out, e)" by (cases r) auto
      define result1 where "result1 = (case v of None \<Rightarrow> result | Some x \<Rightarrow> fmupd q x result)"
      have "split_loop c raw ks result1 missing (outcome c out w) = ((result', missing'), w')"
        using Cons.prems Some r
        by (auto simp: raw_answer_def cached_answer_def result1_def split: option.splits if_splits sum.splits)
      from Cons.IH [OF this] Some r show ?thesis
        by (cases v) (auto simp: is_missing_def hit_events_def answer_value_def result1_def)
    qed
  qed
  then show "missing' = missing @ filter (is_missing c raw) ks"
    "fmlookup result' k = (if k \<in> set ks \<and> answer_value (raw_answer c raw k) \<noteq> None
       then answer_value (raw_answer c raw k) else fmlookup result k)"
    "w_store w' = w_store w" "w_app w' = w_app w" "w_rand w' = w_rand w"
    "w_range w' = w_range w" "w_cvt w' = w_cvt w"
    "w_metrics w' = w_metrics w @ hit_events c raw ks" by blast+
qed

subsection \<open>Populating\<close>

definition loaded_value :: "'v option gomap \<Rightarrow> string \<Rightarrow> 'v option" where
  "loaded_value loaded k = (case fmlookup loaded k of Some v \<Rightarrow> v | None \<Rightarrow> None)"

text \<open>One key of \<open>populateLoaded\<close>, and the outcome it is metered with.\<close>

definition populate_one ::
  "('v, 's, 'x) Cache \<Rightarrow> string \<Rightarrow> 'v option \<Rightarrow> ('s, 'x) world \<Rightarrow> ('s, 'x) world" where
  "populate_one c k v w =
     (let (ok, w1) = (case v of Some x \<Rightarrow> store_value c k x w | None \<Rightarrow> store_negative c k w)
      in outcome c (if ok then Loaded else LoadedNotCached) w1)"

lemma populateLoaded_Cons:
  "populateLoaded c (k # ks) loaded result w =
     populateLoaded c ks loaded
       (case loaded_value loaded k of Some v \<Rightarrow> fmupd k v result | None \<Rightarrow> result)
       (populate_one c k (loaded_value loaded k) w)"
  by (auto simp: loaded_value_def populate_one_def store_value_def store_negative_def case_prod_unfold Let_def
      split: option.splits sum.splits)

declare populateLoaded.simps(2) [simp del]

lemma populateLoaded_result:
  "fmlookup (fst (populateLoaded c ks loaded result w)) k =
     (if k \<in> set ks \<and> loaded_value loaded k \<noteq> None then loaded_value loaded k else fmlookup result k)"
  by (induction ks arbitrary: result w) (auto simp: populateLoaded_Cons split: option.splits)

lemma populateLoaded_world:
  "snd (populateLoaded c ks loaded result w) =
     fold (\<lambda>k. populate_one c k (loaded_value loaded k)) ks w"
  by (induction ks arbitrary: result w) (auto simp: populateLoaded_Cons)

lemma populate_one_frame [simp]:
  "w_app (populate_one c k v w) = w_app w"
  "w_range (populate_one c k v w) = w_range w" "w_cvt (populate_one c k v w) = w_cvt w"
  by (auto simp: populate_one_def case_prod_unfold Let_def split: option.splits)

lemma populate_fold_frame [simp]:
  "w_app (fold (\<lambda>k. populate_one c k (f k)) ks w) = w_app w"
  "w_range (fold (\<lambda>k. populate_one c k (f k)) ks w) = w_range w"
  by (induction ks arbitrary: w) auto

subsection \<open>The batch\<close>

lemma readManyRaw_frame [simp]:
  "w_app (snd (readManyRaw c ks w)) = w_app w" "w_rand (snd (readManyRaw c ks w)) = w_rand w"
  "w_metrics (snd (readManyRaw c ks w)) = w_metrics w"
  "w_range (snd (readManyRaw c ks w)) = w_range w"
proof -
  have "w_app (snd (read_each_loop c ks out w)) = w_app w \<and>
      w_rand (snd (read_each_loop c ks out w)) = w_rand w \<and>
      w_range (snd (read_each_loop c ks out w)) = w_range w \<and>
      w_metrics (snd (read_each_loop c ks out w)) = w_metrics w" for out
    by (induction ks arbitrary: out w) (auto simp: case_prod_unfold Let_def split: sum.splits)
  then show "w_app (snd (readManyRaw c ks w)) = w_app w" "w_rand (snd (readManyRaw c ks w)) = w_rand w"
    "w_metrics (snd (readManyRaw c ks w)) = w_metrics w"
    "w_range (snd (readManyRaw c ks w)) = w_range w"
    by (auto simp: readManyRaw_def case_prod_unfold Let_def split: option.splits bool.splits sum.splits)
qed

lemma raw_answer_cases:
  "raw_answer c raw k = Some r \<Longrightarrow> fmlookup raw k \<noteq> None"
  by (auto simp: raw_answer_def cached_answer_def split: option.splits)

definition many_missing :: "('v, 's, 'x) Cache \<Rightarrow> string list \<Rightarrow> ('s, 'x) world \<Rightarrow> string list" where
  "many_missing c keys w =
     filter (is_missing c (fst (readManyRaw c (dedupKeys keys) w))) (dedupKeys keys)"

lemma GetManyByKey_no_miss:
  assumes "many_missing c keys w = []"
  shows "\<exists>R. fst (GetManyByKey c keys load w) = (Some R, None) \<and>
      (\<forall>k. fmlookup R k = (if k \<in> set keys
         then answer_value (raw_answer c (fst (readManyRaw c (dedupKeys keys) w)) k) else None))"
    and "w_app (snd (GetManyByKey c keys load w)) = w_app w"
proof -
  obtain raw w1 where r: "readManyRaw c (dedupKeys keys) w = (raw, w1)" by (cases "readManyRaw c (dedupKeys keys) w")
  obtain result missing w2 where s: "split_loop c raw (dedupKeys keys) fmempty [] w1 = ((result, missing), w2)"
    by (metis prod.exhaust)
  note sp = split_loop_spec [OF s]
  have "missing = []" using assms sp(1) by (simp add: many_missing_def r)
  moreover have "w_app w1 = w_app w" using readManyRaw_frame(1) [of c "dedupKeys keys" w] r by simp
  ultimately show "\<exists>R. fst (GetManyByKey c keys load w) = (Some R, None) \<and>
      (\<forall>k. fmlookup R k = (if k \<in> set keys
         then answer_value (raw_answer c (fst (readManyRaw c (dedupKeys keys) w)) k) else None))"
    "w_app (snd (GetManyByKey c keys load w)) = w_app w"
    using sp(2,4) r s
    by (auto simp: GetManyByKey_def splitHitsAndMisses_def)
qed

lemma GetManyByKey_load:
  assumes "many_missing c keys w \<noteq> []" "load (many_missing c keys w) (w_app w) = ((loaded, lerr), x)"
  shows "w_app (snd (GetManyByKey c keys load w)) = x"
    and "lerr = Some e \<Longrightarrow> fst (GetManyByKey c keys load w) =
      (None, Some (WrapErr ''smartcache: GetMany load'' e))"
    and "lerr = None \<Longrightarrow> \<exists>R. fst (GetManyByKey c keys load w) = (Some R, None) \<and>
      (\<forall>k. fmlookup R k = (if k \<in> set (many_missing c keys w) then loaded_value loaded k
         else if k \<in> set keys
         then answer_value (raw_answer c (fst (readManyRaw c (dedupKeys keys) w)) k) else None))"
proof -
  obtain raw w1 where r: "readManyRaw c (dedupKeys keys) w = (raw, w1)" by (cases "readManyRaw c (dedupKeys keys) w")
  obtain result missing w2 where s: "split_loop c raw (dedupKeys keys) fmempty [] w1 = ((result, missing), w2)"
    by (metis prod.exhaust)
  note sp = split_loop_spec [OF s]
  have m: "missing = many_missing c keys w" using sp(1) by (simp add: many_missing_def r)
  have k0: "keys \<noteq> []" using assms(1) by (auto simp: many_missing_def dedupKeys_def)
  have a: "w_app w2 = w_app w" using readManyRaw_frame(1) [of c "dedupKeys keys" w] r sp(4) by simp
  have G: "GetManyByKey c keys load w =
      (let w3 = snd (timed_load c (load missing) w2) in
       case lerr of
         Some err \<Rightarrow> ((None, Some (WrapErr ''smartcache: GetMany load'' err)), load_error c w3)
       | None \<Rightarrow> ((Some (fst (populateLoaded c missing loaded result w3)), None),
                  snd (populateLoaded c missing loaded result w3)))"
  proof -
    have "fst (timed_load c (load missing) w2) = (loaded, lerr)" using assms(2) a m by simp
    then obtain w3 where "timed_load c (load missing) w2 = ((loaded, lerr), w3)"
      by (metis prod.collapse)
    then show ?thesis
      using k0 assms(1) m by (simp add: GetManyByKey_def splitHitsAndMisses_def r s case_prod_unfold Let_def
          split: option.splits)
  qed
  show "w_app (snd (GetManyByKey c keys load w)) = x"
    using assms(2) a m by (auto simp: G Let_def populateLoaded_world split: option.splits)
  show "lerr = Some e \<Longrightarrow> fst (GetManyByKey c keys load w) =
      (None, Some (WrapErr ''smartcache: GetMany load'' e))" by (simp add: G Let_def)
  have "k \<in> set missing \<Longrightarrow> answer_value (raw_answer c raw k) = None" for k
    by (auto simp: sp(1) is_missing_def answer_value_def)
  then show "lerr = None \<Longrightarrow> \<exists>R. fst (GetManyByKey c keys load w) = (Some R, None) \<and>
      (\<forall>k. fmlookup R k = (if k \<in> set (many_missing c keys w) then loaded_value loaded k
         else if k \<in> set keys
         then answer_value (raw_answer c (fst (readManyRaw c (dedupKeys keys) w)) k) else None))"
    using sp(2) by (auto simp: G Let_def populateLoaded_result r m)
qed

subsection \<open>Storage keys of a batch\<close>

lemma fullKey_inject [simp]: "fullKey c k = fullKey c k' \<longleftrightarrow> k = k'"
  by (simp add: fullKey_def)

lemma full_keys_spec:
  "fst (full_keys c ks full m) = full @ map (fullKey c) ks"
  "fmlookup (snd (full_keys c ks full m)) (fullKey c k) =
     (if k \<in> set ks then Some k else fmlookup m (fullKey c k))"
  by (induction ks arbitrary: full m) auto

lemma logical_loop_spec:
  assumes "\<And>fk. fk \<in> set fks \<Longrightarrow> \<exists>k. fk = fullKey c k \<and> fmlookup m fk = Some k"
  shows "fmlookup (logical_loop m got fks out) k =
     (if fullKey c k \<in> set fks \<and> fmlookup got (fullKey c k) \<noteq> None
      then fmlookup got (fullKey c k) else fmlookup out k)"
  using assms
proof (induction fks arbitrary: out)
  case (Cons fk fks)
  then obtain q where q: "fk = fullKey c q" "fmlookup m fk = Some q" by auto
  have IH: "fmlookup (logical_loop m got fks out') k =
     (if fullKey c k \<in> set fks \<and> fmlookup got (fullKey c k) \<noteq> None
      then fmlookup got (fullKey c k) else fmlookup out' k)" for out'
    using Cons.prems by (intro Cons.IH) simp
  show ?case using q by (auto simp: IH string_or_zero_def split: option.splits)
qed simp

end
