(* ===== verification/Cache_Client.thy ===== *)
theory Cache_Client
  imports Cache_Many
begin

text \<open>
  A cache over a backend that keeps its contract.  The locale \<open>cache_client\<close> extends
  \<open>timed_store\<close>: the three value operations of the cache \<open>c\<close> are those of a store that
  returns what was stored until its deadline, and a batch read drops expired entries at most.  The
  client lemmas (a write is read back, an eviction is a miss, a not-found is remembered, a
  failed load leaves no trace, one key does not disturb another, every deadline is within the
  TTL) are proved here once; the memory store gives two instances, plain caches and alias
  groups.
\<close>

subsection \<open>TTLs\<close>

definition config_ok :: "('v, 's, 'x) Cache \<Rightarrow> bool" where
  "config_ok c \<longleftrightarrow>
     (0 < o_TTL (c_opts c) \<or> o_AllowInfinite (c_opts c)) \<and> o_TTL (c_opts c) < 2 ^ 63 \<and>
     o_NegativeTTL (c_opts c) < 2 ^ 63 \<and> is_unit_float (c_jitterFraction c)"

definition finite_ttl :: "('v, 's, 'x) Cache \<Rightarrow> bool" where
  "finite_ttl c \<longleftrightarrow> config_ok c \<and> 0 < o_TTL (c_opts c)"

definition max_ttl :: "('v, 's, 'x) Cache \<Rightarrow> int" where
  "max_ttl c = max (o_TTL (c_opts c)) (o_NegativeTTL (c_opts c))"

lemma positiveTTL_bounds:
  assumes "finite_ttl c" "rand_ok (w_rand w)"
  shows "0 < fst (positiveTTL c w)" "fst (positiveTTL c w) \<le> o_TTL (c_opts c)"
    "rand_ok (w_rand (snd (positiveTTL c w)))"
  using assms applyJitter_bounds [of "w_rand w" "c_jitterFraction c" "o_TTL (c_opts c)" "w_cvt w"]
  by (auto simp: positiveTTL_def finite_ttl_def config_ok_def)

lemma negativeTTL_bounds:
  assumes "config_ok c" "0 < o_NegativeTTL (c_opts c)" "rand_ok (w_rand w)"
  shows "0 < fst (negativeTTL c w)" "fst (negativeTTL c w) \<le> o_NegativeTTL (c_opts c)"
    "rand_ok (w_rand (snd (negativeTTL c w)))"
  using assms applyJitter_bounds [of "w_rand w" "c_jitterFraction c" "o_NegativeTTL (c_opts c)" "w_cvt w"]
  by (auto simp: negativeTTL_def config_ok_def)

text \<open>The instant \<open>t\<close> is no later after \<open>t0\<close> than the shortest lifetime jitter can leave of \<open>base\<close>.\<close>

definition within_ttl :: "('v, 's, 'x) Cache \<Rightarrow> int \<Rightarrow> int \<Rightarrow> int \<Rightarrow> bool" where
  "within_ttl c base t0 t \<longleftrightarrow>
     (\<exists>f. c_jitterFraction c = Fin f \<and> base \<le> 2 ^ 53 \<and>
       (of_int (t - t0) :: rat) \<le> (1 - f) * of_int base)"

lemma positiveTTL_reach:
  assumes "finite_ttl c" "rand_ok (w_rand w)" "within_ttl c (o_TTL (c_opts c)) t0 t"
  shows "t - t0 \<le> fst (positiveTTL c w)"
proof -
  obtain f where f: "c_jitterFraction c = Fin f" "o_TTL (c_opts c) \<le> 2 ^ 53"
    "(of_int (t - t0) :: rat) \<le> (1 - f) * of_int (o_TTL (c_opts c))"
    using assms(3) by (auto simp: within_ttl_def)
  have u: "is_unit_float (Fin f)" "0 < o_TTL (c_opts c)"
    using assms(1) f(1) by (auto simp: finite_ttl_def config_ok_def)
  then have "0 \<le> f" by (auto simp: is_unit_float_def)
  then have "(1 - f) * of_int (o_TTL (c_opts c)) \<le> of_int (fst (positiveTTL c w))"
    using applyJitter_lower [of "w_rand w" f "o_TTL (c_opts c)" "w_cvt w"] u f(1,2) assms(2)
      mult_right_mono [of "1 - f" 1 "of_int (o_TTL (c_opts c))"]
    by (auto simp: positiveTTL_def rand_ok_def)
  then show ?thesis using f(3) by (meson of_int_le_iff order_trans)
qed

lemma positiveTTL_within:
  assumes "finite_ttl c" "rand_ok (w_rand w)" "within_ttl c (o_TTL (c_opts c)) t0 t" "t0 \<le> t1"
  shows "\<not> expired_at (deadline t1 (fst (positiveTTL c w))) t"
  using positiveTTL_reach [OF assms(1-3)] assms(4) by (auto simp: deadline_def)

lemma negativeTTL_reach:
  assumes "config_ok c" "0 < o_NegativeTTL (c_opts c)" "rand_ok (w_rand w)"
    and "within_ttl c (o_NegativeTTL (c_opts c)) t0 t"
  shows "t - t0 \<le> fst (negativeTTL c w)"
proof -
  obtain f where f: "c_jitterFraction c = Fin f" "o_NegativeTTL (c_opts c) \<le> 2 ^ 53"
    "(of_int (t - t0) :: rat) \<le> (1 - f) * of_int (o_NegativeTTL (c_opts c))"
    using assms(4) by (auto simp: within_ttl_def)
  have u: "is_unit_float (Fin f)" using assms(1) f(1) by (auto simp: config_ok_def)
  then have "(1 - f) * of_int (o_NegativeTTL (c_opts c)) \<le> of_int (fst (negativeTTL c w))"
    using applyJitter_lower [of "w_rand w" f "o_NegativeTTL (c_opts c)" "w_cvt w"] f(1,2) assms(2,3)
    by (auto simp: negativeTTL_def rand_ok_def)
  then show ?thesis using f(3) by (meson of_int_le_iff order_trans)
qed

text \<open>A codec that reads back what it wrote for \<open>v\<close>, and does not write the marker.\<close>

definition codec_ok :: "('v, 's, 'x) Cache \<Rightarrow> 'v \<Rightarrow> bytes \<Rightarrow> bool" where
  "codec_ok c v b \<longleftrightarrow> cd_Marshal (c_codec c) (Some v) = Inr b \<and> cd_Unmarshal (c_codec c) b = Inr v \<and>
     b \<noteq> negativeMarker"

subsection \<open>The client contract\<close>

locale value_client = timed_store Get Set Delete entries now inv expiry grain least
  for Get :: "string \<Rightarrow> (error + bytes, 's) op"
    and Set :: "string \<Rightarrow> bytes \<Rightarrow> int \<Rightarrow> (error option, 's) op"
    and Delete :: "string \<Rightarrow> (error option, 's) op"
    and entries :: "'s \<Rightarrow> string \<Rightarrow> (bytes \<times> int option) option"
    and now :: "'s \<Rightarrow> int"
    and inv :: "'s \<Rightarrow> bool"
    and expiry :: "int \<Rightarrow> int \<Rightarrow> int option"
    and grain :: int
    and least :: int +
  fixes c :: "('v, 's, 'x) Cache"
  assumes get_impl: "getValue c k = on_store (Get k)"
    and set_impl: "setValue c k b ttl = on_store (Set k b ttl)"
    and delete_impl: "deleteValue c k = on_store (Delete k)"
begin

text \<open>What reads alone do to a store: time passes, and entries of the keys they name may be dropped.\<close>

definition only_read :: "string set \<Rightarrow> 's \<Rightarrow> 's \<Rightarrow> bool" where
  "only_read K s s' \<longleftrightarrow> inv s' \<and> now s \<le> now s' \<and> (\<forall>k. k \<notin> K \<longrightarrow> entries s' k = entries s k) \<and>
     (\<forall>k z. entries s' k = Some z \<longrightarrow> entries s k = Some z)"

lemma only_read_refl: "inv s \<Longrightarrow> only_read K s s"
  by (simp add: only_read_def)

lemma only_read_Get: "inv s \<Longrightarrow> only_read {k} s (snd (Get k s))"
  using get_inv [of s k] get_frame [of s _ k] get_entries_back [of s k] unfolding only_read_def by blast

lemma only_read_trans: "only_read K s s1 \<Longrightarrow> only_read K' s1 s2 \<Longrightarrow> only_read (K \<union> K') s s2"
  unfolding only_read_def by (metis UnCI order_trans)

lemma read_each_only_reads:
  "inv (w_store w) \<Longrightarrow>
     \<exists>s'. snd (read_each_loop c ks out w) = w\<lparr>w_store := s'\<rparr> \<and> only_read (set ks) (w_store w) s'"
proof (induction ks arbitrary: out w)
  case (Cons k ks)
  let ?w = "w\<lparr>w_store := snd (Get k (w_store w))\<rparr>"
  note g = only_read_Get [OF Cons.prems, of k]
  have i: "inv (w_store ?w)" using g by (simp add: only_read_def)
  have "\<exists>s'. snd (read_each_loop c ks o1 ?w) = w\<lparr>w_store := s'\<rparr> \<and> only_read ({k} \<union> set ks) (w_store w) s'" for o1
    using Cons.IH [OF i, of o1] only_read_trans [OF g] by fastforce
  then show ?case
    by (auto simp: get_impl on_store_def case_prod_unfold Let_def split: sum.splits)
next
  case Nil
  show ?case
    using only_read_refl [OF Nil] by (intro exI [of _ "w_store w"]) simp
qed

text \<open>Each key of a batch is answered by its entry, as of an instant of the batch.\<close>

lemma read_each_answers:
  assumes "inv (w_store w)" "distinct ks" "k \<in> set ks"
  shows "\<exists>t. now (w_store w) \<le> t \<and> t \<le> now (w_store (snd (read_each_loop c ks out w))) \<and>
    fmlookup (fst (read_each_loop c ks (fmdrop k out) w)) k = readable_at t (entries (w_store w) k)"
  using assms
proof (induction ks arbitrary: out w)
  case (Cons q ks)
  let ?w = "w\<lparr>w_store := snd (Get q (w_store w))\<rparr>"
  let ?out = "\<lambda>out. case visible (w_store w) q of None \<Rightarrow> out | Some b \<Rightarrow> fmupd q b out"
  have step: "read_each_loop c (q # ks) out w = read_each_loop c ks (?out out) ?w" for out
    by (simp add: get_impl on_store_def get_visible [OF Cons.prems(1)] case_prod_unfold Let_def split: option.splits)
  have i: "inv (w_store ?w)" "now (w_store w) \<le> now (w_store ?w)" using get_inv [OF Cons.prems(1), of q] by simp_all
  obtain s' where s': "snd (read_each_loop c ks (?out out) ?w) = ?w\<lparr>w_store := s'\<rparr>" "now (w_store ?w) \<le> now s'"
    using read_each_only_reads [OF i(1), of ks "?out out"] by (auto simp: only_read_def)
  show ?case
  proof (cases "k = q")
    case True
    have "fmlookup (fst (read_each_loop c ks o1 w1)) q = fmlookup o1 q" for o1 w1
      using Cons.prems(2)
      by (induction ks arbitrary: o1 w1) (auto simp: case_prod_unfold Let_def split: sum.splits)
    then show ?thesis
      using i(2) s' True
      by (intro exI [of _ "now (w_store w)"]) (auto simp: step visible_def readable_at_def simp del: read_each_loop.simps(2) split: option.splits)
  next
    case False
    have d: "?out (fmdrop k out) = fmdrop k (?out out)"
      using False by (auto intro!: fmap_eqI split: option.splits)
    have e: "entries (w_store ?w) k = entries (w_store w) k" using get_frame [OF Cons.prems(1) False] by simp
    from Cons.IH [OF i(1), of "?out out"] Cons.prems False obtain t where
      "now (w_store ?w) \<le> t" "t \<le> now (w_store (snd (read_each_loop c ks (?out out) ?w)))"
      "fmlookup (fst (read_each_loop c ks (fmdrop k (?out out)) ?w)) k = readable_at t (entries (w_store w) k)"
      unfolding e by auto
    with i(2) show ?thesis by (intro exI [of _ t]) (simp add: step d del: read_each_loop.simps(2))
  qed
qed simp

lemmas read_each_batch = read_each_answers [where out = fmempty, simplified]

end

locale cache_client = value_client Get Set Delete entries now inv expiry grain least c
  for Get :: "string \<Rightarrow> (error + bytes, 's) op"
    and Set :: "string \<Rightarrow> bytes \<Rightarrow> int \<Rightarrow> (error option, 's) op"
    and Delete :: "string \<Rightarrow> (error option, 's) op"
    and entries :: "'s \<Rightarrow> string \<Rightarrow> (bytes \<times> int option) option"
    and now :: "'s \<Rightarrow> int"
    and inv :: "'s \<Rightarrow> bool"
    and expiry :: "int \<Rightarrow> int \<Rightarrow> int option"
    and grain :: int
    and least :: int
    and c :: "('v, 's, 'x) Cache" +
  assumes batch_impl: "inv (w_store w) \<Longrightarrow> range_ok (w_range w) \<Longrightarrow>
      \<exists>s'. snd (readManyRaw c ks w) = w\<lparr>w_store := s'\<rparr> \<and> only_read (set ks) (w_store w) s'"
    and batch_answers: "inv (w_store w) \<Longrightarrow> range_ok (w_range w) \<Longrightarrow> distinct ks \<Longrightarrow> k \<in> set ks \<Longrightarrow>
      \<exists>t. now (w_store w) \<le> t \<and> t \<le> now (w_store (snd (readManyRaw c ks w))) \<and>
        fmlookup (fst (readManyRaw c ks w)) k = readable_at t (entries (w_store w) k)"
begin

text \<open>A TTL of which jitter always leaves a lifetime that the store keeps.\<close>

definition storable :: "int \<Rightarrow> bool" where
  "storable base \<longleftrightarrow> least \<le> 1 \<or> within_ttl c base 0 least"

lemma positiveTTL_least:
  assumes "finite_ttl c" "rand_ok (w_rand w)" "storable (o_TTL (c_opts c))"
  shows "least \<le> fst (positiveTTL c w)"
  using positiveTTL_bounds [OF assms(1,2)] positiveTTL_reach [OF assms(1,2), of 0 least] assms(3)
  by (auto simp: storable_def)

lemma negativeTTL_least:
  assumes "config_ok c" "0 < o_NegativeTTL (c_opts c)" "rand_ok (w_rand w)" "storable (o_NegativeTTL (c_opts c))"
  shows "least \<le> fst (negativeTTL c w)"
  using negativeTTL_bounds [OF assms(1-3)] negativeTTL_reach [OF assms(1-3), of 0 least] assms(4)
  by (auto simp: storable_def)

text \<open>The answer that the store has for a key right now.\<close>

definition cached :: "'s \<Rightarrow> string \<Rightarrow> 'v result option" where
  "cached s k = cached_answer c (case visible s k of None \<Rightarrow> Inl ErrStoreMiss | Some b \<Rightarrow> Inr b)"

lemma getValue_answer:
  "inv (w_store w) \<Longrightarrow> cached_answer c (fst (getValue c k w)) = cached (w_store w) k"
  by (simp add: get_impl cached_def get_visible)

lemma cached_None: "visible s k = None \<Longrightarrow> cached s k = None"
  by (simp add: cached_def cached_answer_def)

lemma cached_value: "visible s k = Some b \<Longrightarrow> codec_ok c v b \<Longrightarrow> cached s k = Some (Some v, Hit, None)"
  by (simp add: cached_def cached_answer_def codec_ok_def)

lemma cached_marker:
  "visible s k = Some negativeMarker \<Longrightarrow> cached s k = Some (None, NegativeHit, Some ErrNotFound)"
  by (simp add: cached_def cached_answer_def)

lemma GetByKey_cached:
  assumes "inv (w_store w)" "cached (w_store w) k = Some r"
  shows "fst (GetByKey c k loader w) = Ret r"
    and "w_app (snd (GetByKey c k loader w)) = w_app w"
    and "w_store (snd (GetByKey c k loader w)) = snd (Get k (w_store w))"
  using GetByKey_from_cache [of c k w r loader] assms
  by (simp_all add: getValue_answer) (simp add: get_impl)

lemma GetByKey_uncached:
  assumes "inv (w_store w)" "cached (w_store w) k = None" "solo_flight c"
  shows "\<exists>p. fst (GetByKey c k loader w) = Ret (load_answer (fst (loader (w_app w))) p)"
    and "w_app (snd (GetByKey c k loader w)) = snd (loader (w_app w))"
  using GetByKey_from_loader [OF assms(3), of k w loader] assms(1,2) by (auto simp: getValue_answer)

subsection \<open>Storing\<close>

lemma store_value_simps:
  assumes "inv (w_store w)" "cd_Marshal (c_codec c) (Some v) = Inr b"
  shows "fst (store_value c k v w)"
    and "w_store (snd (store_value c k v w)) = snd (Set k b (fst (positiveTTL c w)) (w_store w))"
    and "inv (w_store (snd (store_value c k v w)))"
    and "now (w_store w) \<le> now (w_store (snd (store_value c k v w)))"
  using assms set_inv [OF assms(1)]
  by (simp_all add: store_value_def case_prod_unfold Let_def set_impl set_result)

lemma store_value_entry:
  assumes "inv (w_store w)" "cd_Marshal (c_codec c) (Some v) = Inr b" "least \<le> fst (positiveTTL c w)"
  shows "entries (w_store (snd (store_value c k v w))) k =
    Some (b, expiry (now (w_store w)) (fst (positiveTTL c w)))"
  using store_value_simps(2) [OF assms(1,2), of k] set_entry [OF assms(1,3)] by simp

lemma store_negative_entry:
  assumes "inv (w_store w)" "0 < o_NegativeTTL (c_opts c)" "least \<le> fst (negativeTTL c w)"
  shows "entries (w_store (snd (store_negative c k w))) k =
      Some (negativeMarker, expiry (now (w_store w)) (fst (negativeTTL c w)))"
    and "inv (w_store (snd (store_negative c k w)))"
proof -
  have s: "w_store (snd (store_negative c k w)) =
      snd (Set k negativeMarker (fst (negativeTTL c w)) (w_store w))"
    using assms(2) by (simp add: store_negative_def case_prod_unfold Let_def set_impl)
  show "inv (w_store (snd (store_negative c k w)))" using s set_inv [OF assms(1)] by simp
  show "entries (w_store (snd (store_negative c k w))) k =
      Some (negativeMarker, expiry (now (w_store w)) (fst (negativeTTL c w)))"
    by (simp add: s set_entry [OF assms(1,3)])
qed

subsection \<open>What an operation leaves in the store\<close>

text \<open>A write-through that the writer accepts stores the value.\<close>

lemma put_entry:
  assumes "inv (w_store w)" "cd_Marshal (c_codec c) (Some v) = Inr b"
    and "writer (w_app w) = ((Some v, None), x)" "PutByKey c k writer w = (r, w')"
    and "finite_ttl c" "rand_ok (w_rand w)" "storable (o_TTL (c_opts c))"
  shows "r = (Some v, Written, None)" "w_app w' = x" "inv (w_store w')"
    and "entries (w_store w') k =
      Some (b, expiry (now (w_store w)) (fst (positiveTTL c (snd (on_app writer w)))))"
proof -
  define w1 where "w1 = snd (on_app writer w)"
  have w1: "on_app writer w = ((Some v, None), w1)" using assms(3) by (simp add: w1_def on_app_def)
  have s1: "w_store w1 = w_store w" "w_app w1 = x" using assms(3) by (simp_all add: w1_def)
  have i1: "inv (w_store w1)" using assms(1) s1 by simp
  have p: "r = (Some v, Written, None)" "w' = outcome c Written (snd (store_value c k v w1))"
    using assms(4) store_value_simps(1) [OF i1 assms(2), of k]
    by (simp_all add: PutByKey_eq w1 case_prod_unfold Let_def)
  show "r = (Some v, Written, None)" "w_app w' = x" "inv (w_store w')"
    using p s1 store_value_simps(3) [OF i1 assms(2)] by simp_all
  have "rand_ok (w_rand w1)" using assms(6) by (simp add: w1_def)
  note l = positiveTTL_least [OF assms(5) this assms(7)]
  show "entries (w_store w') k =
      Some (b, expiry (now (w_store w)) (fst (positiveTTL c (snd (on_app writer w)))))"
    using p(2) store_value_entry [OF i1 assms(2) l, of k] s1(1) by (simp add: w1_def)
qed

text \<open>A load stores the value it returns, and where negative caching is on a not-found.\<close>

lemma load_entry:
  assumes "inv (w_store w)" "solo_flight c" "cached (w_store w) k = None"
    and "GetByKey c k loader w = (r, w')" "rand_ok (w_rand w)"
  shows "loader (w_app w) = ((Some v, None), x) \<Longrightarrow> cd_Marshal (c_codec c) (Some v) = Inr b \<Longrightarrow>
      finite_ttl c \<Longrightarrow> storable (o_TTL (c_opts c)) \<Longrightarrow>
      r = Ret (Some v, Loaded, None) \<and> w_app w' = x \<and> inv (w_store w') \<and>
      (\<exists>t w1. now (w_store w) \<le> t \<and> w_rand w1 = w_rand w \<and>
         entries (w_store w') k = Some (b, expiry t (fst (positiveTTL c w1))))"
    and "loader (w_app w) = ((y, Some e), x) \<Longrightarrow> errors_is e ErrNotFound \<Longrightarrow>
      0 < o_NegativeTTL (c_opts c) \<Longrightarrow> config_ok c \<Longrightarrow> storable (o_NegativeTTL (c_opts c)) \<Longrightarrow>
      r = Ret (None, Loaded, Some ErrNotFound) \<and> w_app w' = x \<and> inv (w_store w') \<and>
      (\<exists>t w1. now (w_store w) \<le> t \<and> w_rand w1 = w_rand w \<and>
         entries (w_store w') k = Some (negativeMarker, expiry t (fst (negativeTTL c w1))))"
proof -
  let ?w1 = "snd (timed_load c loader (snd (getValue c k w)))"
  have i1: "inv (w_store ?w1)" and n1: "now (w_store w) \<le> now (w_store ?w1)"
    using get_inv [OF assms(1), of k] by (simp_all add: get_impl)
  have r1: "rand_ok (w_rand ?w1)" using assms(5) by (simp add: get_impl)
  have u: "cached_answer c (fst (getValue c k w)) = None" using assms(1,3) by (simp add: getValue_answer)
  note L = GetByKey_from_loader [OF assms(2) u, of loader]
  show "r = Ret (Some v, Loaded, None) \<and> w_app w' = x \<and> inv (w_store w') \<and>
      (\<exists>t w1. now (w_store w) \<le> t \<and> w_rand w1 = w_rand w \<and>
         entries (w_store w') k = Some (b, expiry t (fst (positiveTTL c w1))))"
    if "loader (w_app w) = ((Some v, None), x)" and b: "cd_Marshal (c_codec c) (Some v) = Inr b"
      and "finite_ttl c" "storable (o_TTL (c_opts c))"
    using L that(1) assms(4) store_value_simps(1,3) [OF i1 b] n1
      store_value_entry [OF i1 b positiveTTL_least [OF that(3) r1 that(4)], of k]
    by (auto intro!: exI [of _ "now (w_store ?w1)"] exI [of _ ?w1])
  show "r = Ret (None, Loaded, Some ErrNotFound) \<and> w_app w' = x \<and> inv (w_store w') \<and>
      (\<exists>t w1. now (w_store w) \<le> t \<and> w_rand w1 = w_rand w \<and>
         entries (w_store w') k = Some (negativeMarker, expiry t (fst (negativeTTL c w1))))"
    if "loader (w_app w) = ((y, Some e), x)" "errors_is e ErrNotFound" "0 < o_NegativeTTL (c_opts c)"
      "config_ok c" "storable (o_NegativeTTL (c_opts c))"
    using L that assms(4) n1
      store_negative_entry [OF i1 that(3) negativeTTL_least [OF that(4,3) r1 that(5)], of k]
    by (auto intro!: exI [of _ "now (w_store ?w1)"] exI [of _ ?w1])
qed

text \<open>A transient failure is reported and caches nothing: whatever can be read now could before.\<close>

lemma failed_load_leaves_nothing:
  assumes "inv (w_store w)" "solo_flight c" "cached (w_store w) k = None"
    and "loader (w_app w) = ((y, Some e), x)" "\<not> errors_is e ErrNotFound"
  shows "fst (GetByKey c k loader w) = Ret (None, Loaded, Some e)"
    and "entries (w_store (snd (GetByKey c k loader w))) k' = Some z \<Longrightarrow>
      entries (w_store w) k' = Some z"
proof -
  have u: "cached_answer c (fst (getValue c k w)) = None" using assms(1,3) by (simp add: getValue_answer)
  note L = GetByKey_from_loader [OF assms(2) u, of loader]
  show "fst (GetByKey c k loader w) = Ret (None, Loaded, Some e)" using L(1) assms(4,5) by simp
  have "w_store (snd (GetByKey c k loader w)) = snd (Get k (w_store w))"
    using L(3) assms(4,5) by (simp add: get_impl)
  then show "entries (w_store (snd (GetByKey c k loader w))) k' = Some z \<Longrightarrow>
      entries (w_store w) k' = Some z"
    using get_entries_back [OF assms(1)] by simp
qed

subsection \<open>One key does not disturb another\<close>

lemma store_value_other:
  "inv (w_store w) \<Longrightarrow> k' \<noteq> k \<Longrightarrow>
     entries (w_store (snd (store_value c k v w))) k' = entries (w_store w) k'"
  by (simp add: store_value_def case_prod_unfold Let_def set_impl set_other split: sum.splits)

lemma store_negative_other:
  "inv (w_store w) \<Longrightarrow> k' \<noteq> k \<Longrightarrow>
     entries (w_store (snd (store_negative c k w))) k' = entries (w_store w) k'"
  by (simp add: store_negative_def case_prod_unfold Let_def set_impl set_other)

lemma load_effect_other:
  assumes "inv (w_store w)" "k' \<noteq> k"
  shows "entries (w_store (snd (load_effect c k r w))) k' = entries (w_store w) k'"
  using assms by (auto simp: load_effect_def store_value_other store_negative_other split: prod.splits option.splits)

lemma GetByKey_other:
  assumes "inv (w_store w)" "solo_flight c" "k' \<noteq> k"
  shows "entries (w_store (snd (GetByKey c k loader w))) k' = entries (w_store w) k'"
  using get_inv [OF assms(1), of k] get_frame [OF assms(1,3)]
  by (auto simp: GetByKey_eq [OF assms(2)] get_impl load_effect_other [OF _ assms(3)] case_prod_unfold Let_def
      split: option.splits)

lemma PutByKey_other:
  assumes "inv (w_store w)" "k' \<noteq> k"
  shows "entries (w_store (snd (PutByKey c k writer w))) k' = entries (w_store w) k'"
  using assms by (auto simp: PutByKey_eq store_value_other case_prod_unfold Let_def split: option.splits)

lemma EvictByKey_other:
  assumes "inv (w_store w)" "k' \<noteq> k"
  shows "entries (w_store (snd (EvictByKey c k w))) k' = entries (w_store w) k'"
  using assms by (simp add: EvictByKey_def delete_impl delete_entries)

subsection \<open>Deadlines stay within the TTL\<close>

definition bounded :: "('s, 'x) world \<Rightarrow> bool" where
  "bounded w \<longleftrightarrow> inv (w_store w) \<and> rand_ok (w_rand w) \<and> range_ok (w_range w) \<and>
     (\<forall>k b d. entries (w_store w) k = Some (b, d) \<longrightarrow>
        (\<exists>x. d = Some x \<and> x < now (w_store w) + max_ttl c + grain))"

lemma boundedD:
  assumes "bounded w"
  shows "inv (w_store w)" "rand_ok (w_rand w)" "range_ok (w_range w)"
    and "entries (w_store w) k = Some (b, d) \<Longrightarrow> \<exists>x. d = Some x \<and> x < now (w_store w) + max_ttl c + grain"
  using assms by (simp_all add: bounded_def)

lemma bounded_same:
  "bounded w \<Longrightarrow> w_store w' = w_store w \<Longrightarrow> rand_ok (w_rand w') \<Longrightarrow> w_range w' = w_range w \<Longrightarrow> bounded w'"
  by (simp add: bounded_def)

lemma bounded_metric [simp]:
  "bounded w \<Longrightarrow> bounded (outcome c out w)" "bounded w \<Longrightarrow> bounded (load_error c w)"
  "bounded w \<Longrightarrow> bounded (evicted c n w)" "bounded w \<Longrightarrow> bounded (answer_metric c r w)"
  "bounded w \<Longrightarrow> bounded (snd (timed_load c load w))" "bounded w \<Longrightarrow> bounded (snd (on_app f w))"
  by (auto intro: bounded_same simp: boundedD)

text \<open>A step that only drops entries, and one that stores an entry with a bounded deadline.\<close>

lemma bounded_drop:
  assumes "bounded w" "inv s" "now (w_store w) \<le> now s"
    and "\<And>k z. entries s k = Some z \<Longrightarrow> entries (w_store w) k = Some z"
  shows "bounded (w\<lparr>w_store := s\<rparr>)"
  using assms boundedD [OF assms(1)] unfolding bounded_def by fastforce

lemma bounded_getValue: "bounded w \<Longrightarrow> bounded (snd (getValue c k w))"
  using bounded_drop [of w "snd (Get k (w_store w))"] get_inv [of "w_store w" k]
    get_entries_back [of "w_store w" k]
  by (simp add: get_impl on_store_def case_prod_unfold Let_def boundedD(1))

lemma bounded_deleteValue:
  assumes "bounded w" shows "bounded (snd (deleteValue c k w))"
proof -
  have "bounded (w\<lparr>w_store := snd (Delete k (w_store w))\<rparr>)"
    using delete_inv [OF boundedD(1) [OF assms], of k]
    by (intro bounded_drop [OF assms])
      (auto simp: delete_entries [OF boundedD(1) [OF assms]] split: if_splits)
  then show ?thesis by (simp add: delete_impl on_store_def case_prod_unfold Let_def)
qed

lemma bounded_setValue:
  assumes "bounded w" "least \<le> ttl" "ttl \<le> max_ttl c"
  shows "bounded (snd (setValue c k b ttl w))"
proof -
  note iw = boundedD(1) [OF assms(1)]
  note i = set_inv [OF iw, of k b ttl]
  have "\<exists>x. d = Some x \<and> x < now (snd (Set k b ttl (w_store w))) + max_ttl c + grain"
    if e: "entries (snd (Set k b ttl (w_store w))) k' = Some (b', d)" for k' b' d
  proof (cases "k' = k")
    case True
    then have "d = expiry (now (w_store w)) ttl" using e set_entry [OF iw assms(2)] by simp
    with expiry_close [OF assms(2), of "now (w_store w)"] i assms(3) show ?thesis by auto
  next
    case False
    then have "entries (w_store w) k' = Some (b', d)" using e set_other [OF iw] by simp
    from boundedD(4) [OF assms(1) this] i show ?thesis by auto
  qed
  with i boundedD(2,3) [OF assms(1)] show ?thesis
    by (simp add: bounded_def set_impl)
qed

text \<open>A finite TTL, and both TTLs storable.\<close>

definition ttls_ok :: bool where
  "ttls_ok \<longleftrightarrow> finite_ttl c \<and> storable (o_TTL (c_opts c)) \<and>
     (0 < o_NegativeTTL (c_opts c) \<longrightarrow> storable (o_NegativeTTL (c_opts c)))"

lemma ttls_okD:
  assumes ttls_ok
  shows "finite_ttl c" "config_ok c" "storable (o_TTL (c_opts c))"
    "0 < o_NegativeTTL (c_opts c) \<Longrightarrow> storable (o_NegativeTTL (c_opts c))"
  using assms by (simp_all add: ttls_ok_def finite_ttl_def)

lemma bounded_store:
  assumes "ttls_ok" "bounded w"
  shows "bounded (snd (store_value c k v w))" "bounded (snd (store_negative c k w))"
proof -
  note ok = ttls_okD [OF assms(1)] and rd = boundedD(2) [OF assms(2)]
  note p = positiveTTL_bounds [OF ok(1) rd] positiveTTL_least [OF ok(1) rd ok(3)]
  have "bounded (snd (positiveTTL c w))" by (rule bounded_same [OF assms(2)]) (use p in simp_all)
  then show "bounded (snd (store_value c k v w))"
    using p assms(2) bounded_setValue [of "snd (positiveTTL c w)" "fst (positiveTTL c w)" k]
    by (auto simp: store_value_def max_ttl_def case_prod_unfold Let_def split: sum.splits)
  show "bounded (snd (store_negative c k w))"
  proof (cases "0 < o_NegativeTTL (c_opts c)")
    case True
    note n = negativeTTL_bounds [OF ok(2) True rd] negativeTTL_least [OF ok(2) True rd ok(4) [OF True]]
    have "bounded (snd (negativeTTL c w))" by (rule bounded_same [OF assms(2)]) (use n in simp_all)
    then show ?thesis
      using n bounded_setValue [of "snd (negativeTTL c w)" "fst (negativeTTL c w)" k]
      by (auto simp: store_negative_def max_ttl_def case_prod_unfold Let_def)
  qed (use assms(2) in \<open>simp add: store_negative_def\<close>)
qed

lemma bounded_load_effect: "ttls_ok \<Longrightarrow> bounded w \<Longrightarrow> bounded (snd (load_effect c k r w))"
  by (auto simp: load_effect_def bounded_store split: prod.splits option.splits)

lemma bounded_GetByKey:
  assumes "ttls_ok" "solo_flight c" "bounded w"
  shows "bounded (snd (GetByKey c k loader w))"
  using assms
  by (auto simp: GetByKey_eq case_prod_unfold Let_def bounded_getValue bounded_load_effect split: option.splits)

lemma bounded_PutByKey:
  assumes "ttls_ok" "bounded w"
  shows "bounded (snd (PutByKey c k writer w))"
  using assms by (auto simp: PutByKey_eq case_prod_unfold Let_def bounded_store split: option.splits)

lemma bounded_PutValueByKey:
  assumes "ttls_ok" "bounded w"
  shows "bounded (snd (PutValueByKey c k v w))"
proof -
  note ok = ttls_okD [OF assms(1)] and rd = boundedD(2) [OF assms(2)]
  note p = positiveTTL_bounds [OF ok(1) rd] positiveTTL_least [OF ok(1) rd ok(3)]
  have "bounded (snd (positiveTTL c w))" by (rule bounded_same [OF assms(2)]) (use p in simp_all)
  then show ?thesis
    using p assms(2) bounded_setValue [of "snd (positiveTTL c w)" "fst (positiveTTL c w)" k]
    by (auto simp: PutValueByKey_def max_ttl_def case_prod_unfold Let_def split: sum.splits)
qed

lemma bounded_EvictByKey: "bounded w \<Longrightarrow> bounded (snd (EvictByKey c k w))"
  by (simp add: EvictByKey_def bounded_deleteValue)

lemma bounded_EvictManyByKey: "bounded w \<Longrightarrow> bounded (snd (EvictManyByKey c ks w))"
proof -
  have "bounded w \<Longrightarrow> bounded (snd (evict_many_loop c ks errs w))" for errs w
    by (induction ks arbitrary: errs w) (auto simp: case_prod_unfold Let_def bounded_deleteValue)
  then show "bounded w \<Longrightarrow> bounded (snd (EvictManyByKey c ks w))"
    by (simp add: EvictManyByKey_def case_prod_unfold Let_def)
qed

lemma bounded_populate:
  "ttls_ok \<Longrightarrow> bounded w \<Longrightarrow> bounded (fold (\<lambda>k. populate_one c k (f k)) ks w)"
  by (induction ks arbitrary: w)
    (auto simp: populate_one_def case_prod_unfold Let_def bounded_store split: option.splits)

lemma bounded_GetManyByKey:
  assumes "ttls_ok" "bounded w"
  shows "bounded (snd (GetManyByKey c keys load w))"
proof -
  obtain raw w1 where r: "readManyRaw c (dedupKeys keys) w = (raw, w1)" by (cases "readManyRaw c (dedupKeys keys) w")
  obtain s1 where s1: "w1 = w\<lparr>w_store := s1\<rparr>" "only_read (set (dedupKeys keys)) (w_store w) s1"
    using batch_impl [OF boundedD(1,3) [OF assms(2)], of "dedupKeys keys"] r by auto
  have b1: "bounded w1"
    unfolding s1(1) by (rule bounded_drop [OF assms(2)]) (use s1(2) in \<open>auto simp: only_read_def\<close>)
  obtain result missing w2 where s: "split_loop c raw (dedupKeys keys) fmempty [] w1 = ((result, missing), w2)"
    by (metis prod.exhaust)
  note sp = split_loop_spec [OF s]
  have b2: "bounded w2" using b1 by (rule bounded_same) (use sp boundedD(2) [OF b1] in auto)
  then have "bounded (snd (timed_load c (load missing) w2))" by simp
  then show ?thesis
    using assms b2
    by (auto simp: GetManyByKey_def splitHitsAndMisses_def r s case_prod_unfold Let_def populateLoaded_world
        bounded_populate split: option.splits)
qed

text \<open>So once the longest TTL has passed without a write, nothing of the cache is readable.\<close>

lemma bounded_all_expired:
  assumes "bounded w" "inv s" "\<And>k z. entries s k = Some z \<Longrightarrow> entries (w_store w) k = Some z"
    and "now (w_store w) + max_ttl c + (grain - 1) < now s"
  shows "cached s k = None"
proof (rule cached_None)
  show "visible s k = None"
  proof (cases "entries s k")
    case (Some z)
    then obtain b d where "entries (w_store w) k = Some (b, d)" "z = (b, d)"
      using assms(3) by (cases z) blast
    with boundedD(4) [OF assms(1) this(1)] Some assms(4) show ?thesis by (auto simp: visible_def)
  qed (simp add: visible_def)
qed

end

end
