(* ===== verification/Manager.thy ===== *)
theory Manager
  imports Cache
begin

text \<open>
  \<open>manager.go\<close>: the manager, its options, and the registration of caches.  The store is the
  \<open>store_impl\<close> of its operations and optional extensions (\<open>None\<close> for a nil \<open>CacheStore\<close>).  The
  type parameter \<open>T\<close> of the generic functions is the \<open>gotype\<close> argument.  \<open>encoding/json\<close>, a
  fresh \<open>singleflight.Group\<close> and the OpenTelemetry SDK are arguments.
\<close>

subsection \<open>State\<close>

record 'v managerDefaults =
  d_ttl :: int
  d_jitterFraction :: f64
  d_negativeTTL :: int
  d_disableSingleflight :: bool
  d_codec :: "'v Codec option"

record ('v, 's) Manager =
  mg_store :: "'s store_impl"
  mg_defaults :: "'v managerDefaults"
  mg_registry :: "string fset"
  mg_otlp :: "resolvedOTLP option"
  mg_meter :: "meter option"
  mg_meterProvider :: "meter_provider option"

type_synonym ('v, 's) ManagerOption = "('v, 's) Manager \<Rightarrow> error + ('v, 's) Manager"

subsection \<open>Options\<close>

definition set_defaults ::
  "('v managerDefaults \<Rightarrow> 'v managerDefaults) \<Rightarrow> ('v, 's) ManagerOption" where
  "set_defaults f m = Inr (m\<lparr>mg_defaults := f (mg_defaults m)\<rparr>)"

definition WithDefaultTTL :: "int \<Rightarrow> ('v, 's) ManagerOption" where
  "WithDefaultTTL d = set_defaults (\<lambda>x. x\<lparr>d_ttl := d\<rparr>)"

definition WithDefaultJitterFraction :: "f64 \<Rightarrow> ('v, 's) ManagerOption" where
  "WithDefaultJitterFraction f = set_defaults (\<lambda>x. x\<lparr>d_jitterFraction := f\<rparr>)"

definition WithDefaultNegativeTTL :: "int \<Rightarrow> ('v, 's) ManagerOption" where
  "WithDefaultNegativeTTL d = set_defaults (\<lambda>x. x\<lparr>d_negativeTTL := d\<rparr>)"

definition WithDefaultDisableSingleflight :: "bool \<Rightarrow> ('v, 's) ManagerOption" where
  "WithDefaultDisableSingleflight b = set_defaults (\<lambda>x. x\<lparr>d_disableSingleflight := b\<rparr>)"

definition WithDefaultCodec :: "'v Codec option \<Rightarrow> ('v, 's) ManagerOption" where
  "WithDefaultCodec c = set_defaults (\<lambda>x. x\<lparr>d_codec := c\<rparr>)"

definition WithOTLP :: "OTLPConfig \<Rightarrow> ('v, 's) ManagerOption" where
  "WithOTLP cfg m =
     (case resolveOTLP cfg of Inl err \<Rightarrow> Inl err | Inr r \<Rightarrow> Inr (m\<lparr>mg_otlp := Some r\<rparr>))"

fun apply_options ::
  "('v, 's) ManagerOption list \<Rightarrow> ('v, 's) Manager \<Rightarrow> error + ('v, 's) Manager" where
  "apply_options [] m = Inr m"
| "apply_options (opt # opts) m =
     (case opt m of Inl err \<Rightarrow> Inl err | Inr m1 \<Rightarrow> apply_options opts m1)"

definition NewManager ::
  "('exp, 'rd) otel_sdk \<Rightarrow> 's store_impl option \<Rightarrow> ('v, 's) ManagerOption list \<Rightarrow>
     error + ('v, 's) Manager" where
  "NewManager sdk store opts =
     (case store of
        None \<Rightarrow> Inl ErrNilStore
      | Some st \<Rightarrow>
          (let m0 = \<lparr>mg_store = st,
                     mg_defaults = \<lparr>d_ttl = 0, d_jitterFraction = defaultJitterFraction,
                       d_negativeTTL = 0, d_disableSingleflight = False, d_codec = None\<rparr>,
                     mg_registry = {||}, mg_otlp = None, mg_meter = None, mg_meterProvider = None\<rparr>
           in case apply_options opts m0 of
                Inl err \<Rightarrow> Inl err
              | Inr m \<Rightarrow>
                  (case (mg_otlp m, mg_meter m) of
                     (Some r, None) \<Rightarrow>
                       (case newMeterProvider sdk r of
                          Inl err \<Rightarrow> Inl err
                        | Inr mp \<Rightarrow>
                            Inr (m\<lparr>mg_meterProvider := Some mp,
                                   mg_meter := Some (mp_Meter mp ''github.com/Bytonomics/smartcache'')\<rparr>))
                   | _ \<Rightarrow> Inr m)))"

subsection \<open>Registration\<close>

record 'v EntityOptions =
  eo_Prefix :: "string option"
  eo_TTL :: "int option"
  eo_AllowInfinite :: "bool option"
  eo_JitterFraction :: "f64 option"
  eo_NegativeTTL :: "int option"
  eo_DisableSingleflight :: "bool option"
  eo_Codec :: "'v Codec option"
  eo_AliasMode :: "AliasMode option"

definition no_options :: "'v EntityOptions" where
  "no_options = \<lparr>eo_Prefix = None, eo_TTL = None, eo_AllowInfinite = None, eo_JitterFraction = None,
     eo_NegativeTTL = None, eo_DisableSingleflight = None, eo_Codec = None, eo_AliasMode = None\<rparr>"

text \<open>\<open>if p != nil { x = *p }\<close>.\<close>

definition override :: "'a option \<Rightarrow> 'a \<Rightarrow> 'a" where
  "override p x = (case p of None \<Rightarrow> x | Some y \<Rightarrow> y)"

text \<open>The part of a cache's construction that talks to the meter.\<close>

definition register_metrics :: "('v, 's) Manager \<Rightarrow> string \<Rightarrow> error + cacheMetrics option" where
  "register_metrics m name =
     (case mg_meter m of
        None \<Rightarrow> Inr None
      | Some mt \<Rightarrow>
          (case newCacheMetrics mt name of
             Inl err \<Rightarrow> Inl (WrapErr (''smartcache: register '' @ go_quote name @ '' metrics'') err)
           | Inr cm \<Rightarrow> Inr (Some cm)))"

text \<open>
  \<open>Register\<close> returns the cache or an error and the manager it leaves behind, or panics.
  \<open>json\<close> is the default codec and \<open>newGroup\<close> the new \<open>singleflight.Group\<close>.
\<close>

definition Register ::
  "'v Codec \<Rightarrow> ('v, 's, 'x) flight_group \<Rightarrow> 'v gotype \<Rightarrow> ('v, 's) Manager \<Rightarrow> string \<Rightarrow>
     'v EntityOptions option \<Rightarrow> (error + ('v, 's, 'x) Cache) go \<times> ('v, 's) Manager" where
  "Register json newGroup T m name opts =
     (if t_pointer T then (Panic (error_Error (WrapErr (''smartcache.Register['' @ t_String T @ '']'') ErrPointerType)), m)
      else if name = '''' then (Ret (Inl ErrEmptyName), m)
      else
        let opts = (case opts of None \<Rightarrow> no_options | Some o1 \<Rightarrow> o1) in
        if name |\<in>| mg_registry m then (Ret (Inl (WrapErr (go_quote name) ErrDuplicateName)), m)
        else
          let prefix = override (eo_Prefix opts) name in
          if prefix = '''' then (Ret (Inl ErrEmptyPrefix), m)
          else
            let ttl = override (eo_TTL opts) (d_ttl (mg_defaults m));
                allowInfinite = override (eo_AllowInfinite opts) False;
                negativeTTL = override (eo_NegativeTTL opts) (d_negativeTTL (mg_defaults m));
                disableSF = override (eo_DisableSingleflight opts) (d_disableSingleflight (mg_defaults m));
                jitter = override (eo_JitterFraction opts) (d_jitterFraction (mg_defaults m));
                codec = (case eo_Codec opts of
                           Some c \<Rightarrow> c
                         | None \<Rightarrow> (case d_codec (mg_defaults m) of Some c \<Rightarrow> c | None \<Rightarrow> json))
            in
            if ttl \<le> 0 \<and> \<not> allowInfinite then (Ret (Inl ErrInvalidTTL), m)
            else if f64_less jitter (Fin 0) \<or> f64_le (Fin 1) jitter
            then (Ret (Inl ErrInvalidJitterFraction), m)
            else
              case register_metrics m name of
                Inl err \<Rightarrow> (Ret (Inl err), m)
              | Inr cm \<Rightarrow>
                  (Ret (Inr
                     \<lparr>c_type = T,
                      c_store = si_store (mg_store m),
                      c_batch = si_GetMany (mg_store m),
                      c_prefixStore = si_DeleteByPrefix (mg_store m),
                      c_prefixAlias = None,
                      c_opts = \<lparr>o_Prefix = prefix, o_TTL = ttl, o_AllowInfinite = allowInfinite,
                                o_NegativeTTL = negativeTTL, o_Codec = codec,
                                o_DisableSingleflight = disableSF\<rparr>,
                      c_codec = codec,
                      c_group = (if \<not> disableSF then Some newGroup else None),
                      c_jitterFraction = jitter,
                      c_metrics = cm,
                      c_aliasOps = None\<rparr>),
                   m\<lparr>mg_registry := finsert name (mg_registry m)\<rparr>))"

definition RegisterAliasGroup ::
  "'v Codec \<Rightarrow> ('v, 's, 'x) flight_group \<Rightarrow> 'v gotype \<Rightarrow> ('v, 's) Manager \<Rightarrow> string \<Rightarrow>
     'v EntityOptions option \<Rightarrow> (error + ('v, 's, 'x) Cache) go \<times> ('v, 's) Manager" where
  "RegisterAliasGroup json newGroup T m name opts =
     (if t_pointer T then (Panic (error_Error (WrapErr (''smartcache.RegisterAliasGroup['' @ t_String T @ '']'') ErrPointerType)), m)
      else
        case si_AliasGroup (mg_store m) of
          None \<Rightarrow> (Panic (error_Error (WrapErr (''smartcache.RegisterAliasGroup['' @ go_quote name @ '']'') ErrAliasingNotSupported)), m)
        | Some AliasGroup \<Rightarrow>
            if t_CacheUniqueKey T = None
            then (Panic (''smartcache.RegisterAliasGroup['' @ go_quote name @ '']: T must implement UniqueKeyed (CacheUniqueKey() string)''), m)
            else
              let mode = (case opts of
                            None \<Rightarrow> AliasColocated
                          | Some opts \<Rightarrow> override (eo_AliasMode opts) AliasColocated)
              in case Register json newGroup T m name opts of
                   (Panic msg, m1) \<Rightarrow> (Panic msg, m1)
                 | (Ret (Inl err), m1) \<Rightarrow> (Ret (Inl err), m1)
                 | (Ret (Inr c), m1) \<Rightarrow>
                     (let ao = AliasGroup (o_Prefix (c_opts c)) mode
                      in (Ret (Inr (c\<lparr>c_aliasOps := Some ao,
                                       c_prefixAlias := ao_EvictByPrimaryPrefix ao\<rparr>)), m1)))"

definition Shutdown :: "('v, 's) Manager \<Rightarrow> error option" where
  "Shutdown m =
     (case mg_meterProvider m of
        None \<Rightarrow> None
      | Some mp \<Rightarrow>
          (case mp_Shutdown mp of
             Some err \<Rightarrow> Some (WrapErr ''smartcache: manager shutdown'' err)
           | None \<Rightarrow> None))"

end
