(* ===== verification/Mem_Cache.thy ===== *)
theory Mem_Cache
  imports Mem_Alias Cache_Client Manager
begin

text \<open>
  Caches on the memory store.  \<open>on_mem c\<close> is the cache \<open>c\<close> bound to it as \<open>Register\<close> binds it,
  \<open>on_group m c\<close> as \<open>RegisterAliasGroup\<close> does; both meet the client contract, the first through
  the plain store under its full keys, the second through the values of its alias group.
\<close>

definition on_mem :: "('v, memstore, 'x) Cache \<Rightarrow> ('v, memstore, 'x) Cache" where
  "on_mem c = c\<lparr>c_store := mem_store, c_batch := Some mem_GetMany,
     c_prefixStore := Some mem_DeleteByPrefix, c_prefixAlias := None, c_aliasOps := None\<rparr>"

definition on_group :: "memAliasOps \<Rightarrow> ('v, memstore, 'x) Cache \<Rightarrow> ('v, memstore, 'x) Cache" where
  "on_group m c = c\<lparr>c_store := mem_store, c_batch := Some mem_GetMany,
     c_prefixStore := Some mem_DeleteByPrefix, c_aliasOps := Some (mem_alias_ops m),
     c_prefixAlias := ao_EvictByPrimaryPrefix (mem_alias_ops m)\<rparr>"

lemma bound_simps [simp]:
  "c_opts (on_mem c) = c_opts c" "c_opts (on_group m c) = c_opts c"
  "c_codec (on_mem c) = c_codec c" "c_codec (on_group m c) = c_codec c"
  "c_type (on_mem c) = c_type c" "c_type (on_group m c) = c_type c"
  "c_aliasOps (on_mem c) = None" "c_aliasOps (on_group m c) = Some (mem_alias_ops m)"
  "fullKey (on_mem c) k = fullKey c k"
  "solo_flight (on_mem c) = solo_flight c" "solo_flight (on_group m c) = solo_flight c"
  "config_ok (on_mem c) = config_ok c" "config_ok (on_group m c) = config_ok c"
  "finite_ttl (on_mem c) = finite_ttl c" "finite_ttl (on_group m c) = finite_ttl c"
  "max_ttl (on_mem c) = max_ttl c" "max_ttl (on_group m c) = max_ttl c"
  "codec_ok (on_mem c) v b = codec_ok c v b" "codec_ok (on_group m c) v b = codec_ok c v b"
  "cached_answer (on_mem c) got = cached_answer c got"
  "cached_answer (on_group m c) got = cached_answer c got"
  "within_ttl (on_mem c) d t t' = within_ttl c d t t'"
  "within_ttl (on_group m c) d t t' = within_ttl c d t t'"
  by (simp_all add: on_mem_def on_group_def fullKey_def solo_flight_def config_ok_def finite_ttl_def
      max_ttl_def codec_ok_def cached_answer_def within_ttl_def split: sum.splits)

subsection \<open>Batch reads\<close>

lemma get_many_read_each:
  assumes "\<And>k. fmlookup out' k = fmlookup out (fullKey c k)"
    and "\<And>fk. fmlookup out fk \<noteq> None \<Longrightarrow> fk \<in> fullKey c ` S"
  shows "\<exists>got got'. get_many_loop (map (fullKey c) ks) out (w_store w) =
        (Inr got, w_store (snd (read_each_loop (on_mem c) ks out' w))) \<and>
      read_each_loop (on_mem c) ks out' w =
        (got', w\<lparr>w_store := w_store (snd (read_each_loop (on_mem c) ks out' w))\<rparr>) \<and>
      (\<forall>k. fmlookup got' k = fmlookup got (fullKey c k)) \<and>
      (\<forall>fk. fmlookup got fk \<noteq> None \<longrightarrow> fk \<in> fullKey c ` (S \<union> set ks))"
  using assms
proof (induction ks arbitrary: out out' w S)
  case Nil
  then show ?case by auto
next
  case (Cons q ks)
  let ?w = "w\<lparr>w_store := snd (mem_Get (fullKey c q) (w_store w))\<rparr>"
  let ?u = "\<lambda>k m. case mem.visible (w_store w) (fullKey c q) of Some b \<Rightarrow> fmupd k b m | None \<Rightarrow> m"
  have g: "getValue (on_mem c) q w = (fst (mem_Get (fullKey c q) (w_store w)), ?w)"
    by (simp add: getValue_def on_mem_def on_store_def fullKey_def case_prod_unfold Let_def)
  have step: "read_each_loop (on_mem c) (q # ks) out' w = read_each_loop (on_mem c) ks (?u q out') ?w"
    using mem_Get_cases [of "fullKey c q" "w_store w"] by (auto simp: g)
  have "\<exists>got got'. get_many_loop (map (fullKey c) ks) (?u (fullKey c q) out) (w_store ?w) =
        (Inr got, w_store (snd (read_each_loop (on_mem c) ks (?u q out') ?w))) \<and>
      read_each_loop (on_mem c) ks (?u q out') ?w =
        (got', ?w\<lparr>w_store := w_store (snd (read_each_loop (on_mem c) ks (?u q out') ?w))\<rparr>) \<and>
      (\<forall>k. fmlookup got' k = fmlookup got (fullKey c k)) \<and>
      (\<forall>fk. fmlookup got fk \<noteq> None \<longrightarrow> fk \<in> fullKey c ` (insert q S \<union> set ks))"
  proof (rule Cons.IH)
    show "fmlookup (?u q out') k = fmlookup (?u (fullKey c q) out) (fullKey c k)" for k
      using Cons.prems(1) by (auto split: option.splits)
    show "fmlookup (?u (fullKey c q) out) fk \<noteq> None \<Longrightarrow> fk \<in> fullKey c ` insert q S" for fk
      using Cons.prems(2) [of fk] by (auto split: option.splits if_splits)
  qed
  then show ?case
    by (simp add: step get_many_loop_Cons del: read_each_loop.simps(2))
qed

lemma mem_batch_is_loop:
  assumes "range_ok (w_range w)"
  shows "readManyRaw (on_mem c) ks w = read_each_loop (on_mem c) ks fmempty w"
proof -
  let ?w1 = "snd (read_each_loop (on_mem c) ks fmempty w)"
  obtain got got' where g:
    "get_many_loop (map (fullKey c) ks) fmempty (w_store w) = (Inr got, w_store ?w1)"
    "read_each_loop (on_mem c) ks fmempty w = (got', w\<lparr>w_store := w_store ?w1\<rparr>)"
    "\<And>k. fmlookup got' k = fmlookup got (fullKey c k)"
    "\<And>fk. fmlookup got fk \<noteq> None \<Longrightarrow> fk \<in> fullKey c ` set ks"
    using get_many_read_each [of fmempty fmempty c "{}" ks w] by auto
  have fk: "fst (full_keys (on_mem c) ks [] fmempty) = map (fullKey c) ks"
    "fmlookup (snd (full_keys (on_mem c) ks [] fmempty)) (fullKey c k) = (if k \<in> set ks then Some k else None)" for k
    using full_keys_spec [of "on_mem c" ks "[]" fmempty] by simp_all
  have "logical_loop (snd (full_keys (on_mem c) ks [] fmempty)) got (w_range w (fmdom got)) fmempty = got'"
  proof (rule fmap_eqI)
    fix k
    have "\<exists>k. x = fullKey c k \<and> fmlookup (snd (full_keys (on_mem c) ks [] fmempty)) x = Some k"
      if "x \<in> set (w_range w (fmdom got))" for x
    proof -
      from that assms have "fmlookup got x \<noteq> None" by (auto simp: fmlookup_dom_iff)
      with g(4) obtain q where "x = fullKey c q" "q \<in> set ks" by blast
      with fk(2) show ?thesis by auto
    qed
    then show "fmlookup (logical_loop (snd (full_keys (on_mem c) ks [] fmempty)) got
        (w_range w (fmdom got)) fmempty) k = fmlookup got' k"
      using assms g(3) [of k] by (subst logical_loop_spec) (auto simp: fmlookup_dom_iff)
  qed
  then show ?thesis
    using g(1,2) fk(1)
    by (simp add: readManyRaw_def c_isAliasGroup_def on_mem_def on_store_def mem_GetMany_def
        case_prod_unfold Let_def)
qed

subsection \<open>The two instances\<close>

interpretation plain: value_client
  "\<lambda>k. mem_Get (fullKey c k)" "\<lambda>k. mem_Set (fullKey c k)" "\<lambda>k. mem_Delete (fullKey c k)"
  "\<lambda>s k. mem_entries s (fullKey c k)" mem_now mem_inv deadline 1 1 "on_mem c"
  for c :: "('v, memstore, 'x) Cache"
proof unfold_locales
  fix s k k' b d and ttl t :: int
  show "1 \<le> ttl \<Longrightarrow> \<exists>d. deadline t ttl = Some d \<and> t + ttl < d + 1 \<and> d < t + ttl + 1"
    by (rule mem.expiry_close)
  show "getValue (on_mem c) k = on_store (mem_Get (fullKey c k))"
    "setValue (on_mem c) k b ttl = on_store (mem_Set (fullKey c k) b ttl)"
    "deleteValue (on_mem c) k = on_store (mem_Delete (fullKey c k))"
    by (simp_all add: getValue_def setValue_def deleteValue_def on_mem_def fullKey_def fun_eq_iff)
  assume inv: "mem_inv s"
  note [simp] = inv
  show "fst (mem_Get (fullKey c k) s) =
      (case mem_entries s (fullKey c k) of
         None \<Rightarrow> Inl ErrStoreMiss
       | Some (b, d) \<Rightarrow> if expired_at d (mem_now s) then Inl ErrStoreMiss else Inr b)"
    by (rule mem_Get_fst)
  show "k' \<noteq> k \<Longrightarrow> mem_entries (snd (mem_Get (fullKey c k) s)) (fullKey c k') = mem_entries s (fullKey c k')"
    by (simp add: mem.get_frame)
  show "mem_entries s (fullKey c k) = Some (b, d) \<Longrightarrow> \<not> expired_at d (mem_now s) \<Longrightarrow>
      mem_entries (snd (mem_Get (fullKey c k) s)) (fullKey c k) = Some (b, d)"
    by (simp add: mem.get_keeps)
  show "mem_entries (snd (mem_Get (fullKey c k) s)) (fullKey c k) = None \<or>
      mem_entries (snd (mem_Get (fullKey c k) s)) (fullKey c k) = mem_entries s (fullKey c k)"
    by (simp add: mem.get_drops)
  show "fst (mem_Set (fullKey c k) b ttl s) = None" "fst (mem_Delete (fullKey c k) s) = None" by simp_all
  show "mem_entries (snd (mem_Set (fullKey c k) b ttl s)) (fullKey c k) = Some (b, deadline (mem_now s) ttl)"
    "k' \<noteq> k \<Longrightarrow> mem_entries (snd (mem_Set (fullKey c k) b ttl s)) (fullKey c k') = mem_entries s (fullKey c k')"
    "(\<lambda>k'. mem_entries (snd (mem_Delete (fullKey c k) s)) (fullKey c k')) =
      (\<lambda>k. mem_entries s (fullKey c k))(k := None)"
    by (auto simp: mem_Set_entries mem.delete_entries fun_eq_iff)
  show "mem_inv (snd (mem_Get (fullKey c k) s)) \<and> mem_now s \<le> mem_now (snd (mem_Get (fullKey c k) s))"
    "mem_inv (snd (mem_Set (fullKey c k) b ttl s)) \<and> mem_now s \<le> mem_now (snd (mem_Set (fullKey c k) b ttl s))"
    "mem_inv (snd (mem_Delete (fullKey c k) s)) \<and> mem_now s \<le> mem_now (snd (mem_Delete (fullKey c k) s))"
    using mem.get_inv [OF inv] mem.set_inv [OF inv] mem.delete_inv [OF inv] by simp_all
qed

interpretation plain: cache_client
  "\<lambda>k. mem_Get (fullKey c k)" "\<lambda>k. mem_Set (fullKey c k)" "\<lambda>k. mem_Delete (fullKey c k)"
  "\<lambda>s k. mem_entries s (fullKey c k)" mem_now mem_inv deadline 1 1 "on_mem c"
  for c :: "('v, memstore, 'x) Cache"
proof unfold_locales
  fix w :: "(memstore, 'x) world" and ks
  assume "mem_inv (w_store w)" "range_ok (w_range w)"
  then show "\<exists>s'. snd (readManyRaw (on_mem c) ks w) = w\<lparr>w_store := s'\<rparr> \<and>
      value_client.only_read (\<lambda>s k. mem_entries s (fullKey c k)) mem_now mem_inv (set ks) (w_store w) s'"
    using plain.read_each_only_reads [of w c ks fmempty] by (simp add: mem_batch_is_loop)
next
  fix w :: "(memstore, 'x) world" and ks :: "string list" and k
  assume "mem_inv (w_store w)" "range_ok (w_range w)" "distinct ks" "k \<in> set ks"
  then show "\<exists>t. mem_now (w_store w) \<le> t \<and> t \<le> mem_now (w_store (snd (readManyRaw (on_mem c) ks w))) \<and>
      fmlookup (fst (readManyRaw (on_mem c) ks w)) k = readable_at t (mem_entries (w_store w) (fullKey c k))"
    using plain.read_each_batch [of w ks k c] by (simp add: mem_batch_is_loop)
qed

definition group_entries :: "memAliasOps \<Rightarrow> memstore \<Rightarrow> string \<Rightarrow> (bytes \<times> int option) option" where
  "group_entries m s pk = mem_entries s (valueKey m pk)"

lemma mao_GetValue_fst:
  "fst (mao_GetValue m pk s) =
     (case group_entries m s pk of
        None \<Rightarrow> Inl ErrStoreMiss
      | Some (b, d) \<Rightarrow> if expired_at d (mem_now s) then Inl ErrStoreMiss else Inr b)"
  by (auto simp: mao_GetValue_def group_entries_def mem_entries_def case_prod_unfold Let_def split: option.splits)

lemma group_entries_abs: "group_entries m s pk = map_option (\<lambda>e. (e_val e, e_expiresAt e)) (vals (mem_abs m s) pk)"
  by (simp add: group_entries_def mem_entries_def)

lemma group_entries_ops:
  "group_entries m (snd (mao_GetValue m pk s)) = group_entries m s"
  "mem_inv s \<Longrightarrow> group_entries m (snd (mao_PutValue m pk b ttl s)) =
     (group_entries m s)(pk \<mapsto> (b, deadline (mem_now s) ttl))"
  "mem_inv s \<Longrightarrow> group_entries m (snd (mao_EvictByPrimary m pk s)) = (group_entries m s)(pk := None)"
  by (auto simp only: group_entries_abs mao_GetValue_abs mao_PutValue_abs mao_EvictByPrimary_abs fun_eq_iff
      g_read_frame g_PutValue_def g_refresh_simps g_write_simps g_evict_simps mem_abs_sel
      fun_upd_apply option.map entry.simps split: if_splits)

interpretation grp: value_client
  "mao_GetValue m" "mao_PutValue m" "mao_EvictByPrimary m" "group_entries m" mem_now mem_inv deadline 1 1 "on_group m c"
  for m :: memAliasOps and c :: "('v, memstore, 'x) Cache"
proof unfold_locales
  fix s k k' b d and ttl t :: int
  show "1 \<le> ttl \<Longrightarrow> \<exists>d. deadline t ttl = Some d \<and> t + ttl < d + 1 \<and> d < t + ttl + 1"
    by (rule mem.expiry_close)
  show "getValue (on_group m c) k = on_store (mao_GetValue m k)"
    "setValue (on_group m c) k b ttl = on_store (mao_PutValue m k b ttl)"
    "deleteValue (on_group m c) k = on_store (mao_EvictByPrimary m k)"
    by (simp_all add: getValue_def setValue_def deleteValue_def mem_alias_ops_def)
  assume inv: "mem_inv s"
  show "fst (mao_GetValue m k s) =
      (case group_entries m s k of
         None \<Rightarrow> Inl ErrStoreMiss
       | Some (b, d) \<Rightarrow> if expired_at d (mem_now s) then Inl ErrStoreMiss else Inr b)"
    by (rule mao_GetValue_fst)
  show "k' \<noteq> k \<Longrightarrow> group_entries m (snd (mao_GetValue m k s)) k' = group_entries m s k'"
    "group_entries m s k = Some (b, d) \<Longrightarrow> \<not> expired_at d (mem_now s) \<Longrightarrow>
      group_entries m (snd (mao_GetValue m k s)) k = Some (b, d)"
    "group_entries m (snd (mao_GetValue m k s)) k = None \<or>
      group_entries m (snd (mao_GetValue m k s)) k = group_entries m s k"
    by (simp_all add: group_entries_ops)
  show "fst (mao_PutValue m k b ttl s) = None" "fst (mao_EvictByPrimary m k s) = None"
    by (rule mao_PutValue_abs mao_EvictByPrimary_abs, rule inv)+
  show "group_entries m (snd (mao_PutValue m k b ttl s)) k = Some (b, deadline (mem_now s) ttl)"
    "k' \<noteq> k \<Longrightarrow> group_entries m (snd (mao_PutValue m k b ttl s)) k' = group_entries m s k'"
    by (simp_all add: group_entries_ops(2) [OF inv])
  show "group_entries m (snd (mao_EvictByPrimary m k s)) = (group_entries m s)(k := None)"
    by (rule group_entries_ops, rule inv)
  show "mem_inv (snd (mao_GetValue m k s)) \<and> mem_now s \<le> mem_now (snd (mao_GetValue m k s))"
    "mem_inv (snd (mao_PutValue m k b ttl s)) \<and> mem_now s \<le> mem_now (snd (mao_PutValue m k b ttl s))"
    "mem_inv (snd (mao_EvictByPrimary m k s)) \<and> mem_now s \<le> mem_now (snd (mao_EvictByPrimary m k s))"
    using inv by (simp_all add: later_inv [of s] later_now)
qed

interpretation grp: cache_client
  "mao_GetValue m" "mao_PutValue m" "mao_EvictByPrimary m" "group_entries m" mem_now mem_inv deadline 1 1 "on_group m c"
  for m :: memAliasOps and c :: "('v, memstore, 'x) Cache"
proof unfold_locales
  fix w :: "(memstore, 'x) world" and ks
  assume "mem_inv (w_store w)"
  then show "\<exists>s'. snd (readManyRaw (on_group m c) ks w) = w\<lparr>w_store := s'\<rparr> \<and>
      value_client.only_read (group_entries m) mem_now mem_inv (set ks) (w_store w) s'"
    using grp.read_each_only_reads [of w m c ks fmempty] by (simp add: readManyRaw_def c_isAliasGroup_def)
next
  fix w :: "(memstore, 'x) world" and ks :: "string list" and k
  assume "mem_inv (w_store w)" "distinct ks" "k \<in> set ks"
  then show "\<exists>t. mem_now (w_store w) \<le> t \<and> t \<le> mem_now (w_store (snd (readManyRaw (on_group m c) ks w))) \<and>
      fmlookup (fst (readManyRaw (on_group m c) ks w)) k = readable_at t (group_entries m (w_store w) k)"
    using grp.read_each_batch [of w ks k m c] by (simp add: readManyRaw_def c_isAliasGroup_def)
qed

lemma mem_storable [simp]:
  "cache_client.storable 1 (on_mem c) base" "cache_client.storable 1 (on_group m c) base"
  "cache_client.ttls_ok 1 (on_mem c) \<longleftrightarrow> finite_ttl c" "cache_client.ttls_ok 1 (on_group m c) \<longleftrightarrow> finite_ttl c"
  by (simp_all add: plain.storable_def grp.storable_def plain.ttls_ok_def grp.ttls_ok_def)

end
