(* ===== verification/Store_Props.thy ===== *)
theory Store_Props
  imports Mem_Concurrency Mem_Cache
begin

text \<open>
  The properties of the key layout (\<open>Keyspace\<close>), the TTL jitter (\<open>Jitter\<close>) and the memory store
  (\<open>Memstore\<close>).
\<close>

subsection \<open>Keys\<close>

text \<open>C40: Reading a primary key back.  \<open>PrimaryFromValueKey\<close> and \<open>PrimaryFromMembersKey\<close> answer with
  \<open>pk\<close> exactly for the key that the builder makes of \<open>pk\<close>; a prefix match contains exactly the keys
  of the primaries that start with the prefix; and value, members and pointer keys never coincide.\<close>

theorem primary_round_trip:
  "(PrimaryFromValueKey ns key sh = (pk, True) \<longleftrightarrow> key = ValueKey ns pk sh) \<and>
   (PrimaryFromMembersKey ns key sh = (pk, True) \<longleftrightarrow> key = MembersKey ns pk sh) \<and>
   (Match_Contains (ValueMatch ns p sh) key \<longleftrightarrow> (\<exists>q. key = ValueKey ns q sh \<and> prefix p q)) \<and>
   (Match_Contains (MembersMatch ns p sh) key \<longleftrightarrow> (\<exists>q. key = MembersKey ns q sh \<and> prefix p q)) \<and>
   ValueKey ns pk sh \<noteq> MembersKey ns' pk' sh' \<and> ValueKey ns pk sh \<noteq> PointerKey ns' f v sh' \<and>
   MembersKey ns pk sh \<noteq> PointerKey ns' f v sh'"
  by (auto simp: PrimaryFromValueKey_True_iff PrimaryFromMembersKey_True_iff ValueMatch_Contains_iff
      MembersMatch_Contains_iff HasPrefix_def)

text \<open>Namespaces do not meet.  A key that any builder makes for one plain namespace (no colon or
  brace, not a reserved segment) is made by no builder for another, and is not matched by the other's
  prefix eviction, whatever the two caches' kinds, slot modes and keys.\<close>

theorem namespaces_disjoint:
  assumes "plain_ns ns" "plain_ns ns'" "ns \<noteq> ns'" "owned_by ns key"
  shows "\<not> owned_by ns' key \<and> \<not> HasPrefix key (NonAliasKeyPrefix ns' p)"
  using owned_by_unique [OF assms(1,2,4)] NonAliasKeyPrefix_owned [OF assms(2,1,4), of p] assms(3) by blast

theorem namespaces_disjoint_witness:
  "\<not> HasPrefix (ValueKey ''user'' ''7'' True) (NonAliasKeyPrefix ''order'' ''7'')"
proof -
  have "plain_ns ''user''" "plain_ns ''order''" "''user'' \<noteq> ''order''"
    by (simp_all add: plain_ns_def grpSeg_def membSeg_def)
  from namespaces_disjoint [OF this, of "ValueKey ''user'' ''7'' True" "''7''"] show ?thesis by simp
qed

text \<open>Where namespaces do meet.  The separator is not escaped: an entry of the cache whose prefix
  is \<open>ns::p\<close> has the same storage key as an entry of the cache \<open>ns\<close>, so that \<open>EvictByKeyPrefix\<close>
  of the latter with a prefix of \<open>p\<close> also matches the entries of the former.\<close>

theorem namespaces_collide:
  "NonAliasKey (ns @ ''::'' @ p @ q) k = NonAliasKey ns (p @ q @ ''::'' @ k) \<and>
   HasPrefix (NonAliasKey (ns @ ''::'' @ p @ q) k) (NonAliasKeyPrefix ns p)"
  by (simp add: NonAliasKey_def NonAliasKeyPrefix_def HasPrefix_def)

text \<open>Slots.  In a Redis Cluster all keys of a colocated entity hash to one text, that of the
  namespace, and the value and members key of a sharded record hash to one text, that of the record.\<close>

theorem colocated_one_slot:
  assumes "ns \<noteq> []" "hd ns \<noteq> CHR ''}''"
  shows "hash_tag (MembersKey ns pk' False) = hash_tag (ValueKey ns pk False) \<and>
    hash_tag (PointerKey ns f v False) = hash_tag (ValueKey ns pk False) \<and>
    hash_tag (MembersKey ns pk True) = hash_tag (ValueKey ns pk True)"
  using colocated_hash_tag [OF assms] sharded_hash_tag [OF assms] by simp

theorem colocated_one_slot_witness:
  "hash_tag (PointerKey ''user'' ''email'' ''a'' False) = hash_tag (ValueKey ''user'' ''7'' False)"
  using colocated_one_slot [of "''user''"] by simp

subsection \<open>Jitter\<close>

text \<open>C33: Jitter only shortens.  For a positive \<open>int64\<close> base and a fraction in \<open>[0, 1)\<close> the jittered
  TTL is positive and at most the base, in the double arithmetic of the code; a finite TTL therefore
  never turns into one that a store reads as \<open>no expiry\<close>.  Up to \<open>2\<^sup>5\<^sup>3\<close> nanoseconds (104 days) it is
  also at least \<open>(1 - fraction) * base\<close>, as the comment says.\<close>

theorem jitter_bounds:
  assumes "rand_ok rs" "is_unit_float (Fin f)" "0 < base" "base < 2 ^ 63"
  shows "0 < fst (applyJitter cvt base (Fin f) rs) \<and> fst (applyJitter cvt base (Fin f) rs) \<le> base \<and>
    (base \<le> 2 ^ 53 \<longrightarrow> (1 - f) * of_int base \<le> of_int (fst (applyJitter cvt base (Fin f) rs)))"
  using applyJitter_bounds [OF assms] applyJitter_lower [of rs f base cvt] assms
  by (auto simp: rand_ok_def)

theorem jitter_bounds_witness:
  "0 < fst (applyJitter (\<lambda>_. 0) 1000 (Fin (1 / 2)) (\<lambda>_. Fin (1 / 2))) \<and>
   fst (applyJitter (\<lambda>_. 0) 1000 (Fin (1 / 2)) (\<lambda>_. Fin (1 / 2))) \<le> 1000"
proof -
  have "is_double (1 / 2)" using is_doubleI [of 1 "-1"] by (simp add: power_int_def)
  then have "is_unit_float (Fin (1 / 2))" unfolding is_unit_float_def by fastforce
  then show ?thesis
    using jitter_bounds [of "\<lambda>_. Fin (1 / 2)" "1 / 2" 1000 "\<lambda>_. 0"] by (simp add: rand_ok_def)
qed

text \<open>A NaN fraction.  \<open>Register\<close> rejects a fraction below zero or at least one; NaN is neither.  The
  jittered TTL is then the base minus whatever this machine makes of the conversion of NaN to an
  integer; where that is the least \<open>int64\<close>, every TTL becomes negative, and a store keeps the entry
  for ever.\<close>

theorem jitter_nan:
  assumes "0 < base" "base < 2 ^ 63" "cvt NaN = - (2 ^ 63)"
  shows "\<not> (f64_less NaN (Fin 0) \<or> f64_le (Fin 1) NaN) \<and> fst (applyJitter cvt base NaN rs) < 0"
proof -
  have m: "f64_mul (f64_mul (rs 0) NaN) (f64_of_int base) = NaN"
    by (cases "rs 0"; cases "f64_of_int base") simp_all
  have "fst (applyJitter cvt base NaN rs) = wrap64 (base + 2 ^ 63)"
    using assms(1,3) m by (simp add: applyJitter_def f64_le_def int64_of_f64_def Let_def)
  also have "\<dots> = base - 2 ^ 63"
    using assms(1,2) by (simp add: wrap64_def)
  finally show ?thesis using assms(2) by (simp add: f64_le_def)
qed

theorem jitter_nan_witness:
  "fst (applyJitter (\<lambda>_. - (2 ^ 63)) 1000 NaN (\<lambda>_. Fin 0)) < 0"
  using jitter_nan [of 1000 "\<lambda>_. - (2 ^ 63)" "\<lambda>_. Fin 0"] by simp

subsection \<open>The memory store\<close>

text \<open>Expiry is exact.  After \<open>Set\<close>, for as long as nothing else writes the key, \<open>Get\<close> returns the
  bytes and \<open>Exists\<close> says so up to and including the deadline, and both miss after it; with a TTL of
  zero or less the entry never expires.\<close>

theorem set_get_exact:
  assumes "mem_inv s" "later (snd (mem_Set k b ttl s)) s'"
    and "fmlookup (data s') k = fmlookup (data (snd (mem_Set k b ttl s))) k"
  shows "fst (mem_Get k s') =
      (if 0 < ttl \<and> mem_now s + ttl < mem_now s' then Inl ErrStoreMiss else Inr b) \<and>
    fst (mem_Exists k s') = Inr (\<not> (0 < ttl \<and> mem_now s + ttl < mem_now s'))"
  using assms(3)
  by (auto simp: mem_Get_fst mem_Exists_fst mem.visible_def mem_entries_def deadline_def)

theorem set_get_exact_witness:
  "fst (mem_Get ''k'' (snd (mem_Set ''k'' ''v'' 5 (mem_New int sorted_list_of_fset)))) = Inr ''v''"
  using set_get_exact [of "mem_New int sorted_list_of_fset" "''k''" "''v''" 5
      "snd (mem_Set ''k'' ''v'' 5 (mem_New int sorted_list_of_fset))"]
  by (simp add: mem_Set_clock)

text \<open>Prefix deletion.  \<open>DeleteByPrefix\<close> removes exactly the keys that start with the prefix, expired
  or not, whatever order \<open>range\<close> takes, keeps the bookkeeping of alias groups, never fails, and counts
  the removed entries that had not expired: no more than were live when it started, no fewer than are
  live when it ends.\<close>

theorem delete_by_prefix_exact:
  assumes "mem_inv s" "mem_DeleteByPrefix p s = ((n, err), s')"
  shows "err = None \<and> members s' = members s \<and>
    (\<forall>k. fmlookup (data s') k = (if prefix p k then None else fmlookup (data s) k)) \<and>
    n \<le> int (card {k. prefix p k \<and> (\<exists>e. fmlookup (data s) k = Some e \<and>
                      \<not> expired_at (e_expiresAt e) (mem_now s))}) \<and>
    int (card {k. prefix p k \<and> (\<exists>e. fmlookup (data s) k = Some e \<and>
                      \<not> expired_at (e_expiresAt e) (mem_now s'))}) \<le> n"
proof -
  have u: "unexpired_with_prefix (data s) p t = {k. prefix p k \<and> (\<exists>e. fmlookup (data s) k = Some e \<and>
      \<not> expired_at (e_expiresAt e) t)}" for t
    by (auto simp: unexpired_with_prefix_def HasPrefix_def fmlookup_dom'_iff)
  show ?thesis
    using mem_DeleteByPrefix_simps [OF assms(1), of p] mem_DeleteByPrefix_count [OF assms(1), of p] assms(2)
    unfolding u by (auto simp: HasPrefix_def)
qed

theorem delete_by_prefix_exact_witness:
  "\<forall>k. fmlookup (data (snd (mem_DeleteByPrefix ''a'' (snd (mem_Set ''ab'' ''v'' 0
     (mem_New int sorted_list_of_fset)))))) k = None"
proof -
  let ?s = "snd (mem_Set ''ab'' ''v'' 0 (mem_New int sorted_list_of_fset))"
  have i: "mem_inv ?s" by (simp add: mem.set_inv)
  show ?thesis
    using delete_by_prefix_exact [OF i, of "''a''" "fst (fst (mem_DeleteByPrefix ''a'' ?s))"
        "snd (fst (mem_DeleteByPrefix ''a'' ?s))" "snd (mem_DeleteByPrefix ''a'' ?s)"]
    by simp
qed

end
