(* ===== verification/Cache_Run.thy ===== *)
theory Cache_Run
  imports Mem_Cache
begin

text \<open>
  Sequences of operations on one cache.  \<open>cache_step env c K\<close> is one call of a cache operation
  that names at most the keys \<open>K\<close>, a change of the source of truth, or a step of the rest of
  the program (\<open>env\<close>) on the store; \<open>cache_run\<close> is a sequence of them.  A run leaves the entries
  of the keys it does not name alone and keeps every deadline within the TTL.
\<close>

inductive cache_step ::
  "('s \<Rightarrow> 's \<Rightarrow> bool) \<Rightarrow> ('v, 's, 'x) Cache \<Rightarrow> string set \<Rightarrow> ('s, 'x) world \<Rightarrow> ('s, 'x) world \<Rightarrow> bool"
  for env c where
  s_get: "cache_step env c {k} w (snd (GetByKey c k loader w))"
| s_put: "cache_step env c {k} w (snd (PutByKey c k writer w))"
| s_put_value: "cache_step env c {k} w (snd (PutValueByKey c k v w))"
| s_evict: "cache_step env c {k} w (snd (EvictByKey c k w))"
| s_evict_many: "cache_step env c (set ks) w (snd (EvictManyByKey c ks w))"
| s_get_many: "cache_step env c (set ks) w (snd (GetManyByKey c ks load w))"
| s_app: "cache_step env c {} w (w\<lparr>w_app := x\<rparr>)"
| s_env: "env (w_store w) s \<Longrightarrow> cache_step env c {} w (w\<lparr>w_store := s\<rparr>)"

inductive cache_run ::
  "('s \<Rightarrow> 's \<Rightarrow> bool) \<Rightarrow> ('v, 's, 'x) Cache \<Rightarrow> string set \<Rightarrow> ('s, 'x) world \<Rightarrow> ('s, 'x) world \<Rightarrow> bool"
  for env c where
  run_nil: "cache_run env c {} w w"
| run_step: "cache_run env c K w w1 \<Longrightarrow> cache_step env c K' w1 w2 \<Longrightarrow> cache_run env c (K \<union> K') w w2"

text \<open>The value-derived operations are runs of the key operations, with the same effect.\<close>

lemma derived_step:
  "\<exists>K. cache_step env c K w (snd (PutValue c v w)) \<or> snd (PutValue c v w) = w"
  "\<exists>K. cache_step env c K w (snd (Evict c v w)) \<or> snd (Evict c v w) = w"
  by (auto simp: PutValue_def Evict_def split: sum.splits intro: cache_step.intros)

text \<open>No operation changes the order in which \<open>range\<close> visits a map.\<close>

lemma GetByKey_range: "solo_flight c \<Longrightarrow> w_range (snd (GetByKey c k loader w)) = w_range w"
  by (auto simp: GetByKey_eq case_prod_unfold Let_def split: option.splits)

lemma PutByKey_range: "w_range (snd (PutByKey c k writer w)) = w_range w"
  by (auto simp: PutByKey_eq case_prod_unfold Let_def split: option.splits)

lemma EvictManyByKey_range: "w_range (snd (EvictManyByKey c ks w)) = w_range w"
proof -
  have "w_range (snd (evict_many_loop c ks errs w)) = w_range w" for errs w
    by (induction ks arbitrary: errs w) (auto simp: case_prod_unfold Let_def)
  then show ?thesis by (simp add: EvictManyByKey_def case_prod_unfold Let_def)
qed

lemma GetManyByKey_range: "w_range (snd (GetManyByKey c keys load w)) = w_range w"
proof -
  obtain raw w1 where r: "readManyRaw c (dedupKeys keys) w = (raw, w1)" by (cases "readManyRaw c (dedupKeys keys) w")
  obtain result missing w2 where s: "split_loop c raw (dedupKeys keys) fmempty [] w1 = ((result, missing), w2)"
    by (metis prod.exhaust)
  have "w_range w2 = w_range w"
    using readManyRaw_frame(4) [of c "dedupKeys keys" w] r split_loop_spec(6) [OF s] by simp
  then show ?thesis
    by (auto simp: GetManyByKey_def splitHitsAndMisses_def r s case_prod_unfold Let_def populateLoaded_world
        split: option.splits)
qed

lemma step_range:
  assumes "cache_step env c K w w'" "solo_flight c" shows "w_range w' = w_range w"
  using assms
  by cases (simp_all add: GetByKey_range PutByKey_range EvictManyByKey_range GetManyByKey_range EvictByKey_def
      PutValueByKey_def case_prod_unfold Let_def split: sum.splits)

lemma run_range:
  assumes "cache_run env c K w w'" "solo_flight c" shows "w_range w' = w_range w"
  using assms by induction (simp_all add: step_range)

context timed_store
begin

definition env_ok :: "('s \<Rightarrow> 's \<Rightarrow> bool) \<Rightarrow> bool" where
  "env_ok env \<longleftrightarrow> (\<forall>s s'. env s s' \<longrightarrow> inv s \<longrightarrow>
     inv s' \<and> now s \<le> now s' \<and> (\<forall>k. entries s' k = entries s k))"

text \<open>The relation every operation keeps: same invariant, later, other keys the same.\<close>

definition frame :: "string set \<Rightarrow> 's \<Rightarrow> 's \<Rightarrow> bool" where
  "frame K s s' \<longleftrightarrow> inv s' \<and> now s \<le> now s' \<and> (\<forall>k. k \<notin> K \<longrightarrow> entries s' k = entries s k)"

lemma frame_refl: "inv s \<Longrightarrow> frame K s s"
  by (simp add: frame_def)

lemma frame_trans: "frame K s t \<Longrightarrow> frame K' t u \<Longrightarrow> frame (K \<union> K') s u"
  by (auto simp: frame_def)

lemma frame_trans_same: "frame K s t \<Longrightarrow> frame K t u \<Longrightarrow> frame K s u"
  using frame_trans [of K s t K u] by simp

lemma frame_mono: "frame K s t \<Longrightarrow> K \<subseteq> K' \<Longrightarrow> frame K' s t"
  by (auto simp: frame_def)

lemma frame_inv: "frame K s t \<Longrightarrow> inv t"
  by (simp add: frame_def)

end

context cache_client
begin

lemma frame_value:
  "inv (w_store w) \<Longrightarrow> frame {k} (w_store w) (w_store (snd (getValue c k w)))"
  "inv (w_store w) \<Longrightarrow> frame {k} (w_store w) (w_store (snd (setValue c k b ttl w)))"
  "inv (w_store w) \<Longrightarrow> frame {k} (w_store w) (w_store (snd (deleteValue c k w)))"
  using get_inv set_inv delete_inv
  by (auto simp: frame_def get_impl set_impl delete_impl get_frame set_other delete_entries)

lemma frame_store:
  assumes "inv (w_store w)"
  shows "frame {k} (w_store w) (w_store (snd (store_value c k v w)))"
    and "frame {k} (w_store w) (w_store (snd (store_negative c k w)))"
  using assms frame_value(2) [of "snd (positiveTTL c w)" k] frame_value(2) [of "snd (negativeTTL c w)" k]
  by (auto simp: store_value_def store_negative_def case_prod_unfold Let_def frame_refl split: sum.splits)

lemma frame_load_effect:
  "inv (w_store w) \<Longrightarrow> frame {k} (w_store w) (w_store (snd (load_effect c k r w)))"
  by (auto simp: load_effect_def frame_store frame_refl split: prod.splits option.splits)

lemma frame_GetByKey:
  assumes "inv (w_store w)" "solo_flight c"
  shows "frame {k} (w_store w) (w_store (snd (GetByKey c k loader w)))"
proof -
  note g = frame_value(1) [OF assms(1), of k]
  have L: "frame {k} (w_store w) (w_store (snd (load_effect c k r (snd (timed_load c l (snd (getValue c k w)))))))"
    for r l
    by (rule frame_trans_same [OF g])
      (use frame_load_effect [of "snd (timed_load c l (snd (getValue c k w)))" k r] frame_inv [OF g] in simp)
  show ?thesis
    using g L [of "fst (loader (w_app w))" loader]
    by (auto simp: GetByKey_eq [OF assms(2)] case_prod_unfold Let_def split: option.splits)
qed

lemma frame_PutByKey:
  "inv (w_store w) \<Longrightarrow> frame {k} (w_store w) (w_store (snd (PutByKey c k writer w)))"
  using frame_store(1) [of "snd (on_app writer w)" k]
  by (auto simp: PutByKey_eq case_prod_unfold Let_def frame_refl split: option.splits)

lemma frame_PutValueByKey:
  "inv (w_store w) \<Longrightarrow> frame {k} (w_store w) (w_store (snd (PutValueByKey c k v w)))"
  using frame_value(2) [of "snd (positiveTTL c w)" k]
  by (auto simp: PutValueByKey_def case_prod_unfold Let_def frame_refl split: sum.splits)

lemma frame_EvictManyByKey:
  assumes "inv (w_store w)"
  shows "frame (set ks) (w_store w) (w_store (snd (EvictManyByKey c ks w)))"
proof -
  have "inv (w_store w) \<Longrightarrow> frame (set ks) (w_store w) (w_store (snd (evict_many_loop c ks errs w)))" for errs w
  proof (induction ks arbitrary: errs w)
    case (Cons k ks)
    note d = frame_value(3) [OF Cons.prems, of k]
    have "frame ({k} \<union> set ks) (w_store w) (w_store (snd (evict_many_loop c ks errs' (snd (deleteValue c k w)))))"
      for errs'
      by (rule frame_trans [OF d Cons.IH]) (rule frame_inv [OF d])
    then show ?case by (auto simp: case_prod_unfold Let_def split: option.splits)
  qed (simp add: frame_refl)
  from this [of "evicted c (int (length ks)) w" "[]"] assms show ?thesis
    by (simp add: EvictManyByKey_def case_prod_unfold Let_def)
qed

lemma only_read_frame: "only_read K s s' \<Longrightarrow> frame K s s'"
  unfolding only_read_def frame_def by blast

lemma frame_populate:
  "inv (w_store w) \<Longrightarrow>
     frame (set ks) (w_store w) (w_store (fold (\<lambda>k. populate_one c k (f k)) ks w))"
proof (induction ks arbitrary: w)
  case (Cons k ks)
  have p: "frame {k} (w_store w) (w_store (populate_one c k (f k) w))"
    using frame_store [OF Cons.prems, of k]
    by (auto simp: populate_one_def case_prod_unfold Let_def split: option.splits)
  have "frame ({k} \<union> set ks) (w_store w)
      (w_store (fold (\<lambda>k. populate_one c k (f k)) ks (populate_one c k (f k) w)))"
    by (rule frame_trans [OF p Cons.IH]) (rule frame_inv [OF p])
  then show ?case by simp
qed (simp add: frame_refl)

lemma frame_GetManyByKey:
  assumes "inv (w_store w)" "range_ok (w_range w)"
  shows "frame (set keys) (w_store w) (w_store (snd (GetManyByKey c keys load w)))"
proof -
  obtain raw w1 where r: "readManyRaw c (dedupKeys keys) w = (raw, w1)" by (cases "readManyRaw c (dedupKeys keys) w")
  obtain s1 where s1: "w1 = w\<lparr>w_store := s1\<rparr>" "only_read (set (dedupKeys keys)) (w_store w) s1"
    using batch_impl [OF assms, of "dedupKeys keys"] unfolding r snd_conv by blast
  have f1: "frame (set keys) (w_store w) (w_store w1)"
    using only_read_frame [OF s1(2)] by (simp add: s1(1))
  obtain result missing w2 where s: "split_loop c raw (dedupKeys keys) fmempty [] w1 = ((result, missing), w2)"
    by (metis prod.exhaust)
  note sp = split_loop_spec [OF s]
  have f2: "frame (set keys) (w_store w) (w_store w2)" using f1 sp(3) by simp
  have m: "set missing \<subseteq> set keys" by (auto simp: sp(1))
  have "frame (set keys) (w_store w) (w_store (fold (\<lambda>k. populate_one c k (f k)) missing
      (snd (timed_load c l w2))))" for f l
    by (rule frame_trans_same [OF f2], rule frame_mono [OF _ m])
      (use frame_populate [of "snd (timed_load c l w2)"] frame_inv [OF f2] in simp)
  then show ?thesis
    using f2 assms
    by (auto simp: GetManyByKey_def splitHitsAndMisses_def r s case_prod_unfold Let_def populateLoaded_world
        frame_refl split: option.splits)
qed

lemma step_frame:
  assumes "cache_step env c K w w'" "inv (w_store w)" "range_ok (w_range w)" "solo_flight c" "env_ok env"
  shows "frame K (w_store w) (w_store w')"
  using assms
proof cases
  case (s_env s)
  with assms show ?thesis by (simp add: env_ok_def frame_def)
qed (simp_all add: frame_GetByKey frame_PutByKey frame_PutValueByKey frame_EvictManyByKey frame_GetManyByKey
    EvictByKey_def frame_value [of "evicted c 1 w", simplified] frame_refl)

lemma step_bounded:
  assumes "cache_step env c K w w'" "bounded w" "ttls_ok" "solo_flight c" "env_ok env"
  shows "bounded w'"
  using assms
proof cases
  case (s_env s)
  with assms boundedD [OF assms(2)] show ?thesis
    by (auto simp: env_ok_def intro!: bounded_drop)
qed (auto simp: bounded_GetByKey bounded_PutByKey bounded_PutValueByKey bounded_EvictByKey
    bounded_EvictManyByKey bounded_GetManyByKey boundedD intro: bounded_same [OF assms(2)])

lemma run_frame:
  assumes "cache_run env c K w w'" "inv (w_store w)" "range_ok (w_range w)" "solo_flight c" "env_ok env"
  shows "frame K (w_store w) (w_store w')"
  using assms
proof induction
  case (run_step K w w1 K' w2)
  then have f: "frame K (w_store w) (w_store w1)" by simp
  have "w_range w1 = w_range w" using run_step by (simp add: run_range)
  then show ?case
    using run_step frame_inv [OF f] by (intro frame_trans [OF f] step_frame) auto
qed (simp add: frame_refl)

lemma run_bounded:
  assumes "cache_run env c K w w'" "bounded w" "ttls_ok" "solo_flight c" "env_ok env"
  shows "bounded w'"
  using assms by (induction) (auto intro: step_bounded)

subsection \<open>What was stored stays readable\<close>

lemma entry_survives:
  assumes "entries (w_store w) k = Some (b, d)" "\<not> expired_at d (now (w_store w'))"
    and "cache_run env c K w w'" "k \<notin> K"
    and "inv (w_store w)" "range_ok (w_range w)" "solo_flight c" "env_ok env"
  shows "visible (w_store w') k = Some b" "inv (w_store w')"
  using run_frame [OF assms(3,5-8)] assms(1,2,4) by (auto simp: frame_def visible_def)

lemma put_run_get:
  assumes "finite_ttl c" "solo_flight c" "env_ok env"
    and "inv (w_store w)" "rand_ok (w_rand w)" "range_ok (w_range w)" "codec_ok c v b"
    and "writer (w_app w) = ((Some v, None), x)" "PutByKey c k writer w = (r, w1)"
    and "cache_run env c K w1 w2" "k \<notin> K"
    and "within_ttl c (o_TTL (c_opts c)) (now (w_store w)) (now (w_store w2) + (grain - 1))"
    and "storable (o_TTL (c_opts c))"
  shows "r = (Some v, Written, None)" "fst (GetByKey c k loader w2) = Ret (Some v, Hit, None)"
    and "w_app (snd (GetByKey c k loader w2)) = w_app w2"
proof -
  have b: "cd_Marshal (c_codec c) (Some v) = Inr b" using assms(7) by (simp add: codec_ok_def)
  note e = put_entry [OF assms(4) b assms(8,9,1,5,13)]
  have rd: "rand_ok (w_rand (snd (on_app writer w)))" using assms(5) by simp
  have "\<not> expired_at (expiry (now (w_store w)) (fst (positiveTTL c (snd (on_app writer w))))) (now (w_store w2))"
    using positiveTTL_reach [OF assms(1) rd assms(12)]
    by (intro expiry_not_yet positiveTTL_least [OF assms(1) rd assms(13)]) simp
  moreover have "range_ok (w_range w1)" using PutByKey_range [of c k writer w] assms(6,9) by simp
  ultimately have s: "visible (w_store w2) k = Some b" "inv (w_store w2)"
    using entry_survives [OF e(4) _ assms(10,11) e(3) _ assms(2,3)] by simp_all
  show "r = (Some v, Written, None)" by (rule e(1))
  show "fst (GetByKey c k loader w2) = Ret (Some v, Hit, None)"
    "w_app (snd (GetByKey c k loader w2)) = w_app w2"
    using GetByKey_cached [OF s(2) cached_value [OF s(1) assms(7)]] by simp_all
qed

lemma load_run_get:
  assumes "finite_ttl c" "solo_flight c" "env_ok env"
    and "inv (w_store w)" "rand_ok (w_rand w)" "range_ok (w_range w)" "codec_ok c v b"
    and "cached (w_store w) k = None"
    and "loader (w_app w) = ((Some v, None), x)" "GetByKey c k loader w = (r, w1)"
    and "cache_run env c K w1 w2" "k \<notin> K"
    and "within_ttl c (o_TTL (c_opts c)) (now (w_store w)) (now (w_store w2) + (grain - 1))"
    and "storable (o_TTL (c_opts c))"
  shows "r = Ret (Some v, Loaded, None)" "w_app w1 = x"
    and "fst (GetByKey c k loader' w2) = Ret (Some v, Hit, None)"
    and "w_app (snd (GetByKey c k loader' w2)) = w_app w2"
proof -
  have b: "cd_Marshal (c_codec c) (Some v) = Inr b" using assms(7) by (simp add: codec_ok_def)
  from load_entry(1) [OF assms(4,2,8,10,5,9) b assms(1,14)] obtain t w0 where
    e: "r = Ret (Some v, Loaded, None)" "w_app w1 = x" "inv (w_store w1)" "now (w_store w) \<le> t"
      "w_rand w0 = w_rand w" "entries (w_store w1) k = Some (b, expiry t (fst (positiveTTL c w0)))" by blast
  have rd: "rand_ok (w_rand w0)" using assms(5) e(5) by simp
  have "\<not> expired_at (expiry t (fst (positiveTTL c w0))) (now (w_store w2))"
    using positiveTTL_reach [OF assms(1) rd assms(13)] e(4)
    by (intro expiry_not_yet positiveTTL_least [OF assms(1) rd assms(14)]) simp
  moreover have "range_ok (w_range w1)" using GetByKey_range [OF assms(2), of k loader w] assms(6,10) by simp
  ultimately have s: "visible (w_store w2) k = Some b" "inv (w_store w2)"
    using entry_survives [OF e(6) _ assms(11,12) e(3) _ assms(2,3)] by simp_all
  show "r = Ret (Some v, Loaded, None)" "w_app w1 = x" by (rule e)+
  show "fst (GetByKey c k loader' w2) = Ret (Some v, Hit, None)"
    "w_app (snd (GetByKey c k loader' w2)) = w_app w2"
    using GetByKey_cached [OF s(2) cached_value [OF s(1) assms(7)]] by simp_all
qed

lemma not_found_run_get:
  assumes "config_ok c" "solo_flight c" "env_ok env" "0 < o_NegativeTTL (c_opts c)"
    and "inv (w_store w)" "rand_ok (w_rand w)" "range_ok (w_range w)"
    and "cached (w_store w) k = None"
    and "loader (w_app w) = ((y, Some e), x)" "errors_is e ErrNotFound" "GetByKey c k loader w = (r, w1)"
    and "cache_run env c K w1 w2" "k \<notin> K"
    and "within_ttl c (o_NegativeTTL (c_opts c)) (now (w_store w)) (now (w_store w2) + (grain - 1))"
    and "storable (o_NegativeTTL (c_opts c))"
  shows "r = Ret (None, Loaded, Some ErrNotFound)" "w_app w1 = x"
    and "fst (GetByKey c k loader' w2) = Ret (None, NegativeHit, Some ErrNotFound)"
    and "w_app (snd (GetByKey c k loader' w2)) = w_app w2"
proof -
  from load_entry(2) [OF assms(5,2,8,11,6,9,10,4,1,15)] obtain t w0 where
    e: "r = Ret (None, Loaded, Some ErrNotFound)" "w_app w1 = x" "inv (w_store w1)" "now (w_store w) \<le> t"
      "w_rand w0 = w_rand w"
      "entries (w_store w1) k = Some (negativeMarker, expiry t (fst (negativeTTL c w0)))" by blast
  have rd: "rand_ok (w_rand w0)" using assms(6) e(5) by simp
  have "\<not> expired_at (expiry t (fst (negativeTTL c w0))) (now (w_store w2))"
    using negativeTTL_reach [OF assms(1,4) rd assms(14)] e(4)
    by (intro expiry_not_yet negativeTTL_least [OF assms(1,4) rd assms(15)]) simp
  moreover have "range_ok (w_range w1)" using GetByKey_range [OF assms(2), of k loader w] assms(7,11) by simp
  ultimately have s: "visible (w_store w2) k = Some negativeMarker" "inv (w_store w2)"
    using entry_survives [OF e(6) _ assms(12,13) e(3) _ assms(2,3)] by simp_all
  show "r = Ret (None, Loaded, Some ErrNotFound)" "w_app w1 = x" by (rule e)+
  show "fst (GetByKey c k loader' w2) = Ret (None, NegativeHit, Some ErrNotFound)"
    "w_app (snd (GetByKey c k loader' w2)) = w_app w2"
    using GetByKey_cached [OF s(2) cached_marker [OF s(1)]] by simp_all
qed

text \<open>After an eviction and a run on other keys, a read asks the source of truth.\<close>

lemma evict_run_get:
  assumes "solo_flight c" "env_ok env" "inv (w_store w)" "range_ok (w_range w)"
    and "EvictByKey c k w = (err, w1)" "cache_run env c K w1 w2" "k \<notin> K"
  shows "err = None" "\<exists>p. fst (GetByKey c k loader w2) = Ret (load_answer (fst (loader (w_app w2))) p)"
    and "w_app (snd (GetByKey c k loader w2)) = snd (loader (w_app w2))"
proof -
  have e: "w_store w1 = snd (Delete k (w_store w))" "w_range w1 = w_range w" "err = None"
    using assms(5) delete_result [OF assms(3), of k]
    by (auto simp: EvictByKey_def delete_impl on_store_def case_prod_unfold Let_def)
  have i: "inv (w_store w1)" "entries (w_store w1) k = None"
    using delete_inv [OF assms(3), of k] delete_entries [OF assms(3), of k] by (simp_all add: e(1))
  have f: "frame K (w_store w1) (w_store w2)"
    using run_frame [OF assms(6) i(1) _ assms(1,2)] assms(4) e(2) by simp
  with i(2) assms(7) have "visible (w_store w2) k = None" by (simp add: frame_def visible_def)
  note u = GetByKey_uncached [OF frame_inv [OF f] cached_None [OF this] assms(1), of loader]
  show "err = None" by (rule e(3))
  show "\<exists>p. fst (GetByKey c k loader w2) = Ret (load_answer (fst (loader (w_app w2))) p)"
    "w_app (snd (GetByKey c k loader w2)) = snd (loader (w_app w2))" by (rule u)+
qed

text \<open>Once the longest TTL has passed since a state all of whose writes were the cache's, a read loads.\<close>

lemma stale_run_get:
  assumes ttls_ok "solo_flight c" "env_ok env" "bounded w0" "cache_run env c K w0 w1"
    and "env (w_store w1) s" "now (w_store w1) + max_ttl c + (grain - 1) < now s"
  shows "cached s k = None" "inv s"
proof -
  have b: "bounded w1" by (rule run_bounded [OF assms(5,4,1,2,3)])
  have i: "inv s" "entries s = entries (w_store w1)"
    using assms(3,6) boundedD(1) [OF b] by (auto simp: env_ok_def fun_eq_iff)
  show "cached s k = None"
    by (rule bounded_all_expired [OF b i(1) _ assms(7)]) (simp add: i(2))
  show "inv s" by (rule i(1))
qed

end

text \<open>What the rest of the program may do to the store between two operations of a cache.\<close>

definition others_plain :: "('v, memstore, 'x) Cache \<Rightarrow> memstore \<Rightarrow> memstore \<Rightarrow> bool" where
  "others_plain c s s' \<longleftrightarrow>
     later s s' \<and> (\<forall>k. fmlookup (data s') (fullKey c k) = fmlookup (data s) (fullKey c k))"

definition others_group :: "memAliasOps \<Rightarrow> memstore \<Rightarrow> memstore \<Rightarrow> bool" where
  "others_group m s s' \<longleftrightarrow>
     later s s' \<and> (\<forall>k. fmlookup (data s') (valueKey m k) = fmlookup (data s) (valueKey m k))"

lemma others_ok [simp]:
  "timed_store.env_ok (\<lambda>s k. mem_entries s (fullKey c k)) mem_now mem_inv (others_plain c)"
  "timed_store.env_ok (group_entries m) mem_now mem_inv (others_group m)"
  unfolding plain.env_ok_def grp.env_ok_def
  by (auto simp: others_plain_def others_group_def mem_entries_def group_entries_def later_inv later_now)

end
