(* ===== verification/Alias_Run.thy ===== *)
theory Alias_Run
  imports Cache_Run
begin

text \<open>
  Alias groups on the memory store over sequences of operations: the bookkeeping invariant in
  terms of the store, who owns an alias after each operation, and what the operations of one
  namespace leave alone in another.
\<close>

subsection \<open>The invariant and the owner of an alias\<close>

text \<open>
  Pointers and members hashes are inverse to each other, a pointer expires with its hash, and
  a record's value never outlives its hash.
\<close>

definition alias_consistent :: "memAliasOps \<Rightarrow> memstore \<Rightarrow> bool" where
  "alias_consistent m s \<longleftrightarrow> mem_inv s \<and>
     (\<forall>pk h f v. fmlookup (members s) (membersKey m pk) = Some h \<longrightarrow>
        fmlookup (mh_fields h) f = Some v \<longrightarrow>
        CHR '':'' \<notin> set f \<and> fmlookup (data s) (pointerKey m f v) =
          Some \<lparr>e_val = pk, e_expiresAt = mh_expiresAt h\<rparr>) \<and>
     (\<forall>t e. fmlookup (data s) (tail_key (mo_ns m) t (mo_sharded m)) = Some e \<longrightarrow>
        (\<exists>h f v. fmlookup (members s) (membersKey m (e_val e)) = Some h \<and>
           fmlookup (mh_fields h) f = Some v \<and> t = alias_tail f v)) \<and>
     (\<forall>pk h. fmlookup (members s) (membersKey m pk) = Some h \<longrightarrow>
        (\<exists>e. fmlookup (data s) (valueKey m pk) = Some e \<and> before (e_expiresAt e) (mh_expiresAt h)))"

lemma alias_consistent_abs: "alias_consistent m s \<longleftrightarrow> mem_inv s \<and> g_inv (mem_abs m s)"
  by (auto simp: alias_consistent_def g_inv_def mem_inv_def)

text \<open>The primary key that the pointer of an alias leads to.\<close>

definition alias_owner :: "memAliasOps \<Rightarrow> memstore \<Rightarrow> AliasRef \<Rightarrow> string option" where
  "alias_owner m s ref = map_option e_val (fmlookup (data s) (pointerKey m (Field ref) (Value ref)))"

lemma alias_owner_abs:
  "alias_owner m s ref = map_option e_val (ptrs (mem_abs m s) (alias_tail (Field ref) (Value ref)))"
  by (simp add: alias_owner_def)

lemma alias_owner_iff:
  assumes "alias_consistent m s" "CHR '':'' \<notin> set (Field ref)"
  shows "alias_owner m s ref = Some pk \<longleftrightarrow>
    (\<exists>h. fmlookup (members s) (membersKey m pk) = Some h \<and> fmlookup (mh_fields h) (Field ref) = Some (Value ref))"
proof -
  have g: "g_inv (mem_abs m s)" using assms(1) by (simp add: alias_consistent_abs)
  note p = g_ptr_iff [OF g assms(2), of "Value ref", unfolded mem_abs_sel]
  show ?thesis
  proof
    assume "alias_owner m s ref = Some pk"
    then obtain e where "fmlookup (data s) (pointerKey m (Field ref) (Value ref)) = Some e" "e_val e = pk"
      by (auto simp: alias_owner_def)
    then show "\<exists>h. fmlookup (members s) (membersKey m pk) = Some h \<and>
        fmlookup (mh_fields h) (Field ref) = Some (Value ref)" using p [of e] by auto
  next
    assume "\<exists>h. fmlookup (members s) (membersKey m pk) = Some h \<and>
        fmlookup (mh_fields h) (Field ref) = Some (Value ref)"
    then show "alias_owner m s ref = Some pk"
      using g_invD(3) [OF g, unfolded mem_abs_sel] by (fastforce simp: alias_owner_def)
  qed
qed

subsection \<open>Steps\<close>

text \<open>What the rest of the program may do to the store: anything to keys that are not the group's.\<close>

definition others_alias :: "memAliasOps \<Rightarrow> memstore \<Rightarrow> memstore \<Rightarrow> bool" where
  "others_alias m s s' \<longleftrightarrow> later s s' \<and>
     (\<forall>pk. fmlookup (data s') (valueKey m pk) = fmlookup (data s) (valueKey m pk)) \<and>
     (\<forall>pk. fmlookup (members s') (membersKey m pk) = fmlookup (members s) (membersKey m pk)) \<and>
     (\<forall>t. fmlookup (data s') (tail_key (mo_ns m) t (mo_sharded m)) =
        fmlookup (data s) (tail_key (mo_ns m) t (mo_sharded m)))"

inductive alias_op :: "memAliasOps \<Rightarrow> memstore \<Rightarrow> memstore \<Rightarrow> bool" for m where
  a_get_value: "alias_op m s (snd (mao_GetValue m pk s))"
| a_put_value: "alias_op m s (snd (mao_PutValue m pk val ttl s))"
| a_put_alias: "CHR '':'' \<notin> set (Field ref) \<Longrightarrow> alias_op m s (snd (mao_PutByAlias m pk ref val ttl s))"
| a_get_alias: "alias_op m s (snd (mao_GetByAlias m ref s))"
| a_evict: "alias_op m s (snd (mao_EvictByPrimary m pk s))"
| a_evict_alias: "alias_op m s (snd (mao_EvictByAlias m ref s))"
| a_evict_prefix: "alias_op m s (snd (mao_EvictByPrimaryPrefix m pfx s))"

inductive alias_run :: "memAliasOps \<Rightarrow> memstore \<Rightarrow> memstore \<Rightarrow> bool" for m where
  ar_nil: "alias_run m s s"
| ar_op: "alias_run m s s1 \<Longrightarrow> alias_op m s1 s2 \<Longrightarrow> alias_run m s s2"
| ar_others: "alias_run m s s1 \<Longrightarrow> others_alias m s1 s2 \<Longrightarrow> alias_run m s s2"

lemma alias_op_later: "alias_op m s s' \<Longrightarrow> mem_inv s \<Longrightarrow> later s s'"
  by (cases rule: alias_op.cases)
    (auto simp: mao_PutByAlias_abs(3) mao_EvictByPrimaryPrefix_abs(3))

lemma alias_op_consistent:
  assumes "alias_op m s s'" "alias_consistent m s" shows "alias_consistent m s'"
proof -
  have i: "mem_inv s" and g: "g_inv (mem_abs m s)" using assms(2) by (simp_all add: alias_consistent_abs)
  have "g_inv (mem_abs m s')"
    using assms(1)
    by cases (use i g in \<open>simp_all add: mao_GetValue_abs mao_PutValue_abs mao_PutByAlias_abs mao_GetByAlias_abs
        mao_EvictByPrimary_abs mao_EvictByAlias_abs mao_EvictByPrimaryPrefix_abs g_read_inv g_write_refresh_inv
        g_PutByAlias_inv g_evict_inv g_EvictByAlias_inv g_evict_set_inv\<close>)
  then show ?thesis
    using later_inv [OF alias_op_later [OF assms(1) i] i] by (simp add: alias_consistent_abs)
qed

lemma others_alias_consistent:
  assumes "others_alias m s s'" "alias_consistent m s" shows "alias_consistent m s'"
proof -
  have i: "mem_inv s" and g: "g_inv (mem_abs m s)" using assms(2) by (simp_all add: alias_consistent_abs)
  have i': "mem_inv s'" using assms(1) i by (auto simp: others_alias_def intro: later_inv)
  then have "g_inv (mem_abs m s')"
    using assms(1) by (intro g_inv_same_maps [OF g]) (auto simp: others_alias_def fun_eq_iff mem_inv_def)
  with i' show ?thesis by (simp add: alias_consistent_abs)
qed

lemma alias_run_consistent: "alias_run m s s' \<Longrightarrow> alias_consistent m s \<Longrightarrow> alias_consistent m s'"
  by (induction rule: alias_run.induct) (auto intro: alias_op_consistent others_alias_consistent)

lemma alias_consistent_empty:
  assumes "mem_inv s" "\<And>t. fmlookup (data s) (tail_key (mo_ns m) t (mo_sharded m)) = None"
    "\<And>pk. fmlookup (members s) (membersKey m pk) = None"
  shows "alias_consistent m s"
  using assms by (simp add: alias_consistent_def)

subsection \<open>One namespace leaves another alone\<close>

text \<open>\<open>touches ns s s'\<close>: from \<open>s\<close> to \<open>s'\<close> only keys of the namespace \<open>ns\<close> changed.\<close>

definition touches :: "string \<Rightarrow> memstore \<Rightarrow> memstore \<Rightarrow> bool" where
  "touches ns s s' \<longleftrightarrow>
     (\<forall>key. \<not> owned_by ns key \<longrightarrow> fmlookup (data s') key = fmlookup (data s) key \<and>
        fmlookup (members s') key = fmlookup (members s) key)"

lemma touches_refl [simp]: "touches ns s s"
  by (simp add: touches_def)

lemma touches_trans: "touches ns s t \<Longrightarrow> touches ns t u \<Longrightarrow> touches ns s u"
  by (simp add: touches_def)

lemma touches_same: "data s' = data s \<Longrightarrow> members s' = members s \<Longrightarrow> touches ns s s'"
  by (simp add: touches_def)

lemma owned_group [simp]:
  "owned_by (mo_ns m) (valueKey m pk)" "owned_by (mo_ns m) (membersKey m pk)"
  by (simp_all add: valueKey_def membersKey_def)

lemma owned_ne [simp]:
  "\<not> owned_by ns key \<Longrightarrow> owned_by ns k \<Longrightarrow> key \<noteq> k"
  "\<not> owned_by ns key \<Longrightarrow> owned_by ns k \<Longrightarrow> k \<noteq> key"
  by auto

lemma touches_helpers:
  "touches (mo_ns m) s (writeValueLocked m pk val ttl s)"
  "touches (mo_ns m) s (refresh_loop m flds x fs s)"
  "touches (mo_ns m) s (drop_pointers m flds fs s)"
proof -
  show "touches (mo_ns m) s (writeValueLocked m pk val ttl s)"
    by (auto simp: writeValueLocked_def touches_def case_prod_unfold Let_def)
  have r: "\<not> owned_by (mo_ns m) key \<Longrightarrow>
      fmlookup (data (refresh_loop m flds x fs s)) key = fmlookup (data s) key" for key
    by (induction fs arbitrary: s) (auto simp: Let_def split: option.splits)
  then show "touches (mo_ns m) s (refresh_loop m flds x fs s)" by (simp add: touches_def)
  have "\<not> owned_by (mo_ns m) key \<Longrightarrow>
      fmlookup (data (drop_pointers m flds fs s)) key = fmlookup (data s) key" for key
    by (induction fs arbitrary: s) (auto split: option.splits)
  then show "touches (mo_ns m) s (drop_pointers m flds fs s)" by (simp add: touches_def)
qed

lemma touches_refresh: "touches (mo_ns m) s (refreshGroupLocked m pk ttl s)"
proof -
  have "touches (mo_ns m) s (refresh_loop m flds x fs (snd (expAt ttl s)\<lparr>members := fmupd (membersKey m pk) h (members s)\<rparr>))"
    for flds x fs h
    by (rule touches_trans [OF _ touches_helpers(2)]) (auto simp: touches_def)
  then show ?thesis
    by (auto simp: refreshGroupLocked_def case_prod_unfold Let_def split: option.splits)
qed

lemma touches_evict: "touches (mo_ns m) s (evictLocked m pk s)"
proof -
  have "touches (mo_ns m) s (drop_pointers m flds fs (s\<lparr>data := fmdrop (valueKey m pk) (data s)\<rparr>))" for flds fs
    by (rule touches_trans [OF _ touches_helpers(3)]) (auto simp: touches_def)
  then show ?thesis
    by (auto simp: evictLocked_def Let_def touches_def split: option.splits)
qed

lemma touches_put_stages:
  "touches (mo_ns m) s (put_replace m mh ref s)" "touches (mo_ns m) s (put_steal m pk ref s)"
  "touches (mo_ns m) s (put_point m pk mh ref ttl s)"
  by (auto simp: put_replace_def put_steal_def put_point_def touches_def case_prod_unfold Let_def
      split: option.splits)

lemma alias_op_touches:
  assumes "alias_op m s s'" shows "touches (mo_ns m) s s'"
  using assms
proof cases
  case (a_put_alias ref pk val ttl)
  then show ?thesis
    using touches_trans [OF touches_trans [OF touches_trans [OF touches_trans [OF touches_helpers(1)
      touches_put_stages(1)] touches_put_stages(2)] touches_put_stages(3)] touches_refresh]
    by (simp add: mao_PutByAlias_stages Let_def)
next
  case (a_put_value pk val ttl)
  then show ?thesis
    using touches_trans [OF touches_helpers(1) touches_refresh] by (simp add: mao_PutValue_def Let_def)
next
  case (a_evict_prefix pfx)
  have "touches (mo_ns m) s (fold (evictLocked m) pks s)" for pks
    by (induction pks arbitrary: s) (auto intro: touches_trans touches_evict)
  with a_evict_prefix show ?thesis by (simp add: mao_EvictByPrimaryPrefix_def Let_def)
qed (auto simp: mao_GetValue_def mao_GetByAlias_def mao_EvictByPrimary_def mao_EvictByAlias_def touches_evict
    case_prod_unfold Let_def intro: touches_same split: option.splits)

text \<open>Two groups with different plain names on one store: steps of one are \<open>others\<close> of the other.\<close>

lemma touches_others:
  assumes "touches ns s s'" "later s s'" "plain_ns ns"
  shows "plain_ns (mo_ns m) \<Longrightarrow> ns \<noteq> mo_ns m \<Longrightarrow> others_alias m s s'"
    and "plain_ns (o_Prefix (c_opts c)) \<Longrightarrow> ns \<noteq> o_Prefix (c_opts c) \<Longrightarrow> others_plain c s s'"
proof -
  have n: "\<not> owned_by ns key" if "owned_by ns' key" "plain_ns ns'" "ns \<noteq> ns'" for key ns'
    using owned_by_unique [OF assms(3) that(2) _ that(1)] that(3) by blast
  show "others_alias m s s'" if "plain_ns (mo_ns m)" "ns \<noteq> mo_ns m"
    using assms(1,2) n [OF _ that] by (simp add: others_alias_def touches_def)
  show "others_plain c s s'" if "plain_ns (o_Prefix (c_opts c))" "ns \<noteq> o_Prefix (c_opts c)"
    using assms(1,2) n [OF _ that] by (simp add: others_plain_def touches_def fullKey_def)
qed

end
