(* ===== verification/Cache_Isolation.thy ===== *)
theory Cache_Isolation
  imports Alias_Run
begin

text \<open>
  Every operation of a cache reaches the store through four calls only: the three value
  operations and the batch read.  The locale \<open>store_rel\<close> draws the consequence once: a reflexive
  and transitive relation between store states that these calls respect is respected by every
  operation.  It is used with \<open>only touches keys of the cache's namespace\<close> for plain caches,
  and with \<open>is a run of the alias group\<close> for alias-group caches.
\<close>

locale store_rel =
  fixes c :: "('v, 's, 'x) Cache"
    and R :: "'s \<Rightarrow> 's \<Rightarrow> bool"
  assumes R_refl: "R s s"
    and R_trans: "R s t \<Longrightarrow> R t u \<Longrightarrow> R s u"
    and R_get: "R (w_store w) (w_store (snd (getValue c k w)))"
    and R_set: "R (w_store w) (w_store (snd (setValue c k b ttl w)))"
    and R_delete: "R (w_store w) (w_store (snd (deleteValue c k w)))"
    and R_batch: "R (w_store w) (w_store (snd (readManyRaw c ks w)))"
begin

lemma R_store:
  "R (w_store w) (w_store (snd (store_value c k v w)))"
  "R (w_store w) (w_store (snd (store_negative c k w)))"
  using R_set [of "snd (positiveTTL c w)" k] R_set [of "snd (negativeTTL c w)" k]
  by (auto simp: store_value_def store_negative_def case_prod_unfold Let_def R_refl split: sum.splits)

lemma R_load_effect: "R (w_store w) (w_store (snd (load_effect c k r w)))"
  by (auto simp: load_effect_def R_store R_refl split: prod.splits option.splits)

lemma R_GetByKey:
  assumes "solo_flight c" shows "R (w_store w) (w_store (snd (GetByKey c k loader w)))"
proof -
  have L: "R (w_store w) (w_store (snd (load_effect c k r (snd (timed_load c l (snd (getValue c k w)))))))"
    for r l
    using R_trans [OF R_get [of w k]] R_load_effect [of "snd (timed_load c l (snd (getValue c k w)))" k r]
    by simp
  show ?thesis
    using R_get L [of "fst (loader (w_app w))" loader]
    by (auto simp: GetByKey_eq [OF assms] case_prod_unfold Let_def split: option.splits)
qed

lemma R_PutByKey: "R (w_store w) (w_store (snd (PutByKey c k writer w)))"
  using R_store(1) [of "snd (on_app writer w)" k]
  by (auto simp: PutByKey_eq case_prod_unfold Let_def R_refl split: option.splits)

lemma R_PutValueByKey: "R (w_store w) (w_store (snd (PutValueByKey c k v w)))"
  using R_set [of "snd (positiveTTL c w)" k]
  by (auto simp: PutValueByKey_def case_prod_unfold Let_def R_refl split: sum.splits)

lemma R_EvictByKey: "R (w_store w) (w_store (snd (EvictByKey c k w)))"
  using R_delete [of "evicted c 1 w" k] by (simp add: EvictByKey_def)

lemma R_EvictManyByKey: "R (w_store w) (w_store (snd (EvictManyByKey c ks w)))"
proof -
  have "R (w_store w) (w_store (snd (evict_many_loop c ks errs w)))" for errs w
  proof (induction ks arbitrary: errs w)
    case (Cons k ks)
    show ?case
      using R_trans [OF R_delete [of w k] Cons.IH] by (simp add: case_prod_unfold Let_def)
  qed (simp add: R_refl)
  from this [of "evicted c (int (length ks)) w" "[]"] show ?thesis
    by (simp add: EvictManyByKey_def case_prod_unfold Let_def)
qed

lemma R_populate: "R (w_store w) (w_store (fold (\<lambda>k. populate_one c k (f k)) ks w))"
proof (induction ks arbitrary: w)
  case (Cons k ks)
  have "R (w_store w) (w_store (populate_one c k (f k) w))"
    using R_store [of w k] by (auto simp: populate_one_def case_prod_unfold Let_def split: option.splits)
  from R_trans [OF this Cons.IH] show ?case by simp
qed (simp add: R_refl)

lemma R_GetManyByKey: "R (w_store w) (w_store (snd (GetManyByKey c keys load w)))"
proof -
  obtain raw w1 where r: "readManyRaw c (dedupKeys keys) w = (raw, w1)" by (cases "readManyRaw c (dedupKeys keys) w")
  obtain result missing w2 where s: "split_loop c raw (dedupKeys keys) fmempty [] w1 = ((result, missing), w2)"
    by (metis prod.exhaust)
  have R2: "R (w_store w) (w_store w2)"
    using R_batch [of w "dedupKeys keys"] r split_loop_spec(3) [OF s] by simp
  have "R (w_store w) (w_store (fold (\<lambda>k. populate_one c k (f k)) missing (snd (timed_load c l w2))))" for f l
    using R_trans [OF R2] R_populate [of "snd (timed_load c l w2)"] by simp
  with R2 show ?thesis
    by (auto simp: GetManyByKey_def splitHitsAndMisses_def r s case_prod_unfold Let_def populateLoaded_world
        R_refl split: option.splits)
qed

lemma R_derived:
  "R (w_store w) (w_store (snd (Put c writer w)))"
  "R (w_store w) (w_store (snd (PutValue c val w)))"
  "R (w_store w) (w_store (snd (Evict c val w)))"
  using R_PutByKey [of "snd (on_app writer w)"] R_PutValueByKey R_EvictByKey
  by (auto simp: Put_def PutValue_def Evict_def case_prod_unfold Let_def R_refl split: option.splits sum.splits)

lemma R_step:
  assumes "cache_step env c K w w'" "solo_flight c" "\<And>s s'. env s s' \<Longrightarrow> R s s'"
  shows "R (w_store w) (w_store w')"
  using assms(1)
  by cases (simp_all add: R_GetByKey assms R_PutByKey R_PutValueByKey R_EvictByKey R_EvictManyByKey
      R_GetManyByKey R_refl)

lemma R_run:
  assumes "cache_run env c K w w'" "solo_flight c" "\<And>s s'. env s s' \<Longrightarrow> R s s'"
  shows "R (w_store w) (w_store w')"
  using assms(1) by induction (auto intro: R_refl R_trans R_step [OF _ assms(2,3)])

end

subsection \<open>Plain caches touch their namespace only\<close>

definition in_namespace :: "string \<Rightarrow> memstore \<Rightarrow> memstore \<Rightarrow> bool" where
  "in_namespace ns s s' \<longleftrightarrow> touches ns s s' \<and> later s s'"

lemma in_namespace_ops:
  "in_namespace (o_Prefix (c_opts c)) s (snd (mem_Get (fullKey c k) s))"
  "in_namespace (o_Prefix (c_opts c)) s (snd (mem_Set (fullKey c k) b ttl s))"
  "in_namespace (o_Prefix (c_opts c)) s (snd (mem_Delete (fullKey c k) s))"
  by (auto simp: in_namespace_def touches_def fullKey_def mem_Get_data split: option.splits)

lemma in_namespace_trans: "in_namespace ns s t \<Longrightarrow> in_namespace ns t u \<Longrightarrow> in_namespace ns s u"
  by (auto simp: in_namespace_def intro: touches_trans later_trans)

lemma in_namespace_refl [simp]: "in_namespace ns s s"
  by (simp add: in_namespace_def)

lemma in_namespace_get_many:
  "in_namespace (o_Prefix (c_opts c)) s (snd (get_many_loop (map (fullKey c) ks) out s))"
proof (induction ks arbitrary: out s)
  case (Cons k ks)
  show ?case
    using in_namespace_trans [OF in_namespace_ops(1) Cons.IH] by (simp add: get_many_loop_Cons)
qed simp

interpretation plain_ns: store_rel "on_mem c" "in_namespace (o_Prefix (c_opts c))"
  for c :: "('v, memstore, 'x) Cache"
proof unfold_locales
  fix s t u :: memstore and w :: "(memstore, 'x) world" and k b ttl ks
  show "in_namespace (o_Prefix (c_opts c)) s s" by simp
  show "in_namespace (o_Prefix (c_opts c)) s t \<Longrightarrow> in_namespace (o_Prefix (c_opts c)) t u \<Longrightarrow>
      in_namespace (o_Prefix (c_opts c)) s u" by (rule in_namespace_trans)
  show "in_namespace (o_Prefix (c_opts c)) (w_store w) (w_store (snd (getValue (on_mem c) k w)))"
    "in_namespace (o_Prefix (c_opts c)) (w_store w) (w_store (snd (setValue (on_mem c) k b ttl w)))"
    "in_namespace (o_Prefix (c_opts c)) (w_store w) (w_store (snd (deleteValue (on_mem c) k w)))"
    by (simp_all add: plain.get_impl plain.set_impl plain.delete_impl in_namespace_ops)
  have "fst (full_keys (on_mem c) ks [] fmempty) = map (fullKey c) ks"
    using full_keys_spec(1) [of "on_mem c" ks "[]" fmempty] by simp
  then have "w_store (snd (readManyRaw (on_mem c) ks w)) =
      snd (get_many_loop (map (fullKey c) ks) fmempty (w_store w))"
    by (auto simp: readManyRaw_def c_isAliasGroup_def on_mem_def mem_GetMany_def
        case_prod_unfold Let_def split: sum.splits)
  then show "in_namespace (o_Prefix (c_opts c)) (w_store w) (w_store (snd (readManyRaw (on_mem c) ks w)))"
    by (simp add: in_namespace_get_many)
qed

subsection \<open>Alias-group caches run their group\<close>

text \<open>A sequence of the group's own operations, and what it is a run of.\<close>

lemma alias_ops_run: "(alias_op m)\<^sup>*\<^sup>* s s' \<Longrightarrow> alias_run m s s'"
  by (induction rule: rtranclp_induct) (auto intro: alias_run.intros)

lemma alias_ops_touches:
  "(alias_op m)\<^sup>*\<^sup>* s s' \<Longrightarrow> mem_inv s \<Longrightarrow> touches (mo_ns m) s s' \<and> later s s'"
proof (induction rule: rtranclp_induct)
  case (step t u)
  then have "touches (mo_ns m) s t" "later s t" "mem_inv t" by (auto intro: later_inv)
  then show ?case
    using alias_op_touches [OF step.hyps(2)] alias_op_later [OF step.hyps(2)]
    by (auto intro: touches_trans later_trans)
qed simp

lemma alias_run_op: "alias_op m s s' \<Longrightarrow> alias_run m s s'"
  by (rule ar_op [OF ar_nil])

interpretation group_run: store_rel "on_group m c" "(alias_op m)\<^sup>*\<^sup>*"
  for m :: memAliasOps and c :: "('v, memstore, 'x) Cache"
proof unfold_locales
  fix s t u :: memstore and w :: "(memstore, 'x) world" and k b ttl ks
  show "(alias_op m)\<^sup>*\<^sup>* s s" by simp
  show "(alias_op m)\<^sup>*\<^sup>* s t \<Longrightarrow> (alias_op m)\<^sup>*\<^sup>* t u \<Longrightarrow> (alias_op m)\<^sup>*\<^sup>* s u" by simp
  show g: "(alias_op m)\<^sup>*\<^sup>* (w_store w) (w_store (snd (getValue (on_group m c) k w)))"
    for w :: "(memstore, 'x) world" and k
    by (simp add: grp.get_impl r_into_rtranclp a_get_value)
  show "(alias_op m)\<^sup>*\<^sup>* (w_store w) (w_store (snd (setValue (on_group m c) k b ttl w)))"
    "(alias_op m)\<^sup>*\<^sup>* (w_store w) (w_store (snd (deleteValue (on_group m c) k w)))"
    by (simp_all add: grp.set_impl grp.delete_impl r_into_rtranclp a_put_value a_evict)
  have "(alias_op m)\<^sup>*\<^sup>* (w_store w) (w_store (snd (read_each_loop (on_group m c) ks out w)))" for out
  proof (induction ks arbitrary: out w)
    case (Cons k ks)
    show ?case
      using rtranclp_trans [OF g [of w k] Cons.IH]
      by (auto simp: case_prod_unfold Let_def split: sum.splits)
  qed simp
  then show "(alias_op m)\<^sup>*\<^sup>* (w_store w) (w_store (snd (readManyRaw (on_group m c) ks w)))"
    by (simp add: readManyRaw_def c_isAliasGroup_def)
qed

text \<open>The alias operations of the cache are steps of the group, for fields without a colon.\<close>

lemma store_aliased_run:
  assumes "CHR '':'' \<notin> set (Field alias)"
  shows "(alias_op m)\<^sup>*\<^sup>* (w_store w)
    (w_store (snd (store_aliased (on_group m c) (mem_alias_ops m) pk alias v w)))"
  using assms
  by (auto simp: store_aliased_def mem_alias_ops_def case_prod_unfold Let_def r_into_rtranclp a_put_alias
      split: sum.splits)

lemma alias_cache_run:
  assumes "CHR '':'' \<notin> set (Field alias)" "solo_flight c"
  shows "(alias_op m)\<^sup>*\<^sup>* (w_store w) (w_store (snd (GetByAlias (on_group m c) alias loader w)))"
    and "(alias_op m)\<^sup>*\<^sup>* (w_store w) (w_store (snd (PutAliased (on_group m c) pk alias writer w)))"
    and "(alias_op m)\<^sup>*\<^sup>* (w_store w) (w_store (snd (PutAliasedValue (on_group m c) pk alias val w)))"
    and "(alias_op m)\<^sup>*\<^sup>* (w_store w) (w_store (snd (EvictByAlias (on_group m c) alias w)))"
proof -
  let ?w1 = "snd (on_store (ao_GetByAlias (mem_alias_ops m) alias) w)"
  have g: "(alias_op m)\<^sup>*\<^sup>* (w_store w) (w_store ?w1)"
    by (simp add: mem_alias_ops_def r_into_rtranclp a_get_alias)
  have E: "(alias_op m)\<^sup>*\<^sup>* (w_store w) (w_store (snd (alias_effect (on_group m c) (mem_alias_ops m) alias r
      (snd (timed_load (on_group m c) loader ?w1)))))" for r
  proof -
    have "(alias_op m)\<^sup>*\<^sup>* (w_store w) (w_store (snd (store_aliased (on_group m c) (mem_alias_ops m) pk alias v
        (snd (timed_load (on_group m c) loader ?w1)))))" for pk v
      by (rule rtranclp_trans [OF g])
        (use store_aliased_run [OF assms(1), of m "snd (timed_load (on_group m c) loader ?w1)" c pk v] in simp)
    with g show ?thesis by (auto simp: alias_effect_def split: prod.splits option.splits)
  qed
  show "(alias_op m)\<^sup>*\<^sup>* (w_store w) (w_store (snd (GetByAlias (on_group m c) alias loader w)))"
    using assms(2) g E [of "fst (loader (w_app w))"]
    by (auto simp: GetByAlias_eq case_prod_unfold Let_def split: option.splits)
  show "(alias_op m)\<^sup>*\<^sup>* (w_store w) (w_store (snd (PutAliased (on_group m c) pk alias writer w)))"
    using store_aliased_run [OF assms(1), of m "snd (on_app writer w)" c pk]
    by (auto simp: PutAliased_eq case_prod_unfold Let_def split: option.splits)
  show "(alias_op m)\<^sup>*\<^sup>* (w_store w) (w_store (snd (PutAliasedValue (on_group m c) pk alias val w)))"
    using assms(1)
    by (auto simp: PutAliasedValue_def mem_alias_ops_def case_prod_unfold Let_def r_into_rtranclp a_put_alias
        split: option.splits sum.splits)
  show "(alias_op m)\<^sup>*\<^sup>* (w_store w) (w_store (snd (EvictByAlias (on_group m c) alias w)))"
    by (simp add: EvictByAlias_def mem_alias_ops_def r_into_rtranclp a_evict_alias)
qed

subsection \<open>Every operation of a cache\<close>

text \<open>One call of any exported method of a cache (alias fields without a colon), or a change of the
  source of truth.\<close>

inductive any_step :: "('v, 's, 'x) Cache \<Rightarrow> ('s, 'x) world \<Rightarrow> ('s, 'x) world \<Rightarrow> bool" for c where
  any_key: "cache_step (\<lambda>s s'. False) c K w w' \<Longrightarrow> any_step c w w'"
| any_put: "any_step c w (snd (Put c writer w))"
| any_put_value: "any_step c w (snd (PutValue c val w))"
| any_evict: "any_step c w (snd (Evict c val w))"
| any_evict_prefix: "any_step c w (snd (EvictByKeyPrefix c p w))"
| any_get_alias: "CHR '':'' \<notin> set (Field alias) \<Longrightarrow> any_step c w (snd (GetByAlias c alias loader w))"
| any_put_alias: "CHR '':'' \<notin> set (Field alias) \<Longrightarrow> any_step c w (snd (PutAliased c pk alias writer w))"
| any_put_alias_value: "CHR '':'' \<notin> set (Field alias) \<Longrightarrow>
    any_step c w (snd (PutAliasedValue c pk alias val w))"
| any_evict_alias: "CHR '':'' \<notin> set (Field alias) \<Longrightarrow> any_step c w (snd (EvictByAlias c alias w))"

lemma EvictByKeyPrefix_store:
  "w_store (snd (EvictByKeyPrefix c p w)) = w_store w \<or>
     w_store (snd (EvictByKeyPrefix c p w)) = w_store (snd (evictPrefix c p w))"
  by (simp add: EvictByKeyPrefix_def case_prod_unfold Let_def)

lemma plain_any_step:
  assumes "any_step (on_mem c) w w'" "solo_flight c" "mem_inv (w_store w)"
  shows "in_namespace (o_Prefix (c_opts c)) (w_store w) (w_store w')"
  using assms(1)
proof cases
  case (any_key K)
  then show ?thesis using assms(2) by (auto intro: plain_ns.R_step)
next
  case (any_evict_prefix p)
  have "in_namespace (o_Prefix (c_opts c)) (w_store w)
      (snd (mem_DeleteByPrefix (NonAliasKeyPrefix (o_Prefix (c_opts c)) p) (w_store w)))"
  proof -
    have "owned_by (o_Prefix (c_opts c)) key" if "HasPrefix key (NonAliasKeyPrefix (o_Prefix (c_opts c)) p)" for key
      using that owned_by_builders(1) [of "o_Prefix (c_opts c)"]
      by (auto simp: HasPrefix_def prefix_def NonAliasKey_def NonAliasKeyPrefix_def)
    then show ?thesis
      using mem_DeleteByPrefix_simps [OF assms(3), of "NonAliasKeyPrefix (o_Prefix (c_opts c)) p"]
      by (auto simp: in_namespace_def touches_def)
  qed
  with any_evict_prefix show ?thesis
    using EvictByKeyPrefix_store [of "on_mem c" p w]
    by (auto simp: evictPrefix_def c_isAliasGroup_def on_mem_def)
qed (simp_all add: plain_ns.R_derived not_alias_group)

lemma group_any_step:
  assumes "any_step (on_group m c) w w'" "solo_flight c"
  shows "(alias_op m)\<^sup>*\<^sup>* (w_store w) (w_store w')"
  using assms(1)
proof cases
  case (any_key K)
  then show ?thesis using assms(2) by (auto intro: group_run.R_step)
next
  case (any_evict_prefix p)
  then show ?thesis
    using EvictByKeyPrefix_store [of "on_group m c" p w] r_into_rtranclp [of "alias_op m", OF a_evict_prefix [of m "w_store w" p]]
    by (auto simp: evictPrefix_def c_isAliasGroup_def on_group_def mem_alias_ops_def)
qed (simp_all add: group_run.R_derived alias_cache_run assms(2))

lemma plain_any_run:
  assumes "(any_step (on_mem c))\<^sup>*\<^sup>* w w'" "solo_flight c" "mem_inv (w_store w)"
  shows "in_namespace (o_Prefix (c_opts c)) (w_store w) (w_store w')"
  using assms(1)
proof (induction rule: rtranclp_induct)
  case (step y z)
  then have "mem_inv (w_store y)" using assms(3) by (auto simp: in_namespace_def intro: later_inv)
  with step show ?case using plain_any_step assms(2) by (blast intro: in_namespace_trans)
qed simp

lemma group_any_run:
  assumes "(any_step (on_group m c))\<^sup>*\<^sup>* w w'" "solo_flight c"
  shows "(alias_op m)\<^sup>*\<^sup>* (w_store w) (w_store w')"
  using assms(1)
  by (induction rule: rtranclp_induct) (auto dest: group_any_step [OF _ assms(2)])

end
