(* ===== verification/Alias_Table.thy ===== *)
theory Alias_Table
  imports Store_Interface
begin

text \<open>
  What an alias group promises, whatever its store, as a table: a value per record, and the record that
  each alias leads to.  The locale \<open>alias_group\<close> is the contract of a store that implements the table
  while records lapse; what clients can observe follows from the contract alone.
\<close>

record alias_table =
  at_value :: "string \<Rightarrow> bytes option"
  at_owner :: "AliasRef \<Rightarrow> string option"

definition table_get :: "string \<Rightarrow> alias_table \<Rightarrow> error + bytes" where
  "table_get pk T = (case at_value T pk of None \<Rightarrow> Inl ErrStoreMiss | Some b \<Rightarrow> Inr b)"

definition table_get_alias :: "AliasRef \<Rightarrow> alias_table \<Rightarrow> error + bytes" where
  "table_get_alias ref T = (case at_owner T ref of None \<Rightarrow> Inl ErrStoreMiss | Some pk \<Rightarrow> table_get pk T)"

definition table_put :: "string \<Rightarrow> bytes \<Rightarrow> alias_table \<Rightarrow> alias_table" where
  "table_put pk b T = T\<lparr>at_value := (at_value T)(pk \<mapsto> b)\<rparr>"

text \<open>A record has one alias per field; an alias leads to one record.\<close>

definition table_put_alias :: "string \<Rightarrow> AliasRef \<Rightarrow> bytes \<Rightarrow> alias_table \<Rightarrow> alias_table" where
  "table_put_alias pk ref b T =
     \<lparr>at_value = (at_value T)(pk \<mapsto> b),
      at_owner = (\<lambda>r. if r = ref then Some pk
        else if Field r = Field ref \<and> at_owner T r = Some pk then None else at_owner T r)\<rparr>"

definition table_evict :: "string \<Rightarrow> alias_table \<Rightarrow> alias_table" where
  "table_evict pk T =
     \<lparr>at_value = (at_value T)(pk := None), at_owner = (\<lambda>r. if at_owner T r = Some pk then None else at_owner T r)\<rparr>"

definition table_evict_alias :: "AliasRef \<Rightarrow> alias_table \<Rightarrow> alias_table" where
  "table_evict_alias ref T = (case at_owner T ref of None \<Rightarrow> T | Some pk \<Rightarrow> table_evict pk T)"

text \<open>Fields without a colon, which is where pointer keys are unambiguous.\<close>

definition plain_field :: "AliasRef \<Rightarrow> bool" where
  "plain_field ref \<longleftrightarrow> CHR '':'' \<notin> set (Field ref)"

text \<open>
  How records lapse.  On Redis a record leaves the table as a whole, the value and every alias that
  leads to it; in memory only its value does, and its aliases wait for the next one.
\<close>

definition table_without :: "string set \<Rightarrow> alias_table \<Rightarrow> alias_table" where
  "table_without pks T =
     \<lparr>at_value = (\<lambda>pk. if pk \<in> pks then None else at_value T pk),
      at_owner = (\<lambda>r. if at_owner T r \<in> Some ` pks then None else at_owner T r)\<rparr>"

definition table_valueless :: "string set \<Rightarrow> alias_table \<Rightarrow> alias_table" where
  "table_valueless pks T = T\<lparr>at_value := (\<lambda>pk. if pk \<in> pks then None else at_value T pk)\<rparr>"

lemma table_lapse_nothing [simp]: "table_without {} T = T" "table_valueless {} T = T"
  by (simp_all add: table_without_def table_valueless_def)

definition empty_table :: alias_table where
  "empty_table = \<lparr>at_value = (\<lambda>_. None), at_owner = (\<lambda>_. None)\<rparr>"

subsection \<open>Calls\<close>

text \<open>The calls on a group, and their answers: \<open>Inr None\<close> is a write that succeeded.\<close>

datatype alias_call =
    CGet string
  | CGetAlias AliasRef
  | CPut string bytes int
  | CPutAlias string AliasRef bytes int
  | CEvict string
  | CEvictAlias AliasRef

type_synonym alias_answer = "error + bytes option"

definition read_answer :: "error + bytes \<Rightarrow> alias_answer" where
  "read_answer r = map_sum id Some r"

definition write_answer :: "error option \<Rightarrow> alias_answer" where
  "write_answer e = (case e of None \<Rightarrow> Inr None | Some err \<Rightarrow> Inl err)"

fun table_call :: "alias_call \<Rightarrow> alias_table \<Rightarrow> alias_answer \<times> alias_table" where
  "table_call (CGet pk) T = (read_answer (table_get pk T), T)"
| "table_call (CGetAlias ref) T = (read_answer (table_get_alias ref T), T)"
| "table_call (CPut pk b ttl) T = (Inr None, table_put pk b T)"
| "table_call (CPutAlias pk ref b ttl) T = (Inr None, table_put_alias pk ref b T)"
| "table_call (CEvict pk) T = (Inr None, table_evict pk T)"
| "table_call (CEvictAlias ref) T = (Inr None, table_evict_alias ref T)"

text \<open>Calls whose alias field is not empty and free of colons.\<close>

fun plain_call :: "alias_call \<Rightarrow> bool" where
  "plain_call (CGetAlias ref) = plain_field ref"
| "plain_call (CPutAlias pk ref b ttl) = (plain_field ref \<and> Field ref \<noteq> '''')"
| "plain_call (CEvictAlias ref) = plain_field ref"
| "plain_call _ = True"

text \<open>The answers of the table to a sequence of calls, and the table after them.\<close>

fun table_calls :: "alias_call list \<Rightarrow> alias_table \<Rightarrow> alias_answer list \<times> alias_table" where
  "table_calls [] T = ([], T)"
| "table_calls (c # cs) T =
     (let (a, T1) = table_call c T; (answers, T2) = table_calls cs T1 in (a # answers, T2))"

text \<open>What clients of a group see: calls with their answers, interleaved with anything on other keys.\<close>

inductive group_trace ::
  "(alias_call \<Rightarrow> (alias_answer, 's) op) \<Rightarrow> ('s \<Rightarrow> 's \<Rightarrow> bool) \<Rightarrow> 's \<Rightarrow> (alias_call \<times> alias_answer) list \<Rightarrow> 's \<Rightarrow> bool"
  for call others where
  g_done: "group_trace call others s [] s"
| g_others: "others s s1 \<Longrightarrow> group_trace call others s1 tr s' \<Longrightarrow> group_trace call others s tr s'"
| g_call: "plain_call c \<Longrightarrow> call c s = (a, s1) \<Longrightarrow> group_trace call others s1 tr s' \<Longrightarrow>
    group_trace call others s ((c, a) # tr) s'"

text \<open>What the table allows: calls in this order, records lapsing at any time.\<close>

inductive lapse_trace ::
  "(string set \<Rightarrow> alias_table \<Rightarrow> alias_table) \<Rightarrow> alias_table \<Rightarrow> (alias_call \<times> alias_answer) list \<Rightarrow> alias_table \<Rightarrow> bool"
  for lapse where
  t_done: "lapse_trace lapse T [] T"
| t_lapse: "lapse_trace lapse (lapse pks T) tr T' \<Longrightarrow> lapse_trace lapse T tr T'"
| t_call: "table_call c T = (a, T1) \<Longrightarrow> lapse_trace lapse T1 tr T' \<Longrightarrow> lapse_trace lapse T ((c, a) # tr) T'"

subsection \<open>The contract of a group\<close>

text \<open>
  A call made at the instant \<open>t\<close> lasts until \<open>t'\<close>: the record that it writes has no deadline before.
  \<open>unit\<close> takes a TTL to the store's unit of time.
\<close>

fun lasts :: "(int \<Rightarrow> int) \<Rightarrow> int \<Rightarrow> int \<Rightarrow> alias_call \<Rightarrow> bool" where
  "lasts unit t t' (CPut pk b ttl) = (\<not> expired_at (deadline t (unit ttl)) t')"
| "lasts unit t t' (CPutAlias pk ref b ttl) = (\<not> expired_at (deadline t (unit ttl)) t')"
| "lasts unit t t' _ = True"

text \<open>A call whose record, if it has a TTL at all, lives for \<open>d\<close> nanoseconds.\<close>

fun outlasts :: "int \<Rightarrow> alias_call \<Rightarrow> bool" where
  "outlasts d (CPut pk b ttl) = (ttl \<le> 0 \<or> d \<le> ttl)"
| "outlasts d (CPutAlias pk ref b ttl) = (ttl \<le> 0 \<or> d \<le> ttl)"
| "outlasts d _ = True"

lemma lasts_mono: "lasts unit t t' c \<Longrightarrow> t \<le> t1 \<Longrightarrow> lasts unit t1 t' c"
  by (cases c) (auto simp: deadline_def)

lemma lasts_before: "lasts unit t t' c \<Longrightarrow> t1 \<le> t' \<Longrightarrow> lasts unit t t1 c"
  by (cases c) (auto dest: expired_at_mono)

locale alias_group =
  fixes call :: "alias_call \<Rightarrow> (alias_answer, 's) op"
    and others :: "'s \<Rightarrow> 's \<Rightarrow> bool"
    and table :: "int \<Rightarrow> 's \<Rightarrow> alias_table"
    and now :: "'s \<Rightarrow> int"
    and ok :: "'s \<Rightarrow> bool"
    and lapse :: "string set \<Rightarrow> alias_table \<Rightarrow> alias_table"
    and unit :: "int \<Rightarrow> int"
  assumes call_ok: "plain_call c \<Longrightarrow> ok s \<Longrightarrow> ok (snd (call c s))"
    and others_ok: "others s s' \<Longrightarrow> ok s \<Longrightarrow> ok s'"
    and others_same: "others s s' \<Longrightarrow> table t s' = table t s"
    and others_later: "others s s' \<Longrightarrow> ok s \<Longrightarrow> now s \<le> now s'"
    and table_lapses: "ok s \<Longrightarrow> now s \<le> t \<Longrightarrow> \<exists>pks. table t s = lapse pks (table (now s) s)"
    and call_table: "plain_call c \<Longrightarrow> ok s \<Longrightarrow> \<exists>t. now s \<le> t \<and> t \<le> now (snd (call c s)) \<and>
      table_call c (table t s) = (fst (call c s), table t (snd (call c s))) \<and>
      (\<exists>pks. table (now (snd (call c s))) (snd (call c s)) = lapse pks (table t (snd (call c s)))) \<and>
      (\<forall>t'. t \<le> t' \<longrightarrow> table t' s = table t s \<longrightarrow> lasts unit t t' c \<longrightarrow>
         table t' (snd (call c s)) = table t (snd (call c s)))"
begin

lemma call_tableE:
  assumes "plain_call c" "ok s" "call c s = (a, s1)"
  obtains t pks where "now s \<le> t" "t \<le> now s1" "table_call c (table t s) = (a, table t s1)"
    "table (now s1) s1 = lapse pks (table t s1)"
    "\<And>t'. t \<le> t' \<Longrightarrow> table t' s = table t s \<Longrightarrow> lasts unit t t' c \<Longrightarrow> table t' s1 = table t s1"
  using call_table [OF assms(1,2)] assms(3) by auto

text \<open>Simulation: every trace of the group is one of the table.\<close>

lemma trace_simulated:
  assumes "group_trace call others s tr s'" "ok s"
  shows "lapse_trace lapse (table (now s) s) tr (table (now s') s')"
  using assms
proof induction
  case (g_done s)
  show ?case by (rule t_done)
next
  case (g_others s s1 tr s')
  note tr = g_others.IH [OF others_ok [OF g_others.hyps(1) g_others.prems]]
  obtain pks where "table (now s1) s = lapse pks (table (now s) s)"
    using table_lapses [OF g_others.prems others_later [OF g_others.hyps(1) g_others.prems]] by blast
  with tr show ?case using others_same [OF g_others.hyps(1)] t_lapse by metis
next
  case (g_call c s a s1 tr s')
  have s1: "ok s1" using call_ok [OF g_call.hyps(1) g_call.prems] g_call.hyps(2) by simp
  from call_tableE [OF g_call.hyps(1) g_call.prems g_call.hyps(2)] obtain t q where
    t: "now s \<le> t" "table_call c (table t s) = (a, table t s1)" "table (now s1) s1 = lapse q (table t s1)" by metis
  obtain p where "table t s = lapse p (table (now s) s)" using table_lapses [OF g_call.prems t(1)] by blast
  with t(2,3) g_call.IH [OF s1] show ?case using t_lapse t_call by metis
qed

lemma trace_later:
  assumes "group_trace call others s tr s'" "ok s" shows "now s \<le> now s'"
  using assms
proof induction
  case (g_others s s1 tr s')
  then show ?case using others_later [OF g_others.hyps(1)] others_ok [OF g_others.hyps(1)] by fastforce
next
  case (g_call c s a s1 tr s')
  have "ok s1" using call_ok [OF g_call.hyps(1) g_call.prems] g_call.hyps(2) by simp
  then show ?case using g_call.IH call_tableE [OF g_call.hyps(1) g_call.prems g_call.hyps(2)] by (metis order_trans)
qed simp

text \<open>While nothing lapses, the answers are those of the table, whatever the store.\<close>

definition steady :: "int \<Rightarrow> 's \<Rightarrow> bool" where
  "steady D s \<longleftrightarrow> (\<forall>t. now s \<le> t \<longrightarrow> t \<le> D \<longrightarrow> table t s = table (now s) s)"

lemma steady_call:
  assumes "plain_call c" "ok s" "call c s = (a, s1)" "steady D s" "lasts unit (now s) D c" "now s1 \<le> D"
  shows "table_call c (table (now s) s) = (a, table (now s1) s1)" "steady D s1" "now s \<le> now s1"
proof -
  from call_tableE [OF assms(1-3)] obtain t where t: "now s \<le> t" "t \<le> now s1" "table_call c (table t s) = (a, table t s1)"
    and l: "\<And>t'. t \<le> t' \<Longrightarrow> table t' s = table t s \<Longrightarrow> lasts unit t t' c \<Longrightarrow> table t' s1 = table t s1" by metis
  have same: "table t' s1 = table t s1" if "t \<le> t'" "t' \<le> D" for t'
  proof (rule l [OF that(1)])
    show "table t' s = table t s" using assms(4,6) t that unfolding steady_def by (metis order_trans)
    show "lasts unit t t' c" by (rule lasts_before [OF lasts_mono [OF assms(5) t(1)] that(2)])
  qed
  have now: "table (now s1) s1 = table t s1" by (rule same [OF t(2) assms(6)])
  have "table t s = table (now s) s" using assms(4,6) t unfolding steady_def by (metis order_trans)
  with t(3) now show "table_call c (table (now s) s) = (a, table (now s1) s1)" by simp
  show "steady D s1" unfolding steady_def using same now t(2) by (metis order_trans)
  show "now s \<le> now s1" using t by simp
qed

lemma steady_trace:
  assumes "group_trace call others s tr s'" "ok s" "steady D s" "now s' \<le> D"
    and "\<And>c. c \<in> set (map fst tr) \<Longrightarrow> lasts unit (now s) D c"
  shows "table_calls (map fst tr) (table (now s) s) = (map snd tr, table (now s') s')"
  using assms
proof induction
  case (g_others s s1 tr s')
  have n: "now s \<le> now s1" by (rule others_later [OF g_others.hyps(1) g_others.prems(1)])
  have ok: "ok s1" by (rule others_ok [OF g_others.hyps(1) g_others.prems(1)])
  have "now s1 \<le> D" using trace_later [OF g_others.hyps(2) ok] g_others.prems(3) by simp
  then have "steady D s1" "table (now s1) s1 = table (now s) s"
    using g_others.prems(2) n others_same [OF g_others.hyps(1)] unfolding steady_def by (metis order_trans)+
  with g_others.IH [OF ok _ g_others.prems(3) lasts_mono [OF g_others.prems(4) n]] show ?case by simp
next
  case (g_call c s a s1 tr s')
  have ok: "ok s1" using call_ok [OF g_call.hyps(1) g_call.prems(1)] g_call.hyps(2) by simp
  have "now s1 \<le> D" using trace_later [OF g_call.hyps(3) ok] g_call.prems(3) by simp
  note c = steady_call [OF g_call.hyps(1) g_call.prems(1) g_call.hyps(2) g_call.prems(2) g_call.prems(4) this]
  have "table_calls (map fst tr) (table (now s1) s1) = (map snd tr, table (now s') s')"
  proof (rule g_call.IH [OF ok _ g_call.prems(3)])
    show "steady D s1" by (rule c(2)) simp
    show "lasts unit (now s1) D c'" if "c' \<in> set (map fst tr)" for c'
      by (rule lasts_mono [OF g_call.prems(4)]) (use that c(3) in simp_all)
  qed
  then show ?case using c(1) by simp
qed simp

end

end
