(* ===== verification/Mem_Table.thy ===== *)
theory Mem_Table
  imports Alias_Run Alias_Table
begin

text \<open>
  An alias group in memory implements the table of \<open>Alias_Table\<close>, with values that lapse while their
  aliases wait: who owns an alias and which value a record has, after each operation.
\<close>

subsection \<open>Owners and values after each operation\<close>

lemma owner_tail:
  assumes "alias_consistent m s" "CHR '':'' \<notin> set (Field ref)"
  shows "alias_tail (Field ref) (Value ref) \<in> hash_tails (hashes (mem_abs m s) pk) \<longleftrightarrow>
      alias_owner m s ref = Some pk"
proof -
  have g: "g_inv (mem_abs m s)" using assms(1) by (simp add: alias_consistent_abs)
  show ?thesis
    using g_tails_mem [OF g _ assms(2)] alias_owner_iff [OF assms, of pk]
    by (auto simp: hash_tails_def split: option.splits)
qed

lemma owner_has_hash:
  "alias_consistent m s \<Longrightarrow> CHR '':'' \<notin> set (Field ref) \<Longrightarrow> alias_owner m s ref = Some pk \<Longrightarrow>
     hashes (mem_abs m s) pk \<noteq> None"
  by (auto simp: alias_owner_iff)

lemma expired_now_le:
  assumes "mono_clock (aclock g)"
  shows "g_now g \<le> g_now (snd (g_expired d g))" "g_now (snd (g_expired d g)) \<le> g_now (snd (g_expired d' (snd (g_expired d g))))"
  using g_now_mono(2) [OF assms, of d] g_now_mono(2) [OF g_now_mono(1) [OF assms, of d], of d'] by simp_all

lemma g_GetByAlias_live_after:
  assumes inv: "g_inv g"
    and h: "hashes g pk = Some h" "fmlookup (mh_fields h) (Field ref) = Some (Value ref)"
    and e: "vals g pk = Some e"
    and live: "\<not> expired_at (e_expiresAt e) (g_now (snd (g_GetByAlias ref g)))"
  shows "fst (g_GetByAlias ref g) = Inr (e_val e)"
proof -
  let ?d = "mh_expiresAt h"
  have p: "ptrs g (alias_tail (Field ref) (Value ref)) = Some \<lparr>e_val = pk, e_expiresAt = ?d\<rparr>"
    using g_invD(3) [OF inv h] by simp
  have bd: "before (e_expiresAt e) ?d" using g_invD(5) [OF inv h(1)] e by auto
  note m = g_invD(1) [OF inv]
  let ?g1 = "snd (g_expired ?d g)"
  let ?g2 = "snd (g_expired ?d ?g1)"
  have m1: "mono_clock (aclock ?g1)" by (rule g_now_mono(1) [OF m])
  have m2: "mono_clock (aclock ?g2)" by (rule g_now_mono(1) [OF m1])
  show ?thesis
  proof (cases "expired_at ?d (g_now g) \<or> expired_at ?d (g_now ?g1)")
    case True
    then have "expired_at (e_expiresAt e) (g_now (snd (g_GetByAlias ref g)))"
      using p h e expired_now_le(1) [OF m, of ?d] expired_now_le(2) [OF m, of ?d ?d] bd
      by (auto simp: g_GetByAlias_def case_prod_unfold Let_def
          intro: expired_at_mono [OF before_expired [OF bd]])
    with live show ?thesis by simp
  next
    case False
    then have r: "g_GetByAlias ref g = g_GetValue pk ?g2"
      using p h by (simp add: g_GetByAlias_def case_prod_unfold Let_def)
    have "g_now ?g2 \<le> g_now (snd (g_GetValue pk ?g2))"
      using e g_now_mono(2) [OF m2] by (simp add: g_GetValue_def case_prod_unfold Let_def)
    then have "\<not> expired_at (e_expiresAt e) (g_now ?g2)"
      using live expired_at_mono unfolding r by blast
    then show ?thesis using e by (simp add: r g_GetValue_fst)
  qed
qed

lemma mao_GetByAlias_answer:
  assumes "alias_consistent m s" "CHR '':'' \<notin> set (Field ref)"
  shows "alias_owner m s ref = None \<Longrightarrow> fst (mao_GetByAlias m ref s) = Inl ErrStoreMiss"
    and "alias_owner m s ref = Some pk \<Longrightarrow> \<exists>e. fmlookup (data s) (valueKey m pk) = Some e \<and>
      (fst (mao_GetByAlias m ref s) = Inr (e_val e) \<or>
       fst (mao_GetByAlias m ref s) = Inl ErrStoreMiss \<and>
       expired_at (e_expiresAt e) (mem_now (snd (mao_GetByAlias m ref s))))"
proof -
  have g: "g_inv (mem_abs m s)" using assms(1) by (simp add: alias_consistent_abs)
  show "alias_owner m s ref = None \<Longrightarrow> fst (mao_GetByAlias m ref s) = Inl ErrStoreMiss"
    by (simp add: alias_owner_def mao_GetByAlias_def split: option.splits)
  assume "alias_owner m s ref = Some pk"
  then obtain h where h: "hashes (mem_abs m s) pk = Some h" "fmlookup (mh_fields h) (Field ref) = Some (Value ref)"
    using alias_owner_iff [OF assms] by auto
  obtain e where e: "vals (mem_abs m s) pk = Some e" using g_invD(5) [OF g h(1)] by blast
  have "fst (mao_GetByAlias m ref s) = Inr (e_val e) \<or>
       fst (mao_GetByAlias m ref s) = Inl ErrStoreMiss \<and>
       expired_at (e_expiresAt e) (mem_now (snd (mao_GetByAlias m ref s)))"
  proof (cases "expired_at (e_expiresAt e) (mem_now (snd (mao_GetByAlias m ref s)))")
    case False
    then show ?thesis
      using g_GetByAlias_live_after [OF g h e] mem_abs_sel(5) [of m "snd (mao_GetByAlias m ref s)"]
      by (simp add: mao_GetByAlias_abs)
  next
    case True
    have p: "ptrs (mem_abs m s) (alias_tail (Field ref) (Value ref)) =
        Some \<lparr>e_val = pk, e_expiresAt = mh_expiresAt h\<rparr>" using g_invD(3) [OF g h] by simp
    with h e True show ?thesis
      by (auto simp: mao_GetByAlias_abs g_GetByAlias_def g_GetValue_fst case_prod_unfold Let_def)
  qed
  with e show "\<exists>e. fmlookup (data s) (valueKey m pk) = Some e \<and>
      (fst (mao_GetByAlias m ref s) = Inr (e_val e) \<or>
       fst (mao_GetByAlias m ref s) = Inl ErrStoreMiss \<and>
       expired_at (e_expiresAt e) (mem_now (snd (mao_GetByAlias m ref s))))" by auto
qed

lemma owner_put_alias:
  assumes "alias_consistent m s" "CHR '':'' \<notin> set (Field ref)" "CHR '':'' \<notin> set (Field ref')"
  shows "alias_owner m (snd (mao_PutByAlias m pk ref val ttl s)) ref' =
      (if ref' = ref then Some pk
       else if Field ref' = Field ref \<and> alias_owner m s ref' = Some pk then None
       else alias_owner m s ref')"
proof -
  have i: "mem_inv s" and g: "g_inv (mem_abs m s)" using assms(1) by (simp_all add: alias_consistent_abs)
  let ?s' = "snd (mao_PutByAlias m pk ref val ttl s)"
  have abs: "mem_abs m ?s' = g_PutByAlias pk ref val ttl (mem_abs m s)" by (rule mao_PutByAlias_abs(1) [OF i])
  have own: "fmlookup (group_fields (mem_abs m s) pk) (Field ref') = Some (Value ref') \<longleftrightarrow>
      alias_owner m s ref' = Some pk"
    using alias_owner_iff [OF assms(1,3), of pk] by (auto simp: group_fields_def split: option.splits)
  have eq: "ref' = ref \<longleftrightarrow> Field ref' = Field ref \<and> Value ref' = Value ref"
    by (cases ref; cases ref') simp
  show ?thesis
    unfolding alias_owner_abs [of m ?s'] abs g_PutByAlias_ptrs [OF g assms(2,3)] own eq
      if_distrib [of "map_option e_val"] alias_owner_abs [of m s, symmetric]
    by auto
qed

lemma vals_put_alias:
  assumes "alias_consistent m s"
  shows "fmlookup (data (snd (mao_PutByAlias m pk ref val ttl s))) (valueKey m q) =
      (if q = pk then Some \<lparr>e_val = val, e_expiresAt = deadline (mem_now s) ttl\<rparr>
       else fmlookup (data s) (valueKey m q))"
proof -
  have "mem_inv s" using assms by (simp add: alias_consistent_abs)
  from mao_PutByAlias_abs(1) [OF this, of m pk ref val ttl] show ?thesis
    using mem_abs_sel(1) [of m "snd (mao_PutByAlias m pk ref val ttl s)" q, symmetric] by (simp add: g_PutByAlias_vals)
qed

lemma owner_put_value:
  assumes "alias_consistent m s"
  shows "alias_owner m (snd (mao_PutValue m pk val ttl s)) r = alias_owner m s r"
    and "fmlookup (data (snd (mao_PutValue m pk val ttl s))) (valueKey m q) =
      (if q = pk then Some \<lparr>e_val = val, e_expiresAt = deadline (mem_now s) ttl\<rparr>
       else fmlookup (data s) (valueKey m q))"
proof -
  let ?s' = "snd (mao_PutValue m pk val ttl s)"
  have "mem_inv s" using assms by (simp add: alias_consistent_abs)
  note abs = mao_PutValue_abs(2) [OF this, of m pk val ttl]
  show "alias_owner m ?s' r = alias_owner m s r"
    unfolding alias_owner_abs abs
    by (cases "ptrs (mem_abs m s) (alias_tail (Field r) (Value r))") (simp_all add: g_PutValue_def)
  show "fmlookup (data ?s') (valueKey m q) = (if q = pk then Some \<lparr>e_val = val, e_expiresAt = deadline (mem_now s) ttl\<rparr>
       else fmlookup (data s) (valueKey m q))"
    using abs mem_abs_sel(1) [of m ?s' q, symmetric] by (simp add: g_PutValue_def)
qed

lemma owner_evict:
  assumes "alias_consistent m s" "CHR '':'' \<notin> set (Field ref')"
  shows "alias_owner m (snd (mao_EvictByPrimary m pk s)) ref' =
      (if alias_owner m s ref' = Some pk then None else alias_owner m s ref')"
proof -
  let ?s' = "snd (mao_EvictByPrimary m pk s)"
  have i: "mem_inv s" using assms(1) by (simp add: alias_consistent_abs)
  have abs: "mem_abs m ?s' = g_evict pk (mem_abs m s)" by (rule mao_EvictByPrimary_abs(2) [OF i])
  show ?thesis
    using owner_tail [OF assms, of pk] unfolding alias_owner_abs [of m ?s'] abs g_evict_simps
      if_distrib [of "map_option e_val"] alias_owner_abs [of m s, symmetric] by simp
qed

lemma vals_evict:
  assumes "alias_consistent m s"
  shows "fmlookup (data (snd (mao_EvictByPrimary m pk s))) (valueKey m q) =
      (if q = pk then None else fmlookup (data s) (valueKey m q))"
    and "fmlookup (members (snd (mao_EvictByPrimary m pk s))) (membersKey m q) =
      (if q = pk then None else fmlookup (members s) (membersKey m q))"
proof -
  let ?s' = "snd (mao_EvictByPrimary m pk s)"
  have i: "mem_inv s" using assms by (simp add: alias_consistent_abs)
  note abs = mao_EvictByPrimary_abs(2) [OF i, of m pk]
  show "fmlookup (data ?s') (valueKey m q) = (if q = pk then None else fmlookup (data s) (valueKey m q))"
    "fmlookup (members ?s') (membersKey m q) = (if q = pk then None else fmlookup (members s) (membersKey m q))"
    using abs mem_abs_sel(1,2) [of m ?s' q, symmetric] by simp_all
qed

lemma EvictByAlias_owner:
  "mao_EvictByAlias m ref s =
     (case alias_owner m s ref of None \<Rightarrow> (None, s) | Some owner \<Rightarrow> mao_EvictByPrimary m owner s)"
  by (auto simp: mao_EvictByPrimary_def mao_EvictByAlias_def alias_owner_def split: option.splits)

lemma mao_GetByAlias_hit:
  assumes "alias_consistent m s" "plain_field ref" "fst (mao_GetByAlias m ref s) = Inr b"
  shows "\<exists>pk e. alias_owner m s ref = Some pk \<and> fmlookup (data s) (valueKey m pk) = Some e \<and> e_val e = b \<and>
    \<not> expired_at (e_expiresAt e) (mem_now s)"
proof -
  have g: "g_inv (mem_abs m s)" and nf: "CHR '':'' \<notin> set (Field ref)"
    using assms(1,2) by (simp_all add: alias_consistent_abs plain_field_def)
  note n = g_now_mono [OF g_invD(1) [OF g]]
  have hit: "fst (g_GetByAlias ref (mem_abs m s)) = Inr b" using assms(3) by (simp add: mao_GetByAlias_abs)
  then obtain pe where pe: "ptrs (mem_abs m s) (alias_tail (Field ref) (Value ref)) = Some pe"
    by (auto simp: g_GetByAlias_def split: option.splits)
  with hit obtain h where h: "hashes (mem_abs m s) (e_val pe) = Some h"
    by (auto simp: g_GetByAlias_def case_prod_unfold Let_def split: option.splits if_splits)
  define g' where "g' = snd (g_expired (mh_expiresAt h) (snd (g_expired (e_expiresAt pe) (mem_abs m s))))"
  have g': "vals g' = vals (mem_abs m s)" "fst (g_GetValue (e_val pe) g') = Inr b"
    using hit pe h by (auto simp: g'_def g_GetByAlias_def case_prod_unfold Let_def split: option.splits if_splits)
  have le: "g_now (mem_abs m s) \<le> g_now g'"
    unfolding g'_def using n(2) g_now_mono(2) [OF n(1)] by (rule order_trans)
  from g' obtain e where e: "vals (mem_abs m s) (e_val pe) = Some e" "e_val e = b" "\<not> expired_at (e_expiresAt e) (g_now g')"
    by (auto simp: g_GetValue_fst split: option.splits if_splits)
  moreover have "\<not> expired_at (e_expiresAt e) (mem_now s)" using e(3) le expired_at_mono by auto
  moreover have "alias_owner m s ref = Some (e_val pe)" using pe by (simp add: alias_owner_abs)
  ultimately show ?thesis by auto
qed

subsection \<open>The table of a group in memory\<close>

definition unexpired :: "int \<Rightarrow> entry option \<Rightarrow> bytes option" where
  "unexpired t x = (case x of None \<Rightarrow> None | Some e \<Rightarrow> if expired_at (e_expiresAt e) t then None else Some (e_val e))"

lemma unexpired_simps [simp]:
  "unexpired t None = None"
  "unexpired t (Some e) = (if expired_at (e_expiresAt e) t then None else Some (e_val e))"
  by (simp_all add: unexpired_def)

definition mem_table :: "memAliasOps \<Rightarrow> int \<Rightarrow> memstore \<Rightarrow> alias_table" where
  "mem_table m t s =
     \<lparr>at_value = (\<lambda>pk. unexpired t (fmlookup (data s) (valueKey m pk))),
      at_owner = (\<lambda>ref. if plain_field ref then alias_owner m s ref else None)\<rparr>"

fun mem_call :: "memAliasOps \<Rightarrow> alias_call \<Rightarrow> (alias_answer, memstore) op" where
  "mem_call m (CGet pk) s = apfst read_answer (mao_GetValue m pk s)"
| "mem_call m (CGetAlias ref) s = apfst read_answer (mao_GetByAlias m ref s)"
| "mem_call m (CPut pk b ttl) s = apfst write_answer (mao_PutValue m pk b ttl s)"
| "mem_call m (CPutAlias pk ref b ttl) s = apfst write_answer (mao_PutByAlias m pk ref b ttl s)"
| "mem_call m (CEvict pk) s = apfst write_answer (mao_EvictByPrimary m pk s)"
| "mem_call m (CEvictAlias ref) s = apfst write_answer (mao_EvictByAlias m ref s)"

abbreviation mem_trace :: "memAliasOps \<Rightarrow> memstore \<Rightarrow> (alias_call \<times> alias_answer) list \<Rightarrow> memstore \<Rightarrow> bool" where
  "mem_trace m \<equiv> group_trace (mem_call m) (others_alias m)"

lemma mem_table_later: "t \<le> t' \<Longrightarrow> \<exists>pks. mem_table m t' s = table_valueless pks (mem_table m t s)"
  by (intro exI [of _ "{pk. unexpired t' (fmlookup (data s) (valueKey m pk)) = None}"])
    (auto simp: mem_table_def table_valueless_def unexpired_def fun_eq_iff dest: expired_at_mono split: option.splits if_splits)

lemma mem_call_op: "plain_call c \<Longrightarrow> alias_op m s (snd (mem_call m c s))"
  by (cases c) (auto simp: plain_field_def intro: alias_op.intros)

text \<open>What a call leaves, seen at any instant that the record it writes outlives.\<close>

lemma mem_call_table:
  assumes "plain_call c" "alias_consistent m s" "lasts id (mem_now s) t c"
  shows "mem_table m t (snd (mem_call m c s)) = snd (table_call c (mem_table m t s))"
proof (cases c)
  case (CGet pk)
  have "data (snd (mao_GetValue m pk s)) = data s"
    by (auto simp: mao_GetValue_def case_prod_unfold Let_def split: option.splits)
  then show ?thesis by (simp add: CGet mem_table_def alias_owner_def cong: if_cong)
next
  case (CGetAlias ref)
  have "data (snd (mao_GetByAlias m ref s)) = data s"
    by (auto simp: mao_GetByAlias_def case_prod_unfold Let_def split: option.splits)
  then show ?thesis by (simp add: CGetAlias mem_table_def alias_owner_def cong: if_cong)
next
  case (CPut pk b ttl)
  with assms(3) show ?thesis
    by (auto simp: mem_table_def owner_put_value [OF assms(2)] table_put_def fun_eq_iff)
next
  case (CPutAlias pk ref b ttl)
  with assms(1,3) show ?thesis
    using owner_put_alias [OF assms(2), of ref]
    by (auto simp: mem_table_def vals_put_alias [OF assms(2)] table_put_alias_def plain_field_def fun_eq_iff)
next
  case (CEvict pk)
  then show ?thesis
    using owner_evict [OF assms(2)] by (auto simp: mem_table_def vals_evict(1) [OF assms(2)] table_evict_def plain_field_def fun_eq_iff)
next
  case (CEvictAlias ref)
  with assms(1) show ?thesis
    using owner_evict [OF assms(2)]
    by (auto simp: mem_table_def EvictByAlias_owner vals_evict(1) [OF assms(2)] table_evict_alias_def table_evict_def
        plain_field_def fun_eq_iff split: option.splits)
qed

text \<open>The instant that decides the answer: the end of a read by alias that misses, else the start.\<close>

lemma mem_call_answer:
  assumes "plain_call c" "alias_consistent m s"
  shows "\<exists>t. mem_now s \<le> t \<and> t \<le> mem_now (snd (mem_call m c s)) \<and>
    fst (table_call c (mem_table m t s)) = fst (mem_call m c s) \<and>
    (\<forall>t'. t \<le> t' \<longrightarrow> lasts id t t' c \<longrightarrow> lasts id (mem_now s) t' c) \<and> lasts id t t c"
proof -
  have le: "mem_now s \<le> mem_now (snd (mem_call m c s))"
    using alias_op_later [OF mem_call_op [OF assms(1)]] assms(2) by (auto simp: alias_consistent_abs intro: later_now)
  have i: "mem_inv s" using assms(2) by (simp add: alias_consistent_abs)
  show ?thesis
  proof (cases "\<exists>ref. c = CGetAlias ref \<and> (\<exists>e. fst (mao_GetByAlias m ref s) = Inl e)")
    case True
    then obtain ref e where c: "c = CGetAlias ref" and e: "fst (mao_GetByAlias m ref s) = Inl e" by blast
    have nf: "CHR '':'' \<notin> set (Field ref)" using assms(1) by (simp add: c plain_field_def)
    have "fst (table_call c (mem_table m (mem_now (snd (mem_call m c s))) s)) = fst (mem_call m c s)"
      using mao_GetByAlias_answer [OF assms(2) nf] e
      by (cases "alias_owner m s ref")
        (auto simp: c mem_table_def plain_field_def nf table_get_alias_def table_get_def)
    with le show ?thesis by (intro exI [of _ "mem_now (snd (mem_call m c s))"]) (simp add: c)
  next
    case False
    have "fst (table_call c (mem_table m (mem_now s) s)) = fst (mem_call m c s)"
    proof (cases c)
      case (CGet pk)
      then show ?thesis
        by (auto simp: mem_table_def table_get_def mao_GetValue_def case_prod_unfold Let_def split: option.splits)
    next
      case (CGetAlias ref)
      with False obtain b where b: "fst (mao_GetByAlias m ref s) = Inr b" by (cases "fst (mao_GetByAlias m ref s)") auto
      have "plain_field ref" using assms(1) CGetAlias by simp
      with mao_GetByAlias_hit [OF assms(2) this b] b show ?thesis
        by (auto simp: CGetAlias mem_table_def table_get_alias_def table_get_def)
    qed (simp_all add: mao_PutValue_abs(1) [OF i] mao_PutByAlias_abs(2) [OF i] mao_EvictByPrimary_abs(1) [OF i]
        mao_EvictByAlias_abs(1) [OF i] write_answer_def)
    with le show ?thesis by (intro exI [of _ "mem_now s"]) (cases c; simp add: deadline_not_expired)
  qed
qed

interpretation mem_group: alias_group
  "mem_call m" "others_alias m" "mem_table m" mem_now "alias_consistent m" table_valueless id for m
proof unfold_locales
  fix c s
  assume c: "plain_call c" and s: "alias_consistent m s"
  show "alias_consistent m (snd (mem_call m c s))" by (rule alias_op_consistent [OF mem_call_op [OF c] s])
  from mem_call_answer [OF c s] obtain t where t: "mem_now s \<le> t" "t \<le> mem_now (snd (mem_call m c s))"
    "fst (table_call c (mem_table m t s)) = fst (mem_call m c s)"
    "\<And>t'. t \<le> t' \<Longrightarrow> lasts id t t' c \<Longrightarrow> lasts id (mem_now s) t' c" "lasts id t t c" by blast
  have T: "t \<le> t' \<Longrightarrow> lasts id t t' c \<Longrightarrow>
      mem_table m t' (snd (mem_call m c s)) = snd (table_call c (mem_table m t' s))" for t'
    by (rule mem_call_table [OF c s t(4)])
  show "\<exists>t. mem_now s \<le> t \<and> t \<le> mem_now (snd (mem_call m c s)) \<and>
      table_call c (mem_table m t s) = (fst (mem_call m c s), mem_table m t (snd (mem_call m c s))) \<and>
      (\<exists>pks. mem_table m (mem_now (snd (mem_call m c s))) (snd (mem_call m c s)) =
         table_valueless pks (mem_table m t (snd (mem_call m c s)))) \<and>
      (\<forall>t'. t \<le> t' \<longrightarrow> mem_table m t' s = mem_table m t s \<longrightarrow> lasts id t t' c \<longrightarrow>
         mem_table m t' (snd (mem_call m c s)) = mem_table m t (snd (mem_call m c s)))"
    using t(1-3) T T [OF order_refl t(5)] mem_table_later [OF t(2), of m "snd (mem_call m c s)"]
    by (intro exI [of _ t] conjI) (simp_all add: prod_eq_iff)
next
  fix s s' t
  assume o: "others_alias m s s'"
  then show "mem_table m t s' = mem_table m t s" by (simp add: mem_table_def alias_owner_def others_alias_def fun_eq_iff)
  show "alias_consistent m s \<Longrightarrow> alias_consistent m s'" by (rule others_alias_consistent [OF o])
  show "alias_consistent m s \<Longrightarrow> mem_now s \<le> mem_now s'"
    using o by (auto simp: others_alias_def alias_consistent_abs intro: later_now)
next
  fix s t
  assume "mem_now s \<le> t"
  then show "\<exists>pks. mem_table m t s = table_valueless pks (mem_table m (mem_now s) s)" by (rule mem_table_later)
qed

text \<open>A store without keys of the group.\<close>

definition mem_group_empty :: "memAliasOps \<Rightarrow> memstore \<Rightarrow> bool" where
  "mem_group_empty m s \<longleftrightarrow> (\<forall>pk. fmlookup (data s) (valueKey m pk) = None) \<and>
     (\<forall>pk. fmlookup (members s) (membersKey m pk) = None) \<and>
     (\<forall>t. fmlookup (data s) (tail_key (mo_ns m) t (mo_sharded m)) = None)"

lemma mem_table_empty: "mem_group_empty m s \<Longrightarrow> mem_table m t s = empty_table"
  by (auto simp: mem_group_empty_def mem_table_def empty_table_def alias_owner_def)

lemma outlasts_mem: "outlasts d c \<Longrightarrow> t' - t \<le> d \<Longrightarrow> lasts id t t' c"
  by (cases c) (auto simp: deadline_def)

lemma mem_trace_answers:
  assumes "mem_trace m s tr s'" "mem_inv s" "mem_group_empty m s" "mem_now s' - mem_now s \<le> d"
    and "\<And>c. c \<in> set (map fst tr) \<Longrightarrow> outlasts d c"
  shows "table_calls (map fst tr) empty_table = (map snd tr, mem_table m (mem_now s') s')"
proof -
  have ok: "alias_consistent m s"
    using assms(2,3) by (intro alias_consistent_empty) (simp_all add: mem_group_empty_def)
  have st: "mem_group.steady m (mem_now s') s" by (simp add: mem_group.steady_def mem_table_empty [OF assms(3)])
  note l = outlasts_mem [OF assms(5) assms(4)]
  from mem_group.steady_trace [OF assms(1) ok st order_refl l] show ?thesis
    by (simp add: mem_table_empty [OF assms(3)])
qed

end
