(* ===== verification/Fixtures.thy ===== *)
theory Fixtures
  imports Cache_Run
begin

text \<open>
  Concrete values that the witnesses of the properties evaluate: a codec that quotes, a type of
  values with a unique key, a clock that ticks once per reading, an empty memory store and the
  caches \<open>demo\<close> (plain) and \<open>demo_group\<close> (alias group) on it.
\<close>

definition demo_codec :: "string Codec" where
  "demo_codec = \<lparr>
     cd_Marshal = (\<lambda>v. case v of None \<Rightarrow> Inr ''null'' | Some s \<Rightarrow> Inr (CHR ''q'' # s)),
     cd_Unmarshal = (\<lambda>b. case b of
        [] \<Rightarrow> Inl (OtherErr ''unexpected end of input'')
      | ch # r \<Rightarrow> if ch = CHR ''q'' then Inr r else Inl (OtherErr ''invalid character''))\<rparr>"

definition demo_type :: "string gotype" where
  "demo_type = \<lparr>t_String = ''string'', t_pointer = False, t_CacheUniqueKey = Some (\<lambda>v. v)\<rparr>"

definition demo_metrics :: cacheMetrics where
  "demo_metrics = \<lparr>m_hit = ''hit'', m_loaded = ''loaded'', m_loadedNotCached = ''loaded_not_cached'',
     m_negativeHit = ''negative_hit'', m_loadError = ''load_error'', m_written = ''written'',
     m_writtenNotCached = ''written_not_cached'', m_evict = ''evict'', m_loadLatency = ''load_latency''\<rparr>"

definition demo0 :: "(string, memstore, nat) Cache" where
  "demo0 = \<lparr>c_type = demo_type, c_store = mem_store, c_batch = None, c_prefixStore = None,
     c_prefixAlias = None,
     c_opts = \<lparr>o_Prefix = ''user'', o_TTL = 100, o_AllowInfinite = False, o_NegativeTTL = 50,
               o_Codec = demo_codec, o_DisableSingleflight = True\<rparr>,
     c_codec = demo_codec, c_group = None, c_jitterFraction = Fin 0, c_metrics = Some demo_metrics,
     c_aliasOps = None\<rparr>"

definition demo :: "(string, memstore, nat) Cache" where "demo = on_mem demo0"

definition demo_handle :: memAliasOps where "demo_handle = \<lparr>mo_ns = ''user'', mo_sharded = False\<rparr>"

definition demo_group :: "(string, memstore, nat) Cache" where "demo_group = on_group demo_handle demo0"

definition demo_world :: "(memstore, nat) world" where
  "demo_world = \<lparr>w_store = mem_New int sorted_list_of_fset, w_app = 0, w_rand = (\<lambda>_. Fin 0),
     w_elapsed = (\<lambda>_. Fin 0), w_metrics = [], w_range = sorted_list_of_fset, w_cvt = (\<lambda>_. 0)\<rparr>"

text \<open>A loader that finds \<open>''ann''\<close>, one that finds nothing, one that fails; each counts its runs.\<close>

definition demo_load :: "(string, nat) loader" where
  "demo_load x = ((Some ''ann'', None), Suc x)"

definition demo_absent :: "(string, nat) loader" where
  "demo_absent x = ((None, Some ErrNotFound), Suc x)"

definition demo_fail :: "(string, nat) loader" where
  "demo_fail x = ((None, Some (OtherErr ''down'')), Suc x)"

lemma demo_simps [simp]:
  "c_opts demo0 = \<lparr>o_Prefix = ''user'', o_TTL = 100, o_AllowInfinite = False, o_NegativeTTL = 50,
     o_Codec = demo_codec, o_DisableSingleflight = True\<rparr>"
  "c_codec demo0 = demo_codec" "c_jitterFraction demo0 = Fin 0" "solo_flight demo0"
  "c_group demo0 = None" "c_type demo0 = demo_type"
  by (simp_all add: demo0_def solo_flight_def)

lemma is_unit_float_0 [simp]: "is_unit_float (Fin 0)"
  by (auto simp: is_unit_float_def is_double_def intro: exI [of _ 0])

lemma demo_config [simp]: "config_ok demo0" "finite_ttl demo0"
  by (simp_all add: config_ok_def finite_ttl_def)

lemma demo_codec_ok [simp]: "codec_ok demo0 v (CHR ''q'' # v)"
  by (simp add: codec_ok_def demo_codec_def negativeMarker_def)

lemma demo_world_ok [simp]:
  "mem_inv (w_store demo_world)" "rand_ok (w_rand demo_world)" "range_ok (w_range demo_world)"
  "w_app demo_world = 0" "data (w_store demo_world) = fmempty" "members (w_store demo_world) = fmempty"
  "mem_now (w_store demo_world) = 0"
  by (simp_all add: demo_world_def mem_inv_def mem_New_def mono_clock_def range_ok_sorted rand_ok_def
      mem_now_def)

lemma demo_loaders [simp]:
  "demo_load x = ((Some ''ann'', None), Suc x)"
  "demo_absent x = ((None, Some ErrNotFound), Suc x)"
  "demo_fail x = ((None, Some (OtherErr ''down'')), Suc x)"
  by (simp_all add: demo_load_def demo_absent_def demo_fail_def)

lemma demo_ttl [simp]:
  "positiveTTL (on_mem demo0) w = (100, w)" "positiveTTL (on_group m demo0) w = (100, w)"
  "negativeTTL (on_mem demo0) w = (50, w)" "negativeTTL (on_group m demo0) w = (50, w)"
  by (simp_all add: positiveTTL_def negativeTTL_def jittered_def applyJitter_def f64_le_def on_mem_def
      on_group_def demo0_def)

lemma demo_world_sel [simp]: "w_metrics demo_world = []" "w_elapsed demo_world i = Fin 0"
  by (simp_all add: demo_world_def)

lemma demo_sel [simp]: "solo_flight demo" "c_metrics demo = Some demo_metrics" "solo_flight demo_group"
  "c_metrics demo_group = Some demo_metrics"
  "c_aliasOps demo = None" "c_aliasOps demo_group = Some (mem_alias_ops demo_handle)"
  by (simp_all add: demo_def demo_group_def on_mem_def on_group_def demo0_def solo_flight_def)

lemma demo_miss [simp]:
  "getValue demo k demo_world = (Inl ErrStoreMiss, demo_world)"
  "getValue (on_mem demo0) k demo_world = (Inl ErrStoreMiss, demo_world)"
  "getValue demo_group k demo_world = (Inl ErrStoreMiss, demo_world)"
  "cached_answer c (Inl e) = None"
  by (simp_all add: demo_def demo_group_def plain.get_impl grp.get_impl on_store_def mem_Get_def mem_Get_read_def
      mao_GetValue_def cached_answer_def)

lemma demo_within [simp]: "within_ttl demo0 d t0 t \<longleftrightarrow> d \<le> 2 ^ 53 \<and> t - t0 \<le> d"
  using of_int_le_iff [of "t - t0" d, where 'a = rat] by (simp add: within_ttl_def)

lemma demo_marshal [simp]: "cd_Marshal demo_codec (Some v) = Inr (CHR ''q'' # v)"
  by (simp add: demo_codec_def)

lemma demo_set_now [simp]:
  "0 < ttl \<Longrightarrow> mem_now (snd (mem_Set k b ttl (w_store demo_world))) = 1"
  by (simp add: mem_Set_clock demo_world_def mem_New_def)

lemma demo_stored [simp]:
  "w_store (snd (PutByKey (on_mem demo0) k demo_load demo_world)) =
     snd (mem_Set (fullKey demo0 k) ''qann'' 100 (w_store demo_world))"
  "w_app (snd (PutByKey (on_mem demo0) k demo_load demo_world)) = 1"
  "w_range (snd (PutByKey (on_mem demo0) k demo_load demo_world)) = w_range demo_world"
  "w_store (snd (GetByKey (on_mem demo0) k demo_load demo_world)) =
     snd (mem_Set (fullKey demo0 k) ''qann'' 100 (w_store demo_world))"
  "w_store (snd (GetByKey (on_mem demo0) k demo_absent demo_world)) =
     snd (mem_Set (fullKey demo0 k) negativeMarker 50 (w_store demo_world))"
proof -
  have a: "on_app demo_load demo_world = ((Some ''ann'', None), demo_world\<lparr>w_app := 1\<rparr>)"
    by (simp add: on_app_def)
  show "w_store (snd (PutByKey (on_mem demo0) k demo_load demo_world)) =
      snd (mem_Set (fullKey demo0 k) ''qann'' 100 (w_store demo_world))"
    "w_app (snd (PutByKey (on_mem demo0) k demo_load demo_world)) = 1"
    "w_range (snd (PutByKey (on_mem demo0) k demo_load demo_world)) = w_range demo_world"
    by (simp_all add: PutByKey_eq a store_value_def plain.set_impl case_prod_unfold Let_def)
  show "w_store (snd (GetByKey (on_mem demo0) k demo_load demo_world)) =
      snd (mem_Set (fullKey demo0 k) ''qann'' 100 (w_store demo_world))"
    "w_store (snd (GetByKey (on_mem demo0) k demo_absent demo_world)) =
      snd (mem_Set (fullKey demo0 k) negativeMarker 50 (w_store demo_world))"
    using GetByKey_from_loader(3) [of "on_mem demo0" k demo_world demo_load]
      GetByKey_from_loader(3) [of "on_mem demo0" k demo_world demo_absent]
    by (simp_all add: store_value_def store_negative_def plain.set_impl case_prod_unfold Let_def)
qed

end
