(* ===== verification/Alias_Props.thy ===== *)
theory Alias_Props
  imports Cache_Isolation Mem_Table Fixtures
begin

text \<open>
  The properties of alias groups on the memory store: the bookkeeping invariant, who owns an
  alias after each operation, what an alias read answers, and the same through \<open>Cache\<close>.
\<close>

text \<open>C2: The alias invariant.  From a store without keys of the group, in any run of the group's
  operations (with colon-free alias fields) interleaved with anything the rest of the program does to
  other keys, alias pointers and members hashes stay inverse to each other, a pointer expires with its
  members hash, and every members hash has its value, which does not outlive it.\<close>

theorem alias_bookkeeping:
  assumes "mem_inv s0" "\<And>t. fmlookup (data s0) (tail_key (mo_ns m) t (mo_sharded m)) = None"
    and "\<And>pk. fmlookup (members s0) (membersKey m pk) = None"
    and "alias_run m s0 s"
  shows "alias_consistent m s"
  using alias_run_consistent [OF assms(4)] alias_consistent_empty [OF assms(1-3)] by simp

theorem alias_bookkeeping_witness:
  "alias_consistent demo_handle
     (snd (mao_PutByAlias demo_handle ''7'' \<lparr>Field = ''email'', Value = ''a''\<rparr> ''x'' 9 (w_store demo_world)))"
  by (rule alias_bookkeeping [OF _ _ _ alias_run_op [OF a_put_alias, of _ _ "w_store demo_world"]]) simp_all

text \<open>C23: Registering an alias.  \<open>PutByAlias\<close> makes its alias lead to its record and writes the record's
  value; of the other aliases it takes away exactly the old value that this record had for the same
  field; every other alias and every other value stays as it was, also when the alias was stolen.\<close>

theorem put_alias_owner:
  assumes "alias_consistent m s" "CHR '':'' \<notin> set (Field ref)" "CHR '':'' \<notin> set (Field ref')"
  shows "alias_owner m (snd (mao_PutByAlias m pk ref val ttl s)) ref' =
      (if ref' = ref then Some pk
       else if Field ref' = Field ref \<and> alias_owner m s ref' = Some pk then None
       else alias_owner m s ref') \<and>
    fmlookup (data (snd (mao_PutByAlias m pk ref val ttl s))) (valueKey m q) =
      (if q = pk then Some \<lparr>e_val = val, e_expiresAt = deadline (mem_now s) ttl\<rparr>
       else fmlookup (data s) (valueKey m q))"
  using owner_put_alias [OF assms] vals_put_alias [OF assms(1)] by simp

theorem put_alias_owner_witness:
  "alias_owner demo_handle (snd (mao_PutByAlias demo_handle ''7'' \<lparr>Field = ''email'', Value = ''a''\<rparr> ''x'' 9
     (w_store demo_world))) \<lparr>Field = ''email'', Value = ''a''\<rparr> = Some ''7''"
  using put_alias_owner [where m = demo_handle and s = "w_store demo_world" and pk = "''7''" and val = "''x''"
      and ttl = 9 and ref = "\<lparr>Field = ''email'', Value = ''a''\<rparr>"
      and ref' = "\<lparr>Field = ''email'', Value = ''a''\<rparr>"]
  by (simp add: alias_consistent_empty)

text \<open>The group of the witnesses, with one record and one alias in it.\<close>

lemma demo_alias_consistent:
  "alias_consistent demo_handle
     (snd (mao_PutByAlias demo_handle ''7'' \<lparr>Field = ''email'', Value = ''a''\<rparr> ''x'' 9 (w_store demo_world)))"
  by (rule alias_run_consistent [OF ar_op [OF ar_nil a_put_alias]]) (simp_all add: alias_consistent_empty)

text \<open>C29: Evicting a record.  \<open>EvictByPrimary\<close> removes the record's value, its members hash and exactly
  the aliases that led to it, and leaves every other record and alias as it was; \<open>EvictByAlias\<close> does
  this for the record the alias leads to, and nothing for an unknown alias.\<close>

theorem evict_cascade:
  assumes "alias_consistent m s" "CHR '':'' \<notin> set (Field ref')"
  shows "fst (mao_EvictByPrimary m pk s) = None \<and>
    alias_owner m (snd (mao_EvictByPrimary m pk s)) ref' =
      (if alias_owner m s ref' = Some pk then None else alias_owner m s ref') \<and>
    fmlookup (data (snd (mao_EvictByPrimary m pk s))) (valueKey m q) =
      (if q = pk then None else fmlookup (data s) (valueKey m q)) \<and>
    fmlookup (members (snd (mao_EvictByPrimary m pk s))) (membersKey m q) =
      (if q = pk then None else fmlookup (members s) (membersKey m q)) \<and>
    mao_EvictByAlias m ref s =
      (case alias_owner m s ref of None \<Rightarrow> (None, s) | Some owner \<Rightarrow> mao_EvictByPrimary m owner s)"
  using owner_evict [OF assms] vals_evict [OF assms(1)] EvictByAlias_owner [of m ref s]
  by (simp add: mao_EvictByPrimary_def)

theorem evict_cascade_witness:
  "let a = \<lparr>Field = ''email'', Value = ''a''\<rparr>; s = snd (mao_PutByAlias demo_handle ''7'' a ''x'' 9 (w_store demo_world)) in
     alias_owner demo_handle s a = Some ''7'' \<and>
     alias_owner demo_handle (snd (mao_EvictByAlias demo_handle a s)) a = None \<and>
     fmlookup (data (snd (mao_EvictByAlias demo_handle a s))) (valueKey demo_handle ''7'') = None"
proof -
  let ?a = "\<lparr>Field = ''email'', Value = ''a''\<rparr>"
  let ?s = "snd (mao_PutByAlias demo_handle ''7'' ?a ''x'' 9 (w_store demo_world))"
  have o: "alias_owner demo_handle ?s ?a = Some ''7''" by code_simp
  have "CHR '':'' \<notin> set (Field ?a)" by simp
  from evict_cascade [OF demo_alias_consistent this] have
    "alias_owner demo_handle (snd (mao_EvictByPrimary demo_handle ''7'' ?s)) ?a = None"
    "fmlookup (data (snd (mao_EvictByPrimary demo_handle ''7'' ?s))) (valueKey demo_handle ''7'') = None"
    "mao_EvictByAlias demo_handle ?a ?s = mao_EvictByPrimary demo_handle ''7'' ?s"
    using o by simp_all
  with o show ?thesis by (simp only: Let_def simp_thms)
qed

text \<open>C35: Prefix eviction of records.  \<open>EvictByPrimaryPrefix\<close> removes the values, members hashes and
  aliases of exactly the records whose primary key starts with the prefix, and returns how many there
  were.\<close>

theorem prefix_cascade:
  assumes "alias_consistent m s" "CHR '':'' \<notin> set (Field ref')"
  shows "fst (mao_EvictByPrimaryPrefix m pfx s) =
      (int (card {pk. prefix pfx pk \<and> (fmlookup (data s) (valueKey m pk) \<noteq> None \<or>
         fmlookup (members s) (membersKey m pk) \<noteq> None)}), None) \<and>
    alias_owner m (snd (mao_EvictByPrimaryPrefix m pfx s)) ref' =
      (case alias_owner m s ref' of
         None \<Rightarrow> None | Some pk \<Rightarrow> if prefix pfx pk then None else Some pk) \<and>
    fmlookup (data (snd (mao_EvictByPrimaryPrefix m pfx s))) (valueKey m q) =
      (if prefix pfx q then None else fmlookup (data s) (valueKey m q)) \<and>
    fmlookup (members (snd (mao_EvictByPrimaryPrefix m pfx s))) (membersKey m q) =
      (if prefix pfx q then None else fmlookup (members s) (membersKey m q))"
proof -
  have i: "mem_inv s" and g: "g_inv (mem_abs m s)" using assms(1) by (simp_all add: alias_consistent_abs)
  let ?s' = "snd (mao_EvictByPrimaryPrefix m pfx s)"
  let ?S = "g_matching pfx (mem_abs m s)"
  note abs = mao_EvictByPrimaryPrefix_abs [OF i, of m pfx]
  have S: "?S = {pk. prefix pfx pk \<and> (fmlookup (data s) (valueKey m pk) \<noteq> None \<or>
         fmlookup (members s) (membersKey m pk) \<noteq> None)}"
    by (simp add: g_matching_def HasPrefix_def)
  have t: "(\<exists>pk\<in>?S. alias_tail (Field ref') (Value ref') \<in> hash_tails (hashes (mem_abs m s) pk)) \<longleftrightarrow>
      (\<exists>pk. alias_owner m s ref' = Some pk \<and> prefix pfx pk)"
    unfolding owner_tail [OF assms] g_matching_def HasPrefix_def using owner_has_hash [OF assms] by blast
  have "ptrs (g_evict_set ?S (mem_abs m s)) (alias_tail (Field ref') (Value ref')) =
      (if \<exists>pk. alias_owner m s ref' = Some pk \<and> prefix pfx pk then None
       else ptrs (mem_abs m s) (alias_tail (Field ref') (Value ref')))"
    using t by (simp add: g_evict_set_def del: mem_abs_sel)
  then have "alias_owner m ?s' ref' = (if \<exists>pk. alias_owner m s ref' = Some pk \<and> prefix pfx pk then None
      else alias_owner m s ref')"
    unfolding alias_owner_abs [of m ?s'] abs(2) by (simp only: if_distrib [of "map_option e_val"]
        option.map alias_owner_abs [of m s ref', symmetric])
  then have "alias_owner m ?s' ref' = (case alias_owner m s ref' of
         None \<Rightarrow> None | Some pk \<Rightarrow> if prefix pfx pk then None else Some pk)"
    by (cases "alias_owner m s ref'") simp_all
  moreover have "vals (mem_abs m ?s') q = (if prefix pfx q then None else vals (mem_abs m s) q)"
    "hashes (mem_abs m ?s') q = (if prefix pfx q then None else hashes (mem_abs m s) q)"
    unfolding abs(2) by (auto simp: g_evict_set_def g_matching_def HasPrefix_def)
  ultimately show ?thesis using abs(1) S by simp
qed

theorem prefix_cascade_witness:
  "let a = \<lparr>Field = ''email'', Value = ''a''\<rparr>; s = snd (mao_PutByAlias demo_handle ''7'' a ''x'' 9 (w_store demo_world)) in
     alias_owner demo_handle s a = Some ''7'' \<and> fst (mao_EvictByPrimaryPrefix demo_handle ''7'' s) = (1, None) \<and>
     alias_owner demo_handle (snd (mao_EvictByPrimaryPrefix demo_handle ''7'' s)) a = None \<and>
     fmlookup (data (snd (mao_EvictByPrimaryPrefix demo_handle ''7'' s))) (valueKey demo_handle ''7'') = None"
proof -
  let ?a = "\<lparr>Field = ''email'', Value = ''a''\<rparr>"
  let ?s = "snd (mao_PutByAlias demo_handle ''7'' ?a ''x'' 9 (w_store demo_world))"
  have o: "alias_owner demo_handle ?s ?a = Some ''7''" "fst (mao_EvictByPrimaryPrefix demo_handle ''7'' ?s) = (1, None)"
    by code_simp+
  have "CHR '':'' \<notin> set (Field ?a)" by simp
  from prefix_cascade [OF demo_alias_consistent this, of "''7''" "''7''"] have
    "alias_owner demo_handle (snd (mao_EvictByPrimaryPrefix demo_handle ''7'' ?s)) ?a = None"
    "fmlookup (data (snd (mao_EvictByPrimaryPrefix demo_handle ''7'' ?s))) (valueKey demo_handle ''7'') = None"
    using o by simp_all
  with o show ?thesis by (simp only: Let_def simp_thms)
qed

text \<open>What an alias read answers.  \<open>GetByAlias\<close> misses for an alias that leads nowhere; otherwise
  there is a value for the record it leads to, and the read returns that value, or misses when the
  value has expired by the end of the read.  It never returns the value of another record.\<close>

theorem alias_read:
  assumes "alias_consistent m s" "CHR '':'' \<notin> set (Field ref)"
  shows "case alias_owner m s ref of
      None \<Rightarrow> fst (mao_GetByAlias m ref s) = Inl ErrStoreMiss
    | Some pk \<Rightarrow> (\<exists>e. fmlookup (data s) (valueKey m pk) = Some e \<and>
        (fst (mao_GetByAlias m ref s) = Inr (e_val e) \<or>
         fst (mao_GetByAlias m ref s) = Inl ErrStoreMiss \<and>
         expired_at (e_expiresAt e) (mem_now (snd (mao_GetByAlias m ref s)))))"
  using mao_GetByAlias_answer [OF assms] by (simp split: option.splits)

theorem alias_read_witness:
  "fst (mao_GetByAlias demo_handle \<lparr>Field = ''email'', Value = ''a''\<rparr> (w_store demo_world)) = Inl ErrStoreMiss"
  using alias_read [where m = demo_handle and s = "w_store demo_world"
      and ref = "\<lparr>Field = ''email'', Value = ''a''\<rparr>"]
  by (simp add: alias_consistent_empty alias_owner_def)

subsection \<open>Modes\<close>

text \<open>Two handles, on stores of the same abstract content.\<close>

definition same_group :: "memAliasOps \<Rightarrow> memstore \<Rightarrow> memAliasOps \<Rightarrow> memstore \<Rightarrow> bool" where
  "same_group m s m' s' \<longleftrightarrow> mem_inv s \<and> mem_inv s' \<and> mem_abs m s = mem_abs m' s'"

lemma same_groupI:
  assumes "same_group m s m' s'" "later s t" "later s' t'" "mem_abs m t = mem_abs m' t'"
  shows "same_group m t m' t'"
  using assms by (auto simp: same_group_def intro: later_inv)

text \<open>The slot mode does not matter in memory.  Two handles, whatever their namespaces and modes, on
  stores whose groups have the same content: every operation returns the same on both and leaves the
  same content, so that no sequence of calls can tell colocated from sharded.\<close>

theorem mode_independence:
  assumes "same_group m s m' s'"
  shows "(fst (mao_GetValue m pk s) = fst (mao_GetValue m' pk s') \<and>
      same_group m (snd (mao_GetValue m pk s)) m' (snd (mao_GetValue m' pk s'))) \<and>
    (fst (mao_PutValue m pk b ttl s) = fst (mao_PutValue m' pk b ttl s') \<and>
      same_group m (snd (mao_PutValue m pk b ttl s)) m' (snd (mao_PutValue m' pk b ttl s'))) \<and>
    (fst (mao_GetByAlias m ref s) = fst (mao_GetByAlias m' ref s') \<and>
      same_group m (snd (mao_GetByAlias m ref s)) m' (snd (mao_GetByAlias m' ref s'))) \<and>
    (fst (mao_PutByAlias m pk ref b ttl s) = fst (mao_PutByAlias m' pk ref b ttl s') \<and>
      same_group m (snd (mao_PutByAlias m pk ref b ttl s)) m' (snd (mao_PutByAlias m' pk ref b ttl s'))) \<and>
    (fst (mao_EvictByPrimary m pk s) = fst (mao_EvictByPrimary m' pk s') \<and>
      same_group m (snd (mao_EvictByPrimary m pk s)) m' (snd (mao_EvictByPrimary m' pk s'))) \<and>
    (fst (mao_EvictByAlias m ref s) = fst (mao_EvictByAlias m' ref s') \<and>
      same_group m (snd (mao_EvictByAlias m ref s)) m' (snd (mao_EvictByAlias m' ref s'))) \<and>
    (fst (mao_EvictByPrimaryPrefix m pfx s) = fst (mao_EvictByPrimaryPrefix m' pfx s') \<and>
      same_group m (snd (mao_EvictByPrimaryPrefix m pfx s)) m' (snd (mao_EvictByPrimaryPrefix m' pfx s')))"
proof -
  have i: "mem_inv s" "mem_inv s'" and e: "mem_abs m s = mem_abs m' s'"
    using assms by (simp_all add: same_group_def)
  note I = same_groupI [OF assms]
  show ?thesis
    using i by (intro conjI I)
      (simp_all only: mao_GetValue_abs mao_PutValue_abs mao_GetByAlias_abs mao_PutByAlias_abs
        mao_EvictByPrimary_abs mao_EvictByAlias_abs mao_EvictByPrimaryPrefix_abs mao_later e)
qed

theorem mode_independence_witness:
  "fst (mao_GetValue \<lparr>mo_ns = ''user'', mo_sharded = True\<rparr> ''7'' (w_store demo_world)) =
     fst (mao_GetValue demo_handle ''7'' (w_store demo_world))"
proof -
  have "same_group \<lparr>mo_ns = ''user'', mo_sharded = True\<rparr> (w_store demo_world) demo_handle (w_store demo_world)"
    by (simp add: same_group_def mem_abs_def)
  from mode_independence [OF this] show ?thesis by blast
qed

text \<open>A value write revives its aliases.  \<open>PutValue\<close> gives the group's bookkeeping the new deadline
  whether or not the old one had passed: an alias that still has a pointer, live or expired, answers
  with the new value for the new TTL.\<close>

theorem put_value_revives:
  assumes "alias_consistent m s" "CHR '':'' \<notin> set (Field ref)" "alias_owner m s ref = Some pk"
    and "s1 = snd (mao_PutValue m pk b ttl s)"
    and "0 < ttl \<longrightarrow> mem_now (snd (mao_GetByAlias m ref s1)) \<le> mem_now s + ttl"
  shows "alias_owner m s1 ref = Some pk \<and> fst (mao_GetByAlias m ref s1) = Inr b"
proof -
  have i: "mem_inv s" using assms(1) by (simp add: alias_consistent_abs)
  have abs: "mem_abs m s1 = g_PutValue pk b ttl (mem_abs m s)"
    unfolding assms(4) by (rule mao_PutValue_abs(2) [OF i])
  have c1: "alias_consistent m s1"
    unfolding assms(4) by (rule alias_op_consistent [OF a_put_value assms(1)])
  have o1: "alias_owner m s1 ref = Some pk"
    using assms(3) unfolding alias_owner_abs abs by (auto simp: g_PutValue_def split: if_splits)
  have "vals (mem_abs m s1) pk = Some \<lparr>e_val = b, e_expiresAt = deadline (mem_now s) ttl\<rparr>"
    unfolding abs by (simp add: g_PutValue_def)
  then have "fmlookup (data s1) (valueKey m pk) = Some \<lparr>e_val = b, e_expiresAt = deadline (mem_now s) ttl\<rparr>"
    by simp
  with mao_GetByAlias_answer(2) [OF c1 assms(2) o1] assms(5)
  have "fst (mao_GetByAlias m ref s1) = Inr b" by (auto simp: deadline_def split: if_splits)
  with o1 show ?thesis ..
qed

theorem put_value_revives_witness:
  "fst (mao_GetByAlias demo_handle \<lparr>Field = ''email'', Value = ''a''\<rparr>
     (snd (mao_PutValue demo_handle ''7'' ''new'' 0
       (snd (mao_PutByAlias demo_handle ''7'' \<lparr>Field = ''email'', Value = ''a''\<rparr> ''old'' 9 (w_store demo_world)))))) =
   Inr ''new''"
proof -
  let ?r = "\<lparr>Field = ''email'', Value = ''a''\<rparr>"
  let ?s = "snd (mao_PutByAlias demo_handle ''7'' ?r ''old'' 9 (w_store demo_world))"
  have c0: "alias_consistent demo_handle (w_store demo_world)" by (simp add: alias_consistent_empty)
  have c: "alias_consistent demo_handle ?s" by (rule alias_op_consistent [OF a_put_alias c0]) simp
  have ow: "alias_owner demo_handle ?s ?r = Some ''7''"
    unfolding alias_owner_abs mao_PutByAlias_abs(1) [OF demo_world_ok(1)]
    by (simp add: g_PutByAlias_def g_point_sel)
  show ?thesis
    using put_value_revives [OF c _ ow refl, of 0 "''new''"] by simp
qed

subsection \<open>Through the cache\<close>

lemma PutAliased_entry:
  assumes "alias_consistent m (w_store w)" "CHR '':'' \<notin> set (Field alias)"
    and "cd_Marshal (c_codec c) (Some v) = Inr b" "writer (w_app w) = ((Some v, None), x)"
    and "PutAliased (on_group m c) pk alias writer w = (r, w1)"
  shows "r = (Some v, Written, None)" "w_app w1 = x" "alias_consistent m (w_store w1)"
    and "alias_owner m (w_store w1) alias = Some pk"
    and "fmlookup (data (w_store w1)) (valueKey m pk) = Some \<lparr>e_val = b, e_expiresAt =
      deadline (mem_now (w_store w)) (fst (positiveTTL (on_group m c) (snd (on_app writer w))))\<rparr>"
proof -
  let ?c = "on_group m c" and ?ao = "mem_alias_ops m"
  define wa where "wa = snd (on_app writer w)"
  have wa: "on_app writer w = ((Some v, None), wa)" using assms(4) by (simp add: wa_def on_app_def)
  have wa': "w_store wa = w_store w" "w_app wa = x" using assms(4) by (simp_all add: wa_def)
  let ?ttl = "fst (positiveTTL ?c wa)"
  have i: "mem_inv (w_store w)" and g: "g_inv (mem_abs m (w_store w))"
    using assms(1) by (simp_all add: alias_consistent_abs)
  let ?s1 = "snd (mao_PutByAlias m pk alias b ?ttl (w_store w))"
  have st: "fst (store_aliased ?c ?ao pk alias v wa)" "w_store (snd (store_aliased ?c ?ao pk alias v wa)) = ?s1"
    using assms(3) wa'(1) mao_PutByAlias_abs(2) [OF i, of m pk "alias" b ?ttl]
    by (simp_all add: store_aliased_def mem_alias_ops_def case_prod_unfold Let_def)
  have p: "r = (Some v, Written, None)" "w1 = outcome ?c Written (snd (store_aliased ?c ?ao pk alias v wa))"
    using assms(5) st(1) by (simp_all add: PutAliased_eq wa case_prod_unfold Let_def)
  have abs: "mem_abs m ?s1 = g_PutByAlias pk alias b ?ttl (mem_abs m (w_store w))"
    by (rule mao_PutByAlias_abs(1) [OF i])
  have "alias_owner m ?s1 alias = Some pk"
    unfolding alias_owner_abs abs g_PutByAlias_ptrs [OF g assms(2) assms(2)] by simp
  moreover have "vals (mem_abs m ?s1) pk = Some \<lparr>e_val = b, e_expiresAt = deadline (mem_now (w_store w)) ?ttl\<rparr>"
    unfolding abs by (simp add: g_PutByAlias_vals)
  moreover have "alias_consistent m ?s1" by (rule alias_op_consistent [OF a_put_alias [OF assms(2)] assms(1)])
  ultimately show "r = (Some v, Written, None)" "w_app w1 = x" "alias_consistent m (w_store w1)"
    "alias_owner m (w_store w1) alias = Some pk"
    "fmlookup (data (w_store w1)) (valueKey m pk) = Some \<lparr>e_val = b, e_expiresAt =
      deadline (mem_now (w_store w)) (fst (positiveTTL ?c (snd (on_app writer w))))\<rparr>"
    using p st wa'(2) by (simp_all add: wa_def)
qed

text \<open>The store part of \<open>GetByAlias\<close> comes first; what follows only moves the clock on.\<close>

lemma GetByAlias_clock:
  assumes "solo_flight c" "CHR '':'' \<notin> set (Field alias)" "mem_inv (w_store w)"
  shows "mem_now (snd (mao_GetByAlias m alias (w_store w)))
    \<le> mem_now (w_store (snd (GetByAlias (on_group m c) alias loader w)))"
proof -
  let ?c = "on_group m c" and ?gs = "snd (mao_GetByAlias m alias (w_store w))"
  have og: "on_store (ao_GetByAlias (mem_alias_ops m) alias) w =
      (fst (mao_GetByAlias m alias (w_store w)), w\<lparr>w_store := ?gs\<rparr>)"
    by (simp add: on_store_def mem_alias_ops_def case_prod_unfold Let_def)
  have "(alias_op m)\<^sup>*\<^sup>* ?gs (w_store (snd (alias_effect ?c (mem_alias_ops m) alias r
      (snd (timed_load ?c loader (w\<lparr>w_store := ?gs\<rparr>))))))" for r
    using store_aliased_run [OF assms(2), of m "snd (timed_load ?c loader (w\<lparr>w_store := ?gs\<rparr>))" c]
    by (auto simp: alias_effect_def split: prod.splits option.splits)
  from this [of "fst (loader (w_app w))"]
  have "(alias_op m)\<^sup>*\<^sup>* ?gs (w_store (snd (GetByAlias ?c alias loader w)))"
    using assms(1) by (auto simp: GetByAlias_eq og case_prod_unfold Let_def split: option.splits)
  then show ?thesis
    using later_now alias_ops_touches later_inv [OF mao_later(3) assms(3)] by blast
qed

lemma alias_hit:
  assumes "solo_flight c" "alias_consistent m (w_store w)" "CHR '':'' \<notin> set (Field alias)"
    and "alias_owner m (w_store w) alias = Some pk"
    and "fmlookup (data (w_store w)) (valueKey m pk) = Some \<lparr>e_val = b, e_expiresAt = d\<rparr>"
    and "\<not> expired_at d (mem_now (w_store (snd (GetByAlias (on_group m c) alias loader w))))"
    and "codec_ok c v b"
  shows "fst (GetByAlias (on_group m c) alias loader w) = Ret (Some v, Hit, None)"
    and "w_app (snd (GetByAlias (on_group m c) alias loader w)) = w_app w"
    and "fst (GetByKey (on_group m c) pk loader w) = Ret (Some v, Hit, None)"
proof -
  let ?c = "on_group m c" and ?gs = "snd (mao_GetByAlias m alias (w_store w))"
  have i: "mem_inv (w_store w)" using assms(2) by (simp add: alias_consistent_abs)
  have live: "\<not> expired_at d (mem_now ?gs)"
    using GetByAlias_clock [OF assms(1,3) i] assms(6) expired_at_mono by blast
  then have "fst (mao_GetByAlias m alias (w_store w)) = Inr b"
    using mao_GetByAlias_answer(2) [OF assms(2-4)] assms(5) by auto
  moreover have ca: "cached_answer c (Inr b) = Some (Some v, Hit, None)"
    using assms(7) by (simp add: cached_answer_def codec_ok_def)
  ultimately show "fst (GetByAlias ?c alias loader w) = Ret (Some v, Hit, None)"
    "w_app (snd (GetByAlias ?c alias loader w)) = w_app w"
    using assms(1) by (simp_all add: GetByAlias_eq mem_alias_ops_def on_store_def case_prod_unfold Let_def)
  have "\<not> expired_at d (mem_now (w_store w))"
    using live later_now [OF mao_later(3) i] expired_at_mono by blast
  then have "fst (getValue ?c pk w) = Inr b"
    by (simp add: grp.get_impl mao_GetValue_fst group_entries_def mem_entries_def assms(5))
  then show "fst (GetByKey ?c pk loader w) = Ret (Some v, Hit, None)"
    using GetByKey_from_cache [of ?c pk w "(Some v, Hit, None)" loader] ca by simp
qed

text \<open>C30: An aliased write is read back both ways.  After \<open>PutAliased\<close> of a value the writer returned,
  and anything the rest of the program does to other keys, a read within the shortest jittered TTL by
  the alias or by the primary key is a hit with that value and runs no loader.\<close>

theorem aliased_write_read:
  assumes "finite_ttl c" "solo_flight c" "alias_consistent m (w_store w)" "CHR '':'' \<notin> set (Field alias)"
    and "rand_ok (w_rand w)" "codec_ok c v b" "writer (w_app w) = ((Some v, None), x)"
    and "PutAliased (on_group m c) pk alias writer w = (r, w1)"
    and "others_alias m (w_store w1) s" "w2 = w1\<lparr>w_store := s\<rparr>"
    and "within_ttl c (o_TTL (c_opts c)) (mem_now (w_store w))
      (mem_now (w_store (snd (GetByAlias (on_group m c) alias loader w2))))"
  shows "r = (Some v, Written, None) \<and> w_app w1 = x \<and>
    fst (GetByAlias (on_group m c) alias loader w2) = Ret (Some v, Hit, None) \<and>
    w_app (snd (GetByAlias (on_group m c) alias loader w2)) = x \<and>
    fst (GetByKey (on_group m c) pk loader w2) = Ret (Some v, Hit, None)"
proof -
  have mb: "cd_Marshal (c_codec c) (Some v) = Inr b" using assms(6) by (simp add: codec_ok_def)
  note E = PutAliased_entry [OF assms(3,4) mb assms(7,8)]
  let ?d = "deadline (mem_now (w_store w)) (fst (positiveTTL (on_group m c) (snd (on_app writer w))))"
  have live: "\<not> expired_at ?d (mem_now (w_store (snd (GetByAlias (on_group m c) alias loader w2))))"
    by (rule positiveTTL_within [OF _ _ _ order_refl]) (use assms(1,5,11) in simp_all)
  have s: "alias_consistent m (w_store w2)" "alias_owner m (w_store w2) alias = Some pk"
    "fmlookup (data (w_store w2)) (valueKey m pk) = Some \<lparr>e_val = b, e_expiresAt = ?d\<rparr>"
    using others_alias_consistent [OF assms(9) E(3)] E(4,5) assms(9,10)
    by (simp_all add: alias_owner_def others_alias_def)
  from alias_hit [OF assms(2) s(1) assms(4) s(2,3) live assms(6)] E(1,2) assms(10) show ?thesis by simp
qed

definition still_world :: "(memstore, nat) world" where
  "still_world = demo_world\<lparr>w_store := mem_New (\<lambda>_. 0) sorted_list_of_fset\<rparr>"

lemma still_world_simps [simp]:
  "w_store still_world = mem_New (\<lambda>_. 0) sorted_list_of_fset" "w_app still_world = 0"
  "rand_ok (w_rand still_world)" "mono_clock (\<lambda>_. 0)"
  by (simp_all add: still_world_def mono_clock_def)

lemma still_later: "later s s' \<Longrightarrow> clock s = (\<lambda>_. 0) \<Longrightarrow> clock s' = (\<lambda>_. 0) \<and> mem_now s' = 0"
  by (auto simp: later_def mem_now_def)

theorem aliased_write_read_witness:
  "fst (GetByAlias demo_group \<lparr>Field = ''email'', Value = ''a''\<rparr> demo_fail
     (snd (PutAliased demo_group ''7'' \<lparr>Field = ''email'', Value = ''a''\<rparr> demo_load still_world))) =
   Ret (Some ''ann'', Hit, None)"
proof -
  let ?r = "\<lparr>Field = ''email'', Value = ''a''\<rparr>"
  let ?w1 = "snd (PutAliased (on_group demo_handle demo0) ''7'' ?r demo_load still_world)"
  let ?w2 = "snd (GetByAlias (on_group demo_handle demo0) ?r demo_fail ?w1)"
  have p: "PutAliased (on_group demo_handle demo0) ''7'' ?r demo_load still_world =
      (fst (PutAliased (on_group demo_handle demo0) ''7'' ?r demo_load still_world), ?w1)" by simp
  have i: "mem_inv (w_store still_world)" by simp
  have o1: "(alias_op demo_handle)\<^sup>*\<^sup>* (w_store still_world) (w_store ?w1)"
    by (rule alias_cache_run) simp_all
  have o2: "(alias_op demo_handle)\<^sup>*\<^sup>* (w_store ?w1) (w_store ?w2)"
    by (rule alias_cache_run) simp_all
  have "mem_now (w_store ?w2) = 0"
    using still_later [of "w_store still_world" "w_store ?w2"] alias_ops_touches [OF rtranclp_trans [OF o1 o2] i]
    by simp
  then have t: "within_ttl demo0 100 0 (mem_now (w_store ?w2))" by simp
  have c: "alias_consistent demo_handle (w_store still_world)" by (simp add: alias_consistent_empty)
  have oth: "others_alias demo_handle (w_store ?w1) (w_store ?w1)" by (simp add: others_alias_def)
  have "codec_ok demo0 ''ann'' ''qann''" using demo_codec_ok [of "''ann''"] by simp
  then show ?thesis
    using aliased_write_read [OF _ _ c _ _ _ _ p oth, where loader = demo_fail and v = "''ann''"
        and b = "''qann''" and x = 1] t
    by (simp add: demo_group_def)
qed

text \<open>Evicting a record is seen through its aliases.  After \<open>EvictByKey\<close> of the record that an alias
  leads to, both a read by that alias and a read by the primary key ask the source of truth, each
  running its loader once.\<close>

theorem evict_record_alias:
  assumes "solo_flight c" "alias_consistent m (w_store w)" "CHR '':'' \<notin> set (Field alias)"
    and "alias_owner m (w_store w) alias = Some pk" "EvictByKey (on_group m c) pk w = (err, w1)"
  shows "err = None \<and>
    (\<exists>p. fst (GetByAlias (on_group m c) alias loader w1) = Ret (load_answer (fst (loader (w_app w))) p)) \<and>
    w_app (snd (GetByAlias (on_group m c) alias loader w1)) = snd (loader (w_app w)) \<and>
    (\<exists>p. fst (GetByKey (on_group m c) pk loader w1) = Ret (load_answer (fst (loader (w_app w))) p)) \<and>
    w_app (snd (GetByKey (on_group m c) pk loader w1)) = snd (loader (w_app w))"
proof -
  have i: "mem_inv (w_store w)" using assms(2) by (simp add: alias_consistent_abs)
  have s1: "w_store w1 = snd (mao_EvictByPrimary m pk (w_store w))" "w_app w1 = w_app w" "err = None"
    using assms(5) mao_EvictByPrimary_abs(1) [OF i, of m pk]
    by (auto simp: EvictByKey_def grp.delete_impl on_store_def case_prod_unfold Let_def)
  have "alias_owner m (w_store w1) alias = None"
    unfolding s1(1) alias_owner_abs mao_EvictByPrimary_abs(2) [OF i] g_evict_simps
    using owner_tail [OF assms(2,3), of pk] assms(4) by simp
  moreover have "alias_consistent m (w_store w1)"
    unfolding s1(1) by (rule alias_op_consistent [OF a_evict assms(2)])
  ultimately have "fst (mao_GetByAlias m alias (w_store w1)) = Inl ErrStoreMiss"
    using mao_GetByAlias_answer(1) assms(3) by blast
  moreover have "fst (getValue (on_group m c) pk w1) = Inl ErrStoreMiss"
    by (simp add: grp.get_impl s1(1) mao_GetValue_fst group_entries_ops(3) [OF i])
  ultimately show ?thesis
    using s1(2,3) GetByKey_from_loader(1,2) [of "on_group m c" pk w1 loader] assms(1)
    by (auto simp: GetByAlias_eq mem_alias_ops_def on_store_def case_prod_unfold Let_def)
qed

theorem evict_record_alias_witness:
  "w_app (snd (GetByAlias demo_group \<lparr>Field = ''email'', Value = ''a''\<rparr> demo_load
     (snd (EvictByKey demo_group ''7''
       (snd (PutAliased demo_group ''7'' \<lparr>Field = ''email'', Value = ''a''\<rparr> demo_load still_world)))))) = 2"
proof -
  let ?r = "\<lparr>Field = ''email'', Value = ''a''\<rparr>"
  let ?w1 = "snd (PutAliased (on_group demo_handle demo0) ''7'' ?r demo_load still_world)"
  let ?w2 = "snd (EvictByKey (on_group demo_handle demo0) ''7'' ?w1)"
  have c: "alias_consistent demo_handle (w_store still_world)" by (simp add: alias_consistent_empty)
  have mb: "cd_Marshal (c_codec demo0) (Some ''ann'') = Inr ''qann''" by simp
  have p: "PutAliased (on_group demo_handle demo0) ''7'' ?r demo_load still_world =
      (fst (PutAliased (on_group demo_handle demo0) ''7'' ?r demo_load still_world), ?w1)" by simp
  have e: "EvictByKey (on_group demo_handle demo0) ''7'' ?w1 =
      (fst (EvictByKey (on_group demo_handle demo0) ''7'' ?w1), ?w2)" by simp
  note E = PutAliased_entry [OF c _ mb _ p, of 1]
  show ?thesis
    using evict_record_alias [OF _ E(3) _ E(4) e, of demo_load] E(2) by (simp add: demo_group_def)
qed

text \<open>C34: Read-through by an alias.  When an alias leads nowhere and the loader returns a value with a
  unique key, \<open>GetByAlias\<close> returns the value as \<open>Loaded\<close>, stores it under that key and makes the
  alias lead to it, keeping the bookkeeping consistent.\<close>

theorem alias_read_through:
  assumes "solo_flight c" "alias_consistent m (w_store w)" "CHR '':'' \<notin> set (Field alias)"
    and "alias_owner m (w_store w) alias = None"
    and "loader (w_app w) = ((Some v, None), x)" "unique_key c v = Some pk"
    and "cd_Marshal (c_codec c) (Some v) = Inr b"
    and "GetByAlias (on_group m c) alias loader w = (r, w1)"
  shows "r = Ret (Some v, Loaded, None) \<and> w_app w1 = x \<and> alias_consistent m (w_store w1) \<and>
    alias_owner m (w_store w1) alias = Some pk \<and>
    (\<exists>e. fmlookup (data (w_store w1)) (valueKey m pk) = Some e \<and> e_val e = b)"
proof -
  let ?c = "on_group m c" and ?gs = "snd (mao_GetByAlias m alias (w_store w))"
  let ?w2 = "snd (timed_load ?c loader (w\<lparr>w_store := ?gs\<rparr>))"
  let ?ttl = "fst (positiveTTL ?c ?w2)"
  have og: "on_store (ao_GetByAlias (mem_alias_ops m) alias) w = (Inl ErrStoreMiss, w\<lparr>w_store := ?gs\<rparr>)"
    using mao_GetByAlias_answer(1) [OF assms(2-4)]
    by (simp add: on_store_def mem_alias_ops_def case_prod_unfold Let_def)
  have c2: "alias_consistent m ?gs" by (rule alias_op_consistent [OF a_get_alias assms(2)])
  have i: "mem_inv ?gs" and g: "g_inv (mem_abs m ?gs)" using c2 by (simp_all add: alias_consistent_abs)
  let ?s1 = "snd (mao_PutByAlias m pk alias b ?ttl ?gs)"
  have st: "fst (store_aliased ?c (mem_alias_ops m) pk alias v ?w2)"
    "w_store (snd (store_aliased ?c (mem_alias_ops m) pk alias v ?w2)) = ?s1"
    using assms(7) mao_PutByAlias_abs(2) [OF i, of m pk "alias" b ?ttl]
    by (simp_all add: store_aliased_def mem_alias_ops_def case_prod_unfold Let_def)
  have u: "unique_key ?c v = Some pk" using assms(6) by (simp add: unique_key_def)
  have l: "timed_load ?c loader (w\<lparr>w_store := ?gs\<rparr>) = ((Some v, None), ?w2)"
    using assms(5) by (metis fst_conv prod.collapse timed_load_simps(1) world.select_convs(2) world.surjective world.update_convs(1))
  have G: "r = Ret (Some v, Loaded, None)" "w_store w1 = ?s1" "w_app w1 = x"
    using assms(1,5,8) st u
    by (auto simp: GetByAlias_eq og alias_effect_def case_prod_unfold Let_def)
  have abs: "mem_abs m ?s1 = g_PutByAlias pk alias b ?ttl (mem_abs m ?gs)"
    by (rule mao_PutByAlias_abs(1) [OF i])
  have "alias_owner m ?s1 alias = Some pk"
    unfolding alias_owner_abs abs g_PutByAlias_ptrs [OF g assms(3) assms(3)] by simp
  moreover have "\<exists>e. vals (mem_abs m ?s1) pk = Some e \<and> e_val e = b"
    unfolding abs by (simp add: g_PutByAlias_vals)
  moreover have "alias_consistent m ?s1" by (rule alias_op_consistent [OF a_put_alias [OF assms(3)] c2])
  ultimately show ?thesis using G by simp
qed

theorem alias_read_through_witness:
  "fst (GetByAlias demo_group \<lparr>Field = ''email'', Value = ''a''\<rparr> demo_load demo_world) =
     Ret (Some ''ann'', Loaded, None)"
proof -
  let ?r = "\<lparr>Field = ''email'', Value = ''a''\<rparr>"
  have c: "alias_consistent demo_handle (w_store demo_world)" by (simp add: alias_consistent_empty)
  have g: "GetByAlias (on_group demo_handle demo0) ?r demo_load demo_world =
      (fst (GetByAlias (on_group demo_handle demo0) ?r demo_load demo_world),
       snd (GetByAlias (on_group demo_handle demo0) ?r demo_load demo_world))" by simp
  show ?thesis
    using alias_read_through [OF _ c _ _ _ _ _ g, of "''ann''" 1 "''ann''" "''qann''"]
    by (simp add: alias_owner_def unique_key_def demo_type_def demo_group_def)
qed

end
