(* ===== verification/Cache_Props.thy ===== *)
theory Cache_Props
  imports Fixtures
begin

text \<open>
  The properties of \<open>Cache\<close>, each with the witness that applies it at a concrete input.  The
  first group holds on any backend, the second on the memory store, over runs in which other
  operations come in between.
\<close>

subsection \<open>On any backend\<close>

text \<open>C1: A read is transparent.  With no other flight of the key, \<open>GetByKey\<close> answers from the store,
  without running the loader, when the store has a readable entry or a marker; in every other case
  (a miss, a backend error, a corrupt entry) it runs the loader exactly once and gives back what the
  loader gave, whatever becomes of writing it to the store, and does not panic.  (Joined to a
  flight of another type it does: \<open>flight_type_confusion\<close>.)\<close>

theorem GetByKey_transparent:
  assumes "solo_flight c"
  shows "case cached_answer c (fst (getValue c key w)) of
      Some r \<Rightarrow> fst (GetByKey c key loader w) = Ret r \<and> w_app (snd (GetByKey c key loader w)) = w_app w
    | None \<Rightarrow>
        (\<exists>p. fst (GetByKey c key loader w) = Ret (load_answer (fst (loader (w_app w))) p)) \<and>
        w_app (snd (GetByKey c key loader w)) = snd (loader (w_app w))"
  using GetByKey_from_cache [of c key w _ loader] GetByKey_from_loader [OF assms, of key w loader]
  by (auto split: option.splits)

theorem GetByKey_transparent_witness:
  "fst (GetByKey demo ''k'' demo_load demo_world) = Ret (Some ''ann'', Loaded, None) \<or>
   fst (GetByKey demo ''k'' demo_load demo_world) = Ret (Some ''ann'', LoadedNotCached, None)"
  using GetByKey_transparent [where c = demo and key = "''k''" and w = demo_world and loader = demo_load]
  by (auto split: if_splits)

text \<open>C39: What a read is metered with.  A request that is served counts one outcome, the one it returns;
  a load adds its latency before that; a load that fails transiently adds \<open>load_error\<close> instead of an
  outcome; nothing else is recorded.\<close>

theorem GetByKey_metered:
  assumes "solo_flight c" "c_metrics c = Some m" "fst (GetByKey c key loader w) = Ret (v, out, err)"
  shows "w_metrics (snd (GetByKey c key loader w)) = w_metrics w @
    (if cached_answer c (fst (getValue c key w)) \<noteq> None then outcome_events (Some m) out
     else Record (m_loadLatency m) (w_elapsed (snd (getValue c key w)) 0) #
       (if err \<noteq> None \<and> err \<noteq> Some ErrNotFound then [Add (m_loadError m) 1]
        else outcome_events (Some m) out))"
proof (cases "cached_answer c (fst (getValue c key w))")
  case (Some r)
  moreover from this have "snd (snd r) = None \<or> snd (snd r) = Some ErrNotFound"
    by (auto simp: cached_answer_def split: sum.splits if_splits)
  ultimately show ?thesis
    using assms(2,3) by (auto simp: GetByKey_from_cache answer_metric_def split: prod.splits)
next
  case None
  let ?w1 = "snd (getValue c key w)"
  have t: "timed_load c loader ?w1 = (fst (loader (w_app w)), snd (timed_load c loader ?w1))"
    by (metis prod.collapse timed_load_simps(1) value_frame(1))
  have lat: "w_metrics (snd (timed_load c loader ?w1)) =
      w_metrics w @ [Record (m_loadLatency m) (w_elapsed ?w1 0)]"
    using assms(2) by (simp add: timed_load_def time_Since_def on_app_def case_prod_unfold Let_def)
  obtain val lerr where l: "fst (loader (w_app w)) = (val, lerr)" by (cases "fst (loader (w_app w))") auto
  have e: "load_error c w' = metered (\<lambda>l. l @ [Add (m_loadError m) 1]) w'" for w' :: "('b, 'c) world"
    using assms(2) by (simp add: load_error_def metered_def)
  show ?thesis
    using assms None l lat
    by (cases lerr; cases val)
      (auto simp: GetByKey_eq [OF assms(1)] case_prod_unfold Let_def answer_metric_def e load_answer_def
        load_effect_def split: if_splits)
qed

theorem GetByKey_metered_witness:
  "w_metrics (snd (GetByKey demo ''k'' demo_fail demo_world)) =
     [Record ''load_latency'' (Fin 0), Add ''load_error'' 1]"
proof -
  have "fst (GetByKey demo ''k'' demo_fail demo_world) = Ret (None, Loaded, Some (OtherErr ''down''))"
    using GetByKey_from_loader(1) [of demo "''k''" demo_world demo_fail] by simp
  from GetByKey_metered [OF _ _ this, of demo_metrics] show ?thesis
    by (simp add: demo_metrics_def)
qed

text \<open>C32: A write-through never lies about the write.  The writer runs exactly once; its error, or
  \<open>ErrNilWrite\<close> for a nil value, is returned with the store and the metrics untouched; a value it
  commits is always returned without an error, as \<open>Written\<close> exactly when it got into the store, and
  that outcome is counted once.\<close>

theorem PutByKey_outcomes:
  "w_app (snd (PutByKey c key writer w)) = snd (writer (w_app w)) \<and>
   (case fst (writer (w_app w)) of
      (val, Some e) \<Rightarrow> fst (PutByKey c key writer w) = (None, Written, Some e) \<and>
        w_store (snd (PutByKey c key writer w)) = w_store w \<and>
        w_metrics (snd (PutByKey c key writer w)) = w_metrics w
    | (None, None) \<Rightarrow> fst (PutByKey c key writer w) = (None, Written, Some ErrNilWrite) \<and>
        w_store (snd (PutByKey c key writer w)) = w_store w \<and>
        w_metrics (snd (PutByKey c key writer w)) = w_metrics w
    | (Some v, None) \<Rightarrow>
        (let stored = fst (store_value c key v (snd (on_app writer w)));
             out = (if stored then Written else WrittenNotCached)
         in fst (PutByKey c key writer w) = (Some v, out, None) \<and>
            w_metrics (snd (PutByKey c key writer w)) = w_metrics w @ outcome_events (c_metrics c) out))"
  by (auto simp: PutByKey_eq case_prod_unfold Let_def split: option.splits)

text \<open>The value-derived write.  \<open>Put\<close> runs the writer once and is \<open>PutByKey\<close> under the value's
  unique key; a committed value without a usable unique key is still returned, not cached, with
  \<open>ErrNotUniqueKeyed\<close>.\<close>

theorem Put_committed:
  "w_app (snd (Put c writer w)) = snd (writer (w_app w)) \<and>
   fst (Put c writer w) =
     (case fst (writer (w_app w)) of
        (val, Some e) \<Rightarrow> (None, Written, Some e)
      | (None, None) \<Rightarrow> (None, Written, Some ErrNilWrite)
      | (Some v, None) \<Rightarrow>
          (case unique_key c v of
             None \<Rightarrow> (Some v, WrittenNotCached, Some ErrNotUniqueKeyed)
           | Some key \<Rightarrow>
               (Some v, if fst (store_value c key v (snd (on_app writer w))) then Written else WrittenNotCached,
                None)))"
  by (auto simp: Put_def uniqueKeyOf_def unique_key_def PutByKey_value case_prod_unfold Let_def
      split: option.splits)

text \<open>C31: A batch read.  The keys that the store has no answer for go, without duplicates and in the order
  of their first occurrence, to one call of \<open>loadMissing\<close>, which does not happen when there are none;
  its error fails the batch; otherwise the result maps each requested key to its stored value, or to
  the loaded one if it was missing, and has no entry for a marker or an absent key.\<close>

theorem GetManyByKey_correct:
  assumes "raw = fst (readManyRaw c (rev (remdups (rev keys))) w)"
    and "missing = filter (\<lambda>k. raw_answer c raw k = None) (rev (remdups (rev keys)))"
  shows "if missing = [] then
      w_app (snd (GetManyByKey c keys load w)) = w_app w \<and>
      (\<exists>R. fst (GetManyByKey c keys load w) = (Some R, None) \<and>
        (\<forall>k. fmlookup R k = (if k \<in> set keys then answer_value (raw_answer c raw k) else None)))
    else
      w_app (snd (GetManyByKey c keys load w)) = snd (load missing (w_app w)) \<and>
      (case fst (load missing (w_app w)) of
         (loaded, Some e) \<Rightarrow>
           fst (GetManyByKey c keys load w) = (None, Some (WrapErr ''smartcache: GetMany load'' e))
       | (loaded, None) \<Rightarrow>
           (\<exists>R. fst (GetManyByKey c keys load w) = (Some R, None) \<and>
             (\<forall>k. fmlookup R k =
                (if k \<in> set missing then loaded_value loaded k
                 else if k \<in> set keys then answer_value (raw_answer c raw k) else None))))"
proof -
  have d: "dedupKeys keys = rev (remdups (rev keys))" by (rule dedupKeys_order)
  have m: "missing = many_missing c keys w"
    using assms by (simp add: many_missing_def is_missing_def [abs_def] d)
  have r: "fst (readManyRaw c (dedupKeys keys) w) = raw" by (simp add: assms(1) d)
  obtain loaded lerr x where l: "load (many_missing c keys w) (w_app w) = ((loaded, lerr), x)"
    by (metis prod.exhaust)
  show ?thesis
  proof (cases "missing = []")
    case True
    then show ?thesis using GetManyByKey_no_miss [of c keys w load, unfolded r] m by simp
  next
    case False
    with m have n: "many_missing c keys w \<noteq> []" by simp
    show ?thesis
      using GetManyByKey_load [where load = load, OF n l, unfolded r] False m l by (cases lerr) simp_all
  qed
qed

theorem GetManyByKey_correct_witness:
  "\<exists>R. fst (GetManyByKey demo [''a'', ''a''] (\<lambda>ks x. ((fmap_of_list (map (\<lambda>k. (k, Some k)) ks), None), x))
     demo_world) = (Some R, None) \<and> fmlookup R ''a'' = Some ''a''"
proof -
  have r: "fst (readManyRaw demo (rev (remdups (rev [''a'', ''a'']))) demo_world) = fmempty"
    by (simp add: demo_def mem_batch_is_loop)
  have m: "filter (\<lambda>k. raw_answer demo fmempty k = None) (rev (remdups (rev [''a'', ''a'']))) = [''a'']"
    by (simp add: raw_answer_def)
  from GetManyByKey_correct [OF refl refl, of demo "[''a'', ''a'']" demo_world
      "\<lambda>ks x. ((fmap_of_list (map (\<lambda>k. (k, Some k)) ks), None), x)", unfolded r m]
  show ?thesis by (auto simp: loaded_value_def)
qed

text \<open>The single flight is shared between the two reads.  \<open>GetByAlias\<close> of \<open>(field, value)\<close> flies under
  \<open>"alias:field:value"\<close>, which is also the flight key of \<open>GetByKey\<close> for the primary key of that
  name.  A \<open>GetByKey\<close> that joins such a flight is handed a result of the other function's type and
  panics.\<close>

theorem flight_type_confusion:
  assumes "c_group c = Some Do"
    and "cached_answer c (fst (getValue c (alias_flight_key alias) w)) = None"
    and "Do (alias_flight_key alias) (GetByKey_doLoad c (alias_flight_key alias) loader)
           (snd (getValue c (alias_flight_key alias) w)) = ((AliasLoad v populated, None), w')"
  shows "GetByKey c (alias_flight_key alias) loader w = (Panic ''nil pointer dereference'', w')"
proof -
  have "GetByKey c k loader w = GetByKey_miss c k loader (snd (getValue c k w))"
    if "cached_answer c (fst (getValue c k w)) = None" for k
    using that by (auto simp: GetByKey_def cached_answer_def case_prod_unfold Let_def split: sum.splits if_splits)
  with assms show ?thesis
    by (simp add: GetByKey_miss_def flight_Do_def GetByKey_finish_def)
qed

theorem flight_type_confusion_witness:
  "fst (GetByKey (demo\<lparr>c_group := Some (\<lambda>k f w. ((AliasLoad ''ann'' True, None), w))\<rparr>)
     ''alias:email:a'' demo_load demo_world) = Panic ''nil pointer dereference''"
proof -
  let ?c = "demo\<lparr>c_group := Some (\<lambda>k f w. ((AliasLoad ''ann'' True, None), w))\<rparr>"
  have g: "getValue ?c k demo_world = (Inl ErrStoreMiss, demo_world)" for k
    using demo_miss(1) [of k] by (simp add: getValue_def fullKey_def)
  show ?thesis
    using flight_type_confusion [of ?c _ "\<lparr>Field = ''email'', Value = ''a''\<rparr>" demo_world demo_load "''ann''" True
        demo_world]
    by (simp add: g alias_flight_key_def)
qed

end
