(* ===== verification/Mem_Cache_Props.thy ===== *)
theory Mem_Cache_Props
  imports Fixtures
begin

text \<open>
  The properties of plain caches on the memory store.  Between the operation and the read that
  observes it, \<open>cache_run\<close> puts any sequence of operations of the same cache on other keys, of
  the source of truth, and of the rest of the program on the same store.
\<close>

text \<open>C17: Read your write.  After a \<open>PutByKey\<close> whose writer returned a value, and any run that does not
  name its key, a read within the shortest jittered TTL is a hit with that value and runs no loader.\<close>

theorem read_your_write:
  assumes "finite_ttl c" "solo_flight c"
    and "mem_inv (w_store w)" "rand_ok (w_rand w)" "range_ok (w_range w)" "codec_ok c v b"
    and "writer (w_app w) = ((Some v, None), x)" "PutByKey (on_mem c) k writer w = (r, w1)"
    and "cache_run (others_plain c) (on_mem c) K w1 w2" "k \<notin> K"
    and "within_ttl c (o_TTL (c_opts c)) (mem_now (w_store w)) (mem_now (w_store w2))"
  shows "r = (Some v, Written, None) \<and>
    fst (GetByKey (on_mem c) k loader w2) = Ret (Some v, Hit, None) \<and>
    w_app (snd (GetByKey (on_mem c) k loader w2)) = w_app w2"
  using plain.put_run_get(1) [of c "others_plain c" w v b writer x k r w1 K w2]
    plain.put_run_get(2,3) [of c "others_plain c" w v b writer x k r w1 K w2 loader] assms by simp

theorem read_your_write_witness:
  "fst (GetByKey (on_mem demo0) ''k'' demo_absent (snd (PutByKey (on_mem demo0) ''k'' demo_load demo_world))) =
     Ret (Some ''ann'', Hit, None)"
proof -
  let ?w1 = "snd (PutByKey (on_mem demo0) ''k'' demo_load demo_world)"
  have p: "PutByKey (on_mem demo0) ''k'' demo_load demo_world = (fst (PutByKey (on_mem demo0) ''k'' demo_load demo_world), ?w1)"
    by simp
  have t: "within_ttl demo0 100 0 (mem_now (w_store ?w1))" by simp
  show ?thesis
    using read_your_write [OF _ _ _ _ _ demo_codec_ok _ p run_nil, of "''ann''" 1 demo_absent] t by simp
qed

text \<open>A load is remembered.  A read that misses and loads a value returns it as \<open>Loaded\<close>; after any
  run that does not name its key, a read within the TTL is a hit with that value and runs no loader.\<close>

theorem load_once:
  assumes "finite_ttl c" "solo_flight c"
    and "mem_inv (w_store w)" "rand_ok (w_rand w)" "range_ok (w_range w)" "codec_ok c v b"
    and "cached_answer c (fst (getValue (on_mem c) k w)) = None"
    and "loader (w_app w) = ((Some v, None), x)" "GetByKey (on_mem c) k loader w = (r, w1)"
    and "cache_run (others_plain c) (on_mem c) K w1 w2" "k \<notin> K"
    and "within_ttl c (o_TTL (c_opts c)) (mem_now (w_store w)) (mem_now (w_store w2))"
  shows "r = Ret (Some v, Loaded, None) \<and> w_app w1 = x \<and>
    fst (GetByKey (on_mem c) k loader' w2) = Ret (Some v, Hit, None) \<and>
    w_app (snd (GetByKey (on_mem c) k loader' w2)) = w_app w2"
  using plain.load_run_get(1,2) [of c "others_plain c" w v b k loader x r w1 K w2]
    plain.load_run_get(3,4) [of c "others_plain c" w v b k loader x r w1 K w2 loader'] assms
    plain.getValue_answer [of w c k]
  by simp

theorem load_once_witness:
  "fst (GetByKey (on_mem demo0) ''k'' demo_fail (snd (GetByKey (on_mem demo0) ''k'' demo_load demo_world))) =
     Ret (Some ''ann'', Hit, None)"
proof -
  let ?w1 = "snd (GetByKey (on_mem demo0) ''k'' demo_load demo_world)"
  have p: "GetByKey (on_mem demo0) ''k'' demo_load demo_world =
      (fst (GetByKey (on_mem demo0) ''k'' demo_load demo_world), ?w1)" by simp
  have t: "within_ttl demo0 100 0 (mem_now (w_store ?w1))" by simp
  show ?thesis
    using load_once [OF _ _ _ _ _ demo_codec_ok _ _ p run_nil, of "''ann''" 1 demo_fail] t by simp
qed

text \<open>A not-found is remembered.  With negative caching on, a read whose loader reports not-found
  (possibly wrapped) returns \<open>ErrNotFound\<close>, and after any run that does not name its key a read
  within the negative TTL answers \<open>NegativeHit\<close> and runs no loader.\<close>

theorem not_found_once:
  assumes "config_ok c" "solo_flight c" "0 < o_NegativeTTL (c_opts c)"
    and "mem_inv (w_store w)" "rand_ok (w_rand w)" "range_ok (w_range w)"
    and "cached_answer c (fst (getValue (on_mem c) k w)) = None"
    and "loader (w_app w) = ((y, Some e), x)" "errors_is e ErrNotFound"
    and "GetByKey (on_mem c) k loader w = (r, w1)"
    and "cache_run (others_plain c) (on_mem c) K w1 w2" "k \<notin> K"
    and "within_ttl c (o_NegativeTTL (c_opts c)) (mem_now (w_store w)) (mem_now (w_store w2))"
  shows "r = Ret (None, Loaded, Some ErrNotFound) \<and> w_app w1 = x \<and>
    fst (GetByKey (on_mem c) k loader' w2) = Ret (None, NegativeHit, Some ErrNotFound) \<and>
    w_app (snd (GetByKey (on_mem c) k loader' w2)) = w_app w2"
  using plain.not_found_run_get(1,2) [of c "others_plain c" w k loader y e x r w1 K w2]
    plain.not_found_run_get(3,4) [of c "others_plain c" w k loader y e x r w1 K w2 loader'] assms
    plain.getValue_answer [of w c k]
  by simp

theorem not_found_once_witness:
  "fst (GetByKey (on_mem demo0) ''k'' demo_load (snd (GetByKey (on_mem demo0) ''k'' demo_absent demo_world))) =
     Ret (None, NegativeHit, Some ErrNotFound)"
proof -
  let ?w1 = "snd (GetByKey (on_mem demo0) ''k'' demo_absent demo_world)"
  have p: "GetByKey (on_mem demo0) ''k'' demo_absent demo_world =
      (fst (GetByKey (on_mem demo0) ''k'' demo_absent demo_world), ?w1)" by simp
  have t: "within_ttl demo0 50 0 (mem_now (w_store ?w1))" by simp
  show ?thesis
    using not_found_once [OF _ _ _ _ _ _ _ _ _ p run_nil, of None ErrNotFound 1 demo_load] t by simp
qed

text \<open>A failure leaves no trace.  A read whose loader fails with anything but not-found returns that
  error, and every entry in the store afterwards, of this cache or any other, was there before.\<close>

theorem transient_not_cached:
  assumes "solo_flight c" "mem_inv (w_store w)"
    and "cached_answer c (fst (getValue (on_mem c) k w)) = None"
    and "loader (w_app w) = ((y, Some e), x)" "\<not> errors_is e ErrNotFound"
  shows "fst (GetByKey (on_mem c) k loader w) = Ret (None, Loaded, Some e) \<and>
    fmlookup (data (w_store (snd (GetByKey (on_mem c) k loader w)))) key \<in>
      {None, fmlookup (data (w_store w)) key} \<and>
    members (w_store (snd (GetByKey (on_mem c) k loader w))) = members (w_store w)"
proof -
  have u: "cached_answer (on_mem c) (fst (getValue (on_mem c) k w)) = None"
    using assms(3) by simp
  note L = GetByKey_from_loader [OF _ u, of loader]
  have "w_store (snd (GetByKey (on_mem c) k loader w)) = snd (mem_Get (fullKey c k) (w_store w))"
    using L(3) assms(1,4,5) by (simp add: plain.get_impl)
  then show ?thesis
    using L(1) assms by (auto simp: mem_Get_data split: option.splits)
qed

theorem transient_not_cached_witness:
  "fst (GetByKey (on_mem demo0) ''k'' demo_fail demo_world) = Ret (None, Loaded, Some (OtherErr ''down''))"
  using transient_not_cached [where c = demo0 and w = demo_world and k = "''k''" and loader = demo_fail
      and e = "OtherErr ''down''"] by simp

text \<open>C18: Delete on write.  After \<open>EvictByKey\<close>, which never fails here, and any run that does not name
  the key, a read asks the source of truth: it runs the loader once and returns its answer.\<close>

theorem evict_then_read:
  assumes "solo_flight c" "mem_inv (w_store w)" "range_ok (w_range w)"
    and "EvictByKey (on_mem c) k w = (err, w1)"
    and "cache_run (others_plain c) (on_mem c) K w1 w2" "k \<notin> K"
  shows "err = None \<and>
    (\<exists>p. fst (GetByKey (on_mem c) k loader w2) = Ret (load_answer (fst (loader (w_app w2))) p)) \<and>
    w_app (snd (GetByKey (on_mem c) k loader w2)) = snd (loader (w_app w2))"
  using plain.evict_run_get(1) [of c "others_plain c" w k err w1 K w2]
    plain.evict_run_get(2,3) [of c "others_plain c" w k err w1 K w2 loader] assms by simp

theorem evict_then_read_witness:
  "w_app (snd (GetByKey (on_mem demo0) ''k'' demo_load
     (snd (EvictByKey (on_mem demo0) ''k'' (snd (PutByKey (on_mem demo0) ''k'' demo_load demo_world)))))) = 2"
proof -
  let ?w = "snd (PutByKey (on_mem demo0) ''k'' demo_load demo_world)"
  let ?w1 = "snd (EvictByKey (on_mem demo0) ''k'' ?w)"
  have p: "EvictByKey (on_mem demo0) ''k'' ?w = (fst (EvictByKey (on_mem demo0) ''k'' ?w), ?w1)" by simp
  have i: "mem_inv (w_store ?w)" "range_ok (w_range ?w)"
    using mem.set_inv [OF demo_world_ok(1)] by simp_all
  have "w_app ?w1 = 1" by (simp add: EvictByKey_def)
  then show ?thesis
    using evict_then_read [OF _ i p run_nil, of demo_load] by simp
qed

text \<open>C24: The TTL backstop.  Start from any store without entries of the cache and run it in any way, for
  as long as only its own operations write its keys (\<open>EvictByKeyPrefix\<close>, which only deletes, is not among
  them).  Once the longer of its two TTLs has passed, no
  read is served from the cache: every entry ever written has expired, however it was jittered.\<close>

theorem ttl_backstop:
  assumes "finite_ttl c" "solo_flight c"
    and "mem_inv (w_store w0)" "rand_ok (w_rand w0)" "range_ok (w_range w0)"
    and "\<And>k. fmlookup (data (w_store w0)) (fullKey c k) = None"
    and "cache_run (others_plain c) (on_mem c) K w0 w1" "others_plain c (w_store w1) s"
    and "mem_now (w_store w1) + max_ttl c < mem_now s"
  shows "cached_answer c (fst (getValue (on_mem c) k (w1\<lparr>w_store := s\<rparr>))) = None \<and>
    (\<exists>p. fst (GetByKey (on_mem c) k loader (w1\<lparr>w_store := s\<rparr>)) =
       Ret (load_answer (fst (loader (w_app w1))) p)) \<and>
    w_app (snd (GetByKey (on_mem c) k loader (w1\<lparr>w_store := s\<rparr>))) = snd (loader (w_app w1))"
proof -
  have b: "plain.bounded TYPE('a) c w0" unfolding plain.bounded_def using assms(3-6) by (simp add: mem_entries_def)
  note st = plain.stale_run_get [of c "others_plain c" w0 K w1 s]
  have st: "plain.cached TYPE('b) c s k = None" "mem_inv s"
    using st(1) [of k] st(2) assms b by simp_all
  have "cached_answer c (fst (getValue (on_mem c) k (w1\<lparr>w_store := s\<rparr>))) = None"
    using plain.getValue_answer [of "w1\<lparr>w_store := s\<rparr>" c k] st by simp
  then show ?thesis
    using plain.GetByKey_uncached [of "w1\<lparr>w_store := s\<rparr>" c k loader] st assms(2) by simp
qed

theorem ttl_backstop_witness:
  "cached_answer demo0 (fst (getValue (on_mem demo0) ''k''
     (snd (PutByKey (on_mem demo0) ''k'' demo_load demo_world)
        \<lparr>w_store := (snd (mem_Set (fullKey demo0 ''k'') ''qann'' 100 (w_store demo_world)))
           \<lparr>clock := \<lambda>i. int i + 102\<rparr>\<rparr>))) = None"
proof -
  let ?w1 = "snd (PutByKey (on_mem demo0) ''k'' demo_load demo_world)"
  let ?s = "(w_store ?w1)\<lparr>clock := \<lambda>i. int i + 102\<rparr>"
  have run: "cache_run (others_plain demo0) (on_mem demo0) {''k''} demo_world ?w1"
  proof -
    have "cache_step (others_plain demo0) (on_mem demo0) {''k''} demo_world ?w1" by (rule s_put)
    from run_step [OF run_nil this] show ?thesis by simp
  qed
  have clk: "clock (w_store ?w1) = (\<lambda>i. int i + 1)"
    unfolding demo_stored(1)
    by (simp add: mem_Set_def expAt_def time_Now_def demo_world_def mem_New_def Let_def tail_clock_def fun_eq_iff)
  have "others_plain demo0 (w_store ?w1) ?s"
    using clk by (auto simp: others_plain_def later_def fun_eq_iff intro: exI [of _ 101])
  moreover have "mem_now (w_store ?w1) + max_ttl demo0 < mem_now ?s"
    using clk by (simp add: mem_now_def max_ttl_def)
  ultimately show ?thesis
    using ttl_backstop [OF _ _ _ _ _ _ run, of ?s "''k''" demo_load] by simp
qed

end
