(* ===== verification/Manager_Props.thy ===== *)
theory Manager_Props
  imports Cache_Isolation Fixtures
begin

text \<open>
  The properties of the manager: what \<open>Register\<close> accepts, what it builds, what it leaves behind,
  and that the caches it builds on one memory store do not disturb each other.
\<close>

subsection \<open>What \<open>Register\<close> builds\<close>

definition reg_options :: "'v EntityOptions option \<Rightarrow> 'v EntityOptions" where
  "reg_options opts = (case opts of None \<Rightarrow> no_options | Some o1 \<Rightarrow> o1)"

definition reg_prefix :: "string \<Rightarrow> 'v EntityOptions option \<Rightarrow> string" where
  "reg_prefix name opts = override (eo_Prefix (reg_options opts)) name"

definition reg_ttl :: "('v, 's) Manager \<Rightarrow> 'v EntityOptions option \<Rightarrow> int" where
  "reg_ttl m opts = override (eo_TTL (reg_options opts)) (d_ttl (mg_defaults m))"

definition reg_infinite :: "'v EntityOptions option \<Rightarrow> bool" where
  "reg_infinite opts = override (eo_AllowInfinite (reg_options opts)) False"

definition reg_jitter :: "('v, 's) Manager \<Rightarrow> 'v EntityOptions option \<Rightarrow> f64" where
  "reg_jitter m opts = override (eo_JitterFraction (reg_options opts)) (d_jitterFraction (mg_defaults m))"

definition reg_negative :: "('v, 's) Manager \<Rightarrow> 'v EntityOptions option \<Rightarrow> int" where
  "reg_negative m opts = override (eo_NegativeTTL (reg_options opts)) (d_negativeTTL (mg_defaults m))"

definition reg_codec :: "'v Codec \<Rightarrow> ('v, 's) Manager \<Rightarrow> 'v EntityOptions option \<Rightarrow> 'v Codec" where
  "reg_codec json m opts =
     (case eo_Codec (reg_options opts) of Some c \<Rightarrow> c | None \<Rightarrow> override (d_codec (mg_defaults m)) json)"

definition reg_disabled :: "('v, 's) Manager \<Rightarrow> 'v EntityOptions option \<Rightarrow> bool" where
  "reg_disabled m opts = override (eo_DisableSingleflight (reg_options opts)) (d_disableSingleflight (mg_defaults m))"

lemmas reg_defs = reg_options_def reg_prefix_def reg_ttl_def reg_infinite_def reg_jitter_def reg_negative_def

lemma Register_Inr:
  assumes "Register json g T m name opts = (Ret (Inr c), m')"
  shows "\<not> t_pointer T" "name \<noteq> ''''" "name |\<notin>| mg_registry m" "reg_prefix name opts \<noteq> ''''"
    "0 < reg_ttl m opts \<or> reg_infinite opts"
    "\<not> f64_less (reg_jitter m opts) (Fin 0)" "\<not> f64_le (Fin 1) (reg_jitter m opts)"
    "m' = m\<lparr>mg_registry := finsert name (mg_registry m)\<rparr>"
    "c_type c = T" "o_Prefix (c_opts c) = reg_prefix name opts" "o_TTL (c_opts c) = reg_ttl m opts"
    "o_AllowInfinite (c_opts c) = reg_infinite opts" "o_NegativeTTL (c_opts c) = reg_negative m opts"
    "c_jitterFraction c = reg_jitter m opts" "c_store c = si_store (mg_store m)"
    "c_batch c = si_GetMany (mg_store m)" "c_prefixStore c = si_DeleteByPrefix (mg_store m)"
    "c_prefixAlias c = None" "c_aliasOps c = None"
    "c_group c = None \<or> c_group c = Some g"
    "register_metrics m name = Inr (c_metrics c)"
  using assms unfolding Register_def Let_def reg_defs
  by (simp_all split: if_split_asm sum.split_asm) (auto split: if_split_asm sum.split_asm)

lemma Register_choices:
  assumes "Register json g T m name opts = (Ret (Inr c), m')"
  shows "c_codec c = reg_codec json m opts" "c_group c = (if reg_disabled m opts then None else Some g)"
  using assms unfolding Register_def Let_def reg_codec_def reg_disabled_def reg_options_def override_def
  by (auto split: if_split_asm sum.split_asm)

text \<open>When it succeeds.  \<open>Register\<close> succeeds exactly for a non-pointer type, a non-empty fresh name, a
  non-empty prefix, a positive TTL or \<open>AllowInfinite\<close>, a jitter fraction that is neither negative nor
  at least one, and instruments that can be built; it then takes the name.  In every other case,
  panics included, the manager is left as it was, so a failed call never consumes the name.\<close>

theorem register_spec:
  "(\<exists>c. fst (Register json g T m name opts) = Ret (Inr c)) =
     (\<not> t_pointer T \<and> name \<noteq> '''' \<and> name |\<notin>| mg_registry m \<and> reg_prefix name opts \<noteq> '''' \<and>
      (0 < reg_ttl m opts \<or> reg_infinite opts) \<and>
      \<not> f64_less (reg_jitter m opts) (Fin 0) \<and> \<not> f64_le (Fin 1) (reg_jitter m opts) \<and>
      (\<exists>cm. register_metrics m name = Inr cm)) \<and>
   snd (Register json g T m name opts) =
     (case fst (Register json g T m name opts) of
        Ret (Inr c) \<Rightarrow> m\<lparr>mg_registry := finsert name (mg_registry m)\<rparr>
      | _ \<Rightarrow> m)"
  by (auto simp: Register_def reg_defs Let_def split: if_splits sum.splits option.splits)

text \<open>A Go \<open>float64\<close>: its finite values are doubles of either sign.\<close>

definition go_float :: "f64 \<Rightarrow> bool" where
  "go_float f \<longleftrightarrow> (\<forall>x. f = Fin x \<longrightarrow> is_double \<bar>x\<bar>)"

lemma accepted_fraction:
  assumes "go_float f" "\<not> f64_less f (Fin 0)" "\<not> f64_le (Fin 1) f"
  shows "f = NaN \<or> is_unit_float f"
proof (cases f)
  case (Fin x)
  with assms(2,3) have "0 \<le> x" "x < 1" by (auto simp: f64_le_def)
  with assms(1) Fin show ?thesis by (simp add: go_float_def is_unit_float_def)
qed (use assms in \<open>simp_all add: f64_le_def\<close>)

text \<open>C37: What is registered.  The cache works on the manager's store; every option that is set
  overrides the manager's default and every option that is not inherits it.  Unless the jitter fraction
  is NaN, which no comparison of \<open>Register\<close> rejects, the cache meets the configuration contract that
  all cache properties start from: a positive TTL or \<open>AllowInfinite\<close>, and a fraction in \<open>[0, 1)\<close>.
  The hypotheses on the durations and the fraction are those of their Go types.  The name is
  taken: a second registration, of any type and with any options that are not a pointer type, fails
  with \<open>ErrDuplicateName\<close> and leaves the manager alone.\<close>

theorem registered_cache:
  assumes "Register json g T m name opts = (Ret (Inr c), m')"
    and "reg_ttl m opts < 2 ^ 63" "reg_negative m opts < 2 ^ 63" "go_float (reg_jitter m opts)"
    and "\<not> t_pointer T'"
  shows "c_store c = si_store (mg_store m) \<and> o_Prefix (c_opts c) = reg_prefix name opts \<and>
    o_TTL (c_opts c) = reg_ttl m opts \<and> o_NegativeTTL (c_opts c) = reg_negative m opts \<and>
    c_jitterFraction c = reg_jitter m opts \<and> c_codec c = reg_codec json m opts \<and>
    c_group c = (if reg_disabled m opts then None else Some g) \<and>
    (c_jitterFraction c = NaN \<or> config_ok c) \<and>
    Register json' g' T' m' name opts' = (Ret (Inl (WrapErr (go_quote name) ErrDuplicateName)), m')"
proof -
  note R = Register_Inr [OF assms(1)]
  have "reg_jitter m opts = NaN \<or> config_ok c"
    using accepted_fraction [OF assms(4) R(6,7)] R(5,11,12,13,14) assms(2,3) by (simp add: config_ok_def)
  moreover have "Register json' g' T' m' name opts' = (Ret (Inl (WrapErr (go_quote name) ErrDuplicateName)), m')"
    using R(2,8) assms(5) by (simp add: Register_def Let_def)
  ultimately show ?thesis using R(10,11,13-15) Register_choices [OF assms(1)] by simp
qed

definition demo_manager :: "(string, memstore) Manager" where
  "demo_manager = \<lparr>mg_store = mem_impl,
     mg_defaults = \<lparr>d_ttl = 100, d_jitterFraction = Fin 0, d_negativeTTL = 0,
       d_disableSingleflight = False, d_codec = None\<rparr>,
     mg_registry = {||}, mg_otlp = None, mg_meter = None, mg_meterProvider = None\<rparr>"

definition demo_flight :: "(string, memstore, nat) flight_group" where
  "demo_flight = (\<lambda>k f. f)"

lemma demo_register:
  "name \<noteq> '''' \<Longrightarrow> \<exists>c. Register demo_codec demo_flight demo_type demo_manager name None =
     (Ret (Inr c), demo_manager\<lparr>mg_registry := {|name|}\<rparr>)"
  by (simp add: Register_def demo_type_def demo_manager_def no_options_def override_def register_metrics_def
      f64_le_def Let_def)

theorem registered_cache_witness:
  "\<exists>c m. Register demo_codec demo_flight demo_type demo_manager ''user'' None = (Ret (Inr c), m) \<and>
     o_TTL (c_opts c) = 100 \<and> config_ok c \<and>
     Register demo_codec demo_flight demo_type m ''user'' None =
       (Ret (Inl (WrapErr (CHR 0x22 # ''user'' @ [CHR 0x22]) ErrDuplicateName)), m)"
proof -
  obtain c where r: "Register demo_codec demo_flight demo_type demo_manager ''user'' None =
      (Ret (Inr c), demo_manager\<lparr>mg_registry := {|''user''|}\<rparr>)" using demo_register [of "''user''"] by auto
  have o: "reg_ttl demo_manager None = 100" "reg_negative demo_manager None = 0" "reg_jitter demo_manager None = Fin 0"
    by (simp_all add: reg_ttl_def reg_negative_def reg_jitter_def reg_options_def no_options_def override_def demo_manager_def)
  have q: "go_quote ''user'' = CHR 0x22 # ''user'' @ [CHR 0x22]" by code_simp
  have h: "reg_ttl demo_manager None < 2 ^ 63" "reg_negative demo_manager None < 2 ^ 63"
    "go_float (reg_jitter demo_manager None)" "\<not> t_pointer demo_type"
    using is_doubleI [of 0 0] by (simp_all add: o go_float_def demo_type_def)
  from registered_cache [OF r h, of demo_codec demo_flight None] r o q show ?thesis by auto
qed

subsection \<open>Caches on one memory store\<close>

lemma registered_on_mem:
  assumes "Register json g T m name opts = (Ret (Inr c), m')" "mg_store m = mem_impl"
  shows "on_mem c = c"
  using Register_Inr(15-19) [OF assms(1)] assms(2) by (simp add: on_mem_def mem_impl_def)

lemma registered_on_group:
  assumes "RegisterAliasGroup json g T m name opts = (Ret (Inr c), m')" "mg_store m = mem_impl"
  shows "\<exists>mode. on_group (mem_AliasGroup (o_Prefix (c_opts c)) mode) c = c"
proof -
  obtain mode c0 where c0: "Register json g T m name opts = (Ret (Inr c0), m')"
    and c: "c = c0\<lparr>c_aliasOps := Some (mem_alias_ops (mem_AliasGroup (o_Prefix (c_opts c0)) mode)),
      c_prefixAlias := ao_EvictByPrimaryPrefix (mem_alias_ops (mem_AliasGroup (o_Prefix (c_opts c0)) mode))\<rparr>"
    using assms by (auto simp: RegisterAliasGroup_def mem_impl_def Let_def split: if_splits prod.splits go.splits
        sum.splits)
  have "on_group (mem_AliasGroup (o_Prefix (c_opts c)) mode) c = c"
    using Register_Inr(15-19) [OF c0] assms(2) by (simp add: on_group_def c mem_impl_def)
  then show ?thesis ..
qed

lemma registered_bound:
  assumes "mg_store m = mem_impl"
    and "fst (Register json g T m name opts) = Ret (Inr c) \<or>
      fst (RegisterAliasGroup json g T m name opts) = Ret (Inr c)"
  shows "on_mem c = c \<or> (\<exists>mode. on_group (mem_AliasGroup (o_Prefix (c_opts c)) mode) c = c)"
  using assms registered_on_mem [of json g T m name opts c] registered_on_group [of json g T m name opts c]
  by (metis prod.collapse)

text \<open>C28: Registered caches are isolated.  Take a cache registered over the memory store, plain or alias
  group, and any sequence of calls of its methods.  For any other cache with a different plain prefix,
  plain or alias group of either mode, that sequence is only the passing of time: no entry, members
  hash or pointer of the other cache changes.\<close>

theorem caches_isolated:
  assumes "mg_store m = mem_impl"
    and "fst (Register json g T m name opts) = Ret (Inr c1) \<or>
      fst (RegisterAliasGroup json g T m name opts) = Ret (Inr c1)"
    and "plain_ns (o_Prefix (c_opts c1))" "plain_ns (o_Prefix (c_opts c2))"
    and "o_Prefix (c_opts c1) \<noteq> o_Prefix (c_opts c2)"
    and "solo_flight c1" "mem_inv (w_store w)" "(any_step c1)\<^sup>*\<^sup>* w w'"
  shows "others_plain c2 (w_store w) (w_store w') \<and>
    others_alias (mem_AliasGroup (o_Prefix (c_opts c2)) mode) (w_store w) (w_store w')"
proof -
  have "touches (o_Prefix (c_opts c1)) (w_store w) (w_store w') \<and> later (w_store w) (w_store w')"
    using registered_bound [OF assms(1,2)]
  proof
    assume "on_mem c1 = c1"
    then show ?thesis using plain_any_run [of c1 w w'] assms(6-8) by (simp add: in_namespace_def)
  next
    assume "\<exists>mode. on_group (mem_AliasGroup (o_Prefix (c_opts c1)) mode) c1 = c1"
    then obtain mode where "on_group (mem_AliasGroup (o_Prefix (c_opts c1)) mode) c1 = c1" ..
    then have "(alias_op (mem_AliasGroup (o_Prefix (c_opts c1)) mode))\<^sup>*\<^sup>* (w_store w) (w_store w')"
      using group_any_run [of "mem_AliasGroup (o_Prefix (c_opts c1)) mode" c1 w w'] assms(6,8) by simp
    from alias_ops_touches [OF this assms(7)] show ?thesis by (simp add: mem_AliasGroup_def)
  qed
  then show ?thesis
    using touches_others [of "o_Prefix (c_opts c1)" "w_store w" "w_store w'"] assms(3-5)
    by (simp add: mem_AliasGroup_def)
qed

theorem caches_isolated_witness:
  "\<exists>c1 :: (string, memstore, nat) Cache.
     fst (Register demo_codec demo_flight demo_type demo_manager ''order'' None) = Ret (Inr c1) \<and>
     others_plain demo (w_store demo_world) (w_store (snd (GetByKey c1 ''k'' demo_load demo_world)))"
proof -
  obtain c1 where r1: "Register demo_codec demo_flight demo_type demo_manager ''order'' None =
      (Ret (Inr c1), demo_manager\<lparr>mg_registry := {|''order''|}\<rparr>)" using demo_register [of "''order''"] by auto
  have p: "o_Prefix (c_opts c1) = ''order''" "o_Prefix (c_opts demo) = ''user''"
    using Register_Inr(10) [OF r1]
    by (simp_all add: reg_prefix_def reg_options_def no_options_def override_def demo_def)
  have s: "solo_flight c1"
    using Register_Inr(20) [OF r1] by (auto simp: solo_flight_def demo_flight_def)
  have run: "(any_step c1)\<^sup>*\<^sup>* demo_world (snd (GetByKey c1 ''k'' demo_load demo_world))"
    by (rule r_into_rtranclp, rule any_key, rule s_get)
  have ns: "plain_ns ''user''" "plain_ns ''order''" by (simp_all add: plain_ns_def grpSeg_def membSeg_def)
  have "others_plain demo (w_store demo_world) (w_store (snd (GetByKey c1 ''k'' demo_load demo_world)))"
    using caches_isolated [of demo_manager demo_codec demo_flight demo_type "''order''" None c1 demo demo_world
        "snd (GetByKey c1 ''k'' demo_load demo_world)" AliasSharded]
      r1 p ns s run by (simp add: demo_manager_def)
  with r1 show ?thesis by auto
qed

text \<open>C38: Alias-group registration.  On top of \<open>Register\<close>'s conditions \<open>RegisterAliasGroup\<close> panics for a
  pointer type, a store without alias support and a type without a unique key, leaving the manager
  untouched; a cache it returns has the alias operations that the store makes for the cache's prefix and
  the requested mode, colocated by default, and is otherwise the cache \<open>Register\<close> makes.\<close>

theorem register_alias_group_spec:
  "RegisterAliasGroup json g T m name opts =
     (if t_pointer T \<or> si_AliasGroup (mg_store m) = None \<or> t_CacheUniqueKey T = None
      then (fst (RegisterAliasGroup json g T m name opts), m)
      else
        (case Register json g T m name opts of
           (Ret (Inr c), m1) \<Rightarrow>
             (let ao = the (si_AliasGroup (mg_store m)) (reg_prefix name opts)
                         (override (eo_AliasMode (reg_options opts)) AliasColocated)
              in (Ret (Inr (c\<lparr>c_aliasOps := Some ao, c_prefixAlias := ao_EvictByPrimaryPrefix ao\<rparr>)), m1))
         | r \<Rightarrow> r)) \<and>
   ((\<exists>msg. fst (RegisterAliasGroup json g T m name opts) = Panic msg) =
      (t_pointer T \<or> si_AliasGroup (mg_store m) = None \<or> t_CacheUniqueKey T = None))"
proof -
  have np: "fst (Register json g T m name opts) \<noteq> Panic msg" if "\<not> t_pointer T" for msg
    using that by (auto simp: Register_def Let_def split: sum.splits)
  show ?thesis
  proof (cases "Register json g T m name opts")
    case (Pair r m1)
    show ?thesis
    proof (cases "\<exists>c. r = Ret (Inr c)")
      case True
      then obtain c where "r = Ret (Inr c)" by blast
      with Pair Register_Inr(1,10) [of json g T m name opts c m1] show ?thesis
        by (auto simp: RegisterAliasGroup_def reg_options_def no_options_def override_def Let_def split: option.splits)
    next
      case False
      with Pair np show ?thesis
        by (auto simp: RegisterAliasGroup_def Let_def split: option.splits go.splits sum.splits)
    qed
  qed
qed

end
