(* ===== verification/Redis_Server.thy ===== *)
theory Redis_Server
  imports Store_Interface
begin

text \<open>
  What \<open>redisstore\<close> is written against.  Neither the Redis server nor the go-redis client is part of
  this repository: the commands the Lua scripts call are the record \<open>redis_cmds\<close>, the connection the
  Go code calls is the record \<open>RedisConn\<close> (the interface of \<open>redisstore.go\<close>), both on a server
  state \<open>'s\<close> that is a parameter.  The locale \<open>redis_server\<close> states the documented behaviour of
  the commands, \<open>redis_client\<close> (in \<open>Redis_Scripts\<close>) that of a connection that does not fail.

  Times are the server's, in milliseconds.  \<open>content\<close> is what the server holds under each key, a
  string or a hash with an optional deadline; an entry past its deadline is absent for every command
  (\<open>live\<close>), whether or not the server has reclaimed it.
\<close>

subsection \<open>The connection\<close>

text \<open>go-redis' sentinel for a nil reply.\<close>

definition redis_Nil :: error where
  "redis_Nil = OtherErr ''redis: nil''"

text \<open>What an \<open>any\<close> of a reply can hold, and the arguments of \<open>Eval\<close>.\<close>

datatype goany = GoNil | GoString bytes | GoBytes bytes | GoInt int | GoSlice "goany list"

datatype arg = ArgText bytes | ArgInt int

text \<open>The eight embedded scripts, by the Go variable that holds the text.\<close>

datatype script =
    colocatedGetScript
  | colocatedPutScript
  | colocatedEvictByPrimaryScript
  | colocatedEvictByAliasScript
  | shardedGetValidateScript
  | shardedPutScript
  | shardedEvictScript
  | shardedPointerCDelScript

text \<open>
  \<open>ScanKeys\<close> calls back into the program.  The two callbacks of \<open>redisstore\<close> write only local
  variables of the functions they are closures of, collected here as \<open>scan_vars\<close>.
\<close>

record scan_vars =
  sv_deleted :: int
  sv_errs :: "error list"
  sv_pks :: "string fset"

definition no_vars :: scan_vars where
  "no_vars = \<lparr>sv_deleted = 0, sv_errs = [], sv_pks = {||}\<rparr>"

type_synonym 'w batch_fn = "string list \<Rightarrow> (error option, 'w) op"

type_synonym 's key_scanner =
  "string \<Rightarrow> (scan_vars \<times> 's) batch_fn \<Rightarrow> (error option, scan_vars \<times> 's) op"

text \<open>\<open>RedisConn\<close>, with the optional extension \<open>KeyScanner\<close>.\<close>

record 's RedisConn =
  rc_Get :: "string \<Rightarrow> (error + bytes, 's) op"
  rc_Set :: "string \<Rightarrow> bytes \<Rightarrow> int \<Rightarrow> (error option, 's) op"
  rc_Del :: "string list \<Rightarrow> (error + int, 's) op"
  rc_Exists :: "string list \<Rightarrow> (error + int, 's) op"
  rc_MGet :: "string list \<Rightarrow> (error + goany list, 's) op"
  rc_Eval :: "script \<Rightarrow> string list \<Rightarrow> arg list \<Rightarrow> (error + goany, 's) op"
  rc_ScanKeys :: "'s key_scanner option"

subsection \<open>The commands of the scripts\<close>

record 's redis_cmds =
  rd_GET :: "string \<Rightarrow> (error + bytes option, 's) op"
  rd_SET :: "string \<Rightarrow> bytes \<Rightarrow> int option \<Rightarrow> (error + unit, 's) op"
  rd_DEL :: "string \<Rightarrow> (error + int, 's) op"
  rd_HGET :: "string \<Rightarrow> string \<Rightarrow> (error + bytes option, 's) op"
  rd_HSET :: "string \<Rightarrow> string \<Rightarrow> bytes \<Rightarrow> (error + unit, 's) op"
  rd_HDEL :: "string \<Rightarrow> string \<Rightarrow> (error + unit, 's) op"
  rd_HGETALL :: "string \<Rightarrow> (error + bytes list, 's) op"
  rd_PEXPIRE :: "string \<Rightarrow> int \<Rightarrow> (error + unit, 's) op"
  rd_PERSIST :: "string \<Rightarrow> (error + unit, 's) op"

subsection \<open>The documented behaviour\<close>

datatype rvalue = RStr bytes "int option" | RHash "string gomap" "int option"

type_synonym rcontent = "string \<Rightarrow> rvalue option"

fun rv_deadline :: "rvalue \<Rightarrow> int option" where
  "rv_deadline (RStr b d) = d"
| "rv_deadline (RHash h d) = d"

fun rv_expire :: "int option \<Rightarrow> rvalue \<Rightarrow> rvalue" where
  "rv_expire d (RStr b x) = RStr b d"
| "rv_expire d (RHash h x) = RHash h d"

definition live :: "int \<Rightarrow> rcontent \<Rightarrow> rcontent" where
  "live t c k = (case c k of None \<Rightarrow> None | Some v \<Rightarrow> if expired_at (rv_deadline v) t then None else Some v)"

definition wrong_type :: error where
  "wrong_type = OtherErr ''WRONGTYPE Operation against a key holding the wrong kind of value''"

definition flat_pairs :: "(string \<times> bytes) list \<Rightarrow> bytes list" where
  "flat_pairs ps = concat (map (\<lambda>(f, v). [f, v]) ps)"

text \<open>One key's value before a command to the reply, and to the value after it.\<close>

fun ref_GET :: "rvalue option \<Rightarrow> error + bytes option" where
  "ref_GET None = Inr None"
| "ref_GET (Some (RStr b d)) = Inr (Some b)"
| "ref_GET (Some (RHash h d)) = Inl wrong_type"

fun ref_HGET :: "string \<Rightarrow> rvalue option \<Rightarrow> error + bytes option" where
  "ref_HGET f None = Inr None"
| "ref_HGET f (Some (RHash h d)) = Inr (fmlookup h f)"
| "ref_HGET f (Some (RStr b d)) = Inl wrong_type"

fun ref_hash :: "rvalue option \<Rightarrow> error + string gomap" where
  "ref_hash None = Inr fmempty"
| "ref_hash (Some (RHash h d)) = Inr h"
| "ref_hash (Some (RStr b d)) = Inl wrong_type"

fun hset_value :: "string \<Rightarrow> bytes \<Rightarrow> rvalue option \<Rightarrow> rvalue option" where
  "hset_value f v None = Some (RHash (fmupd f v fmempty) None)"
| "hset_value f v (Some (RHash h d)) = Some (RHash (fmupd f v h) d)"
| "hset_value f v (Some (RStr b d)) = Some (RStr b d)"

fun hdel_value :: "string \<Rightarrow> rvalue option \<Rightarrow> rvalue option" where
  "hdel_value f None = None"
| "hdel_value f (Some (RHash h d)) =
     (if fmdrop f h = fmempty then None else Some (RHash (fmdrop f h) d))"
| "hdel_value f (Some (RStr b d)) = Some (RStr b d)"

fun is_str :: "rvalue option \<Rightarrow> bool" where
  "is_str (Some (RStr b d)) = True"
| "is_str _ = False"

definition hash_reply :: "rvalue option \<Rightarrow> error + unit" where
  "hash_reply v = (if is_str v then Inl wrong_type else Inr ())"

text \<open>A command on one key: it sees the live value \<open>v\<close> of the key and puts another in its place.\<close>

definition at_key :: "int \<Rightarrow> string \<Rightarrow> (rvalue option \<Rightarrow> rvalue option) \<Rightarrow> rcontent \<Rightarrow> rcontent" where
  "at_key t k f c = c(k := (let v = live t c k in if f v = v then c k else f v))"

text \<open>A deadline so many milliseconds from now.\<close>

definition px_deadline :: "int \<Rightarrow> int option \<Rightarrow> int option" where
  "px_deadline t px = (case px of None \<Rightarrow> None | Some ms \<Rightarrow> Some (t + ms))"

locale redis_server =
  fixes R :: "'s redis_cmds"
    and content :: "'s \<Rightarrow> rcontent"
    and now :: "'s \<Rightarrow> int"
  assumes GET: "fst (rd_GET R k s) = ref_GET (live (now s) (content s) k)"
      "content (snd (rd_GET R k s)) = content s" "now (snd (rd_GET R k s)) = now s"
    and SET: "px = None \<or> (\<exists>ms. px = Some ms \<and> 0 < ms) \<Longrightarrow> fst (rd_SET R k v px s) = Inr ()"
      "px = None \<or> (\<exists>ms. px = Some ms \<and> 0 < ms) \<Longrightarrow>
       content (snd (rd_SET R k v px s)) = (content s)(k \<mapsto> RStr v (px_deadline (now s) px))"
      "now (snd (rd_SET R k v px s)) = now s"
    and DEL: "fst (rd_DEL R k s) = Inr (if live (now s) (content s) k = None then 0 else 1)"
      "content (snd (rd_DEL R k s)) = (content s)(k := None)" "now (snd (rd_DEL R k s)) = now s"
    and HGET: "fst (rd_HGET R k f s) = ref_HGET f (live (now s) (content s) k)"
      "content (snd (rd_HGET R k f s)) = content s" "now (snd (rd_HGET R k f s)) = now s"
    and HSET: "fst (rd_HSET R k f v s) = hash_reply (live (now s) (content s) k)"
      "content (snd (rd_HSET R k f v s)) = at_key (now s) k (hset_value f v) (content s)"
      "now (snd (rd_HSET R k f v s)) = now s"
    and HDEL: "fst (rd_HDEL R k f s) = hash_reply (live (now s) (content s) k)"
      "content (snd (rd_HDEL R k f s)) = at_key (now s) k (hdel_value f) (content s)"
      "now (snd (rd_HDEL R k f s)) = now s"
    and HGETALL: "case ref_hash (live (now s) (content s) k) of
        Inl e \<Rightarrow> fst (rd_HGETALL R k s) = Inl e
      | Inr h \<Rightarrow> \<exists>ps. fst (rd_HGETALL R k s) = Inr (flat_pairs ps) \<and> distinct (map fst ps) \<and> fmap_of_list ps = h"
      "content (snd (rd_HGETALL R k s)) = content s" "now (snd (rd_HGETALL R k s)) = now s"
    and PEXPIRE: "0 < ms \<Longrightarrow> fst (rd_PEXPIRE R k ms s) = Inr ()"
      "0 < ms \<Longrightarrow> content (snd (rd_PEXPIRE R k ms s)) =
         at_key (now s) k (map_option (rv_expire (Some (now s + ms)))) (content s)"
      "now (snd (rd_PEXPIRE R k ms s)) = now s"
    and PERSIST: "fst (rd_PERSIST R k s) = Inr ()"
      "content (snd (rd_PERSIST R k s)) = at_key (now s) k (map_option (rv_expire None)) (content s)"
      "now (snd (rd_PERSIST R k s)) = now s"

subsection \<open>Live content\<close>

lemma live_simps [simp]:
  "live t (c(k := None)) = (live t c)(k := None)"
  "\<not> expired_at (rv_deadline v) t \<Longrightarrow> live t (c(k \<mapsto> v)) = (live t c)(k \<mapsto> v)"
  by (auto simp: live_def fun_eq_iff)

lemma live_at_key:
  assumes "\<And>v. f (live t c k) = Some v \<Longrightarrow> \<not> expired_at (rv_deadline v) t"
  shows "live t (at_key t k f c) = (live t c)(k := f (live t c k))"
proof
  fix q
  show "live t (at_key t k f c) q = ((live t c)(k := f (live t c k))) q"
    using assms by (cases "f (live t c k)") (auto simp: at_key_def live_def Let_def split: option.splits)
qed

lemma at_key_other [simp]: "q \<noteq> k \<Longrightarrow> at_key t k f c q = c q"
  by (simp add: at_key_def)

lemma live_Some: "live t c k = Some v \<longleftrightarrow> c k = Some v \<and> \<not> expired_at (rv_deadline v) t"
  by (auto simp: live_def split: option.splits)

lemma live_later: "t \<le> t' \<Longrightarrow> live t' c k = Some v \<Longrightarrow> live t c k = Some v"
  by (auto simp: live_Some intro: expired_at_mono)

lemma live_later_eq: "t \<le> t' \<Longrightarrow> live t' (live t c) = live t' c"
  by (auto simp: live_def fun_eq_iff split: option.splits dest: expired_at_mono)

lemma rv_expire_deadline [simp]: "rv_deadline (rv_expire d v) = d"
  by (cases v) simp_all

lemma expired_px [simp]: "(\<And>ms. px = Some ms \<Longrightarrow> 0 < ms) \<Longrightarrow> \<not> expired_at (px_deadline t px) t"
  by (auto simp: px_deadline_def split: option.splits)

text \<open>Nothing but the clock moves.\<close>

definition quiet :: "('s \<Rightarrow> rcontent) \<Rightarrow> ('s \<Rightarrow> int) \<Rightarrow> 's \<Rightarrow> 's \<Rightarrow> bool" where
  "quiet content now s s' \<longleftrightarrow> content s' = content s \<and> now s \<le> now s'"

lemma quiet_refl [simp]: "quiet content now s s"
  by (simp add: quiet_def)

end
