(* ===== verification/Redis_Scripts.thy ===== *)
theory Redis_Scripts
  imports Redis_Server
begin

text \<open>
  The Lua scripts of \<open>redisstore/scripts\<close>, one definition per file, over the commands of the
  server.  A command that raises (a key of the wrong type) aborts the script with its error.  The
  server runs a script to its end before anything else, with its clock stopped; \<open>redis_client\<close>
  states this of \<open>Eval\<close> and the documented effect of the other calls of a connection that does not
  fail.
\<close>

subsection \<open>Sequencing\<close>

definition lua_bind :: "(error + 'a, 's) op \<Rightarrow> ('a \<Rightarrow> (error + 'b, 's) op) \<Rightarrow> (error + 'b, 's) op" where
  "lua_bind m f s = (case m s of (Inl e, s1) \<Rightarrow> (Inl e, s1) | (Inr x, s1) \<Rightarrow> f x s1)"

definition lua_return :: "'a \<Rightarrow> (error + 'a, 's) op" where
  "lua_return x s = (Inr x, s)"

text \<open>A reply: Lua's \<open>false\<close> is a nil reply, a table an array.\<close>

datatype lua = LFalse | LStr bytes | LInt int | LList "bytes list"

text \<open>\<open>for i = 1, #all, 2 do ... all[i] ... all[i + 1] ... end\<close>\<close>

fun lua_pairs :: "(bytes \<Rightarrow> bytes \<Rightarrow> (error + unit, 's) op) \<Rightarrow> bytes list \<Rightarrow> (error + unit, 's) op" where
  "lua_pairs f [] = lua_return ()"
| "lua_pairs f [a] = (\<lambda>s. (Inl (OtherErr ''attempt to concatenate a nil value''), s))"
| "lua_pairs f (a # b # rest) = lua_bind (f a b) (\<lambda>_. lua_pairs f rest)"

definition lua_ignore :: "(error + 'a, 's) op \<Rightarrow> (error + unit, 's) op" where
  "lua_ignore m = lua_bind m (\<lambda>_. lua_return ())"

text \<open>\<open>if ttl and ttl > 0 then SET key val PX ttl else SET key val end\<close>\<close>

definition set_ttl :: "'s redis_cmds \<Rightarrow> string \<Rightarrow> bytes \<Rightarrow> int \<Rightarrow> (error + unit, 's) op" where
  "set_ttl R key val ttl = (if ttl > 0 then rd_SET R key val (Some ttl) else rd_SET R key val None)"

subsection \<open>Colocated\<close>

definition colocated_get :: "'s redis_cmds \<Rightarrow> string \<Rightarrow> string \<Rightarrow> (error + lua, 's) op" where
  "colocated_get R pkey vprefix =
     lua_bind (rd_GET R pkey) (\<lambda>pk.
       case pk of
         None \<Rightarrow> lua_return LFalse
       | Some pk \<Rightarrow>
           lua_bind (rd_GET R (vprefix @ pk)) (\<lambda>v.
             case v of None \<Rightarrow> lua_return LFalse | Some v \<Rightarrow> lua_return (LStr v)))"

text \<open>The middle part of \<open>put.lua\<close>, under \<open>if field ~= ''\<close>.\<close>

definition colocated_point ::
  "'s redis_cmds \<Rightarrow> string \<Rightarrow> int \<Rightarrow> string \<Rightarrow> string \<Rightarrow> string \<Rightarrow> string \<Rightarrow> string \<Rightarrow>
     (error + unit, 's) op" where
  "colocated_point R mkey ttl field aval pk grpx mpx =
     (let pkey = grpx @ field @ ''::'' @ aval in
      lua_bind (rd_HGET R mkey field) (\<lambda>oldVal.
      lua_bind
        (case oldVal of
           Some oldVal \<Rightarrow>
             if oldVal \<noteq> aval then lua_ignore (rd_DEL R (grpx @ field @ ''::'' @ oldVal)) else lua_return ()
         | None \<Rightarrow> lua_return ()) (\<lambda>_.
      lua_bind (rd_GET R pkey) (\<lambda>oldPk.
      lua_bind
        (case oldPk of
           Some oldPk \<Rightarrow> if oldPk \<noteq> pk then rd_HDEL R (mpx @ oldPk) field else lua_return ()
         | None \<Rightarrow> lua_return ()) (\<lambda>_.
      lua_bind (rd_HSET R mkey field aval) (\<lambda>_.
      set_ttl R pkey pk ttl))))))"

text \<open>The last part: the deadline of the members hash and of every pointer it accounts for.\<close>

definition colocated_refresh ::
  "'s redis_cmds \<Rightarrow> string \<Rightarrow> int \<Rightarrow> string \<Rightarrow> (error + unit, 's) op" where
  "colocated_refresh R mkey ttl grpx =
     (if ttl > 0 then
        lua_bind (rd_PEXPIRE R mkey ttl) (\<lambda>_.
        lua_bind (rd_HGETALL R mkey) (\<lambda>all.
        lua_pairs (\<lambda>f v. rd_PEXPIRE R (grpx @ f @ ''::'' @ v) ttl) all))
      else
        lua_bind (rd_PERSIST R mkey) (\<lambda>_.
        lua_bind (rd_HGETALL R mkey) (\<lambda>all.
        lua_pairs (\<lambda>f v. rd_PERSIST R (grpx @ f @ ''::'' @ v)) all)))"

definition colocated_put ::
  "'s redis_cmds \<Rightarrow> string \<Rightarrow> string \<Rightarrow> bytes \<Rightarrow> int \<Rightarrow> string \<Rightarrow> string \<Rightarrow> string \<Rightarrow> string \<Rightarrow> string \<Rightarrow>
     (error + lua, 's) op" where
  "colocated_put R vkey mkey val ttl field aval pk grpx mpx =
     lua_bind (set_ttl R vkey val ttl) (\<lambda>_.
     lua_bind (if field \<noteq> '''' then colocated_point R mkey ttl field aval pk grpx mpx else lua_return ()) (\<lambda>_.
     lua_bind (colocated_refresh R mkey ttl grpx) (\<lambda>_.
     lua_return (LInt 1))))"

definition colocated_evict_by_primary ::
  "'s redis_cmds \<Rightarrow> string \<Rightarrow> string \<Rightarrow> string \<Rightarrow> (error + lua, 's) op" where
  "colocated_evict_by_primary R vkey mkey grpx =
     lua_bind (rd_DEL R vkey) (\<lambda>_.
     lua_bind (rd_HGETALL R mkey) (\<lambda>all.
     lua_bind (lua_pairs (\<lambda>f v. lua_ignore (rd_DEL R (grpx @ f @ ''::'' @ v))) all) (\<lambda>_.
     lua_bind (rd_DEL R mkey) (\<lambda>_.
     lua_return (LInt 1)))))"

definition colocated_evict_by_alias ::
  "'s redis_cmds \<Rightarrow> string \<Rightarrow> string \<Rightarrow> string \<Rightarrow> string \<Rightarrow> (error + lua, 's) op" where
  "colocated_evict_by_alias R pkey vprefix mprefix grpx =
     lua_bind (rd_GET R pkey) (\<lambda>pk.
       case pk of
         None \<Rightarrow> lua_return (LInt 0)
       | Some pk \<Rightarrow>
           lua_bind (rd_DEL R (vprefix @ pk)) (\<lambda>_.
           lua_bind (rd_HGETALL R (mprefix @ pk)) (\<lambda>all.
           lua_bind (lua_pairs (\<lambda>f v. lua_ignore (rd_DEL R (grpx @ f @ ''::'' @ v))) all) (\<lambda>_.
           lua_bind (rd_DEL R (mprefix @ pk)) (\<lambda>_.
           lua_return (LInt 1))))))"

subsection \<open>Sharded\<close>

definition sharded_record_get_validate ::
  "'s redis_cmds \<Rightarrow> string \<Rightarrow> string \<Rightarrow> string \<Rightarrow> string \<Rightarrow> (error + lua, 's) op" where
  "sharded_record_get_validate R vkey mkey field aval =
     lua_bind (rd_GET R vkey) (\<lambda>v.
       case v of
         None \<Rightarrow> lua_return LFalse
       | Some v \<Rightarrow>
           lua_bind (rd_HGET R mkey field) (\<lambda>m.
             if m \<noteq> Some aval then lua_return LFalse else lua_return (LStr v)))"

definition sharded_record_put ::
  "'s redis_cmds \<Rightarrow> string \<Rightarrow> string \<Rightarrow> bytes \<Rightarrow> int \<Rightarrow> string \<Rightarrow> string \<Rightarrow> (error + lua, 's) op" where
  "sharded_record_put R vkey mkey val ttl field aval =
     lua_bind (set_ttl R vkey val ttl) (\<lambda>_.
     lua_bind (if field \<noteq> '''' then rd_HSET R mkey field aval else lua_return ()) (\<lambda>_.
     lua_bind (if ttl > 0 then rd_PEXPIRE R mkey ttl else rd_PERSIST R mkey) (\<lambda>_.
     lua_return (LInt 1))))"

definition sharded_pointer_cdel ::
  "'s redis_cmds \<Rightarrow> string \<Rightarrow> string \<Rightarrow> (error + lua, 's) op" where
  "sharded_pointer_cdel R pkey pk =
     lua_bind (rd_GET R pkey) (\<lambda>v.
       if v = Some pk then lua_bind (rd_DEL R pkey) (\<lambda>n. lua_return (LInt n)) else lua_return (LInt 0))"

definition sharded_record_evict ::
  "'s redis_cmds \<Rightarrow> string \<Rightarrow> string \<Rightarrow> (error + lua, 's) op" where
  "sharded_record_evict R vkey mkey =
     lua_bind (rd_HGETALL R mkey) (\<lambda>all.
     lua_bind (rd_DEL R vkey) (\<lambda>_.
     lua_bind (rd_DEL R mkey) (\<lambda>_.
     lua_return (LList all))))"

subsection \<open>Running a script\<close>

text \<open>\<open>KEYS\<close> and \<open>ARGV\<close> in the shapes in which the Go code passes them; there are no others.\<close>

definition bad_call :: "(error + lua, 's) op" where
  "bad_call s = (Inl (OtherErr ''script called with other arguments''), s)"

definition run_script ::
  "'s redis_cmds \<Rightarrow> script \<Rightarrow> string list \<Rightarrow> arg list \<Rightarrow> (error + lua, 's) op" where
  "run_script R sc KEYS ARGV =
     (case sc of
        colocatedGetScript \<Rightarrow>
          (case (KEYS, ARGV) of ([k1], [ArgText a1]) \<Rightarrow> colocated_get R k1 a1 | _ \<Rightarrow> bad_call)
      | colocatedPutScript \<Rightarrow>
          (case (KEYS, ARGV) of
             ([k1, k2], [ArgText a1, ArgInt a2, ArgText a3, ArgText a4, ArgText a5, ArgText a6, ArgText a7]) \<Rightarrow>
               colocated_put R k1 k2 a1 a2 a3 a4 a5 a6 a7
           | _ \<Rightarrow> bad_call)
      | colocatedEvictByPrimaryScript \<Rightarrow>
          (case (KEYS, ARGV) of
             ([k1, k2], [ArgText a1]) \<Rightarrow> colocated_evict_by_primary R k1 k2 a1 | _ \<Rightarrow> bad_call)
      | colocatedEvictByAliasScript \<Rightarrow>
          (case (KEYS, ARGV) of
             ([k1], [ArgText a1, ArgText a2, ArgText a3]) \<Rightarrow> colocated_evict_by_alias R k1 a1 a2 a3
           | _ \<Rightarrow> bad_call)
      | shardedGetValidateScript \<Rightarrow>
          (case (KEYS, ARGV) of
             ([k1, k2], [ArgText a1, ArgText a2]) \<Rightarrow> sharded_record_get_validate R k1 k2 a1 a2
           | _ \<Rightarrow> bad_call)
      | shardedPutScript \<Rightarrow>
          (case (KEYS, ARGV) of
             ([k1, k2], [ArgText a1, ArgInt a2, ArgText a3, ArgText a4]) \<Rightarrow>
               sharded_record_put R k1 k2 a1 a2 a3 a4
           | _ \<Rightarrow> bad_call)
      | shardedEvictScript \<Rightarrow>
          (case (KEYS, ARGV) of ([k1, k2], []) \<Rightarrow> sharded_record_evict R k1 k2 | _ \<Rightarrow> bad_call)
      | shardedPointerCDelScript \<Rightarrow>
          (case (KEYS, ARGV) of ([k1], [ArgText a1]) \<Rightarrow> sharded_pointer_cdel R k1 a1 | _ \<Rightarrow> bad_call))"

text \<open>A script's reply as go-redis hands it to the program.\<close>

fun lua_reply :: "error + lua \<Rightarrow> error + goany" where
  "lua_reply (Inl e) = Inl e"
| "lua_reply (Inr LFalse) = Inl redis_Nil"
| "lua_reply (Inr (LStr b)) = Inr (GoString b)"
| "lua_reply (Inr (LInt n)) = Inr (GoInt n)"
| "lua_reply (Inr (LList bs)) = Inr (GoSlice (map GoString bs))"

fun get_reply :: "error + bytes option \<Rightarrow> error + bytes" where
  "get_reply (Inl e) = Inl e"
| "get_reply (Inr None) = Inl redis_Nil"
| "get_reply (Inr (Some b)) = Inr b"

fun mget_reply :: "rvalue option \<Rightarrow> goany" where
  "mget_reply (Some (RStr b d)) = GoString b"
| "mget_reply _ = GoNil"

text \<open>
  The expiry that go-redis sends for a \<open>time.Duration\<close>: none for zero and less, whole milliseconds
  otherwise and at least one.  A duration of \<open>-1\<close> is its constant \<open>KeepTTL\<close>, which keeps the deadline
  that the key has.
\<close>

definition go_px :: "int \<Rightarrow> int option" where
  "go_px ttl = (if ttl > 0 then Some (max 1 (ttl div 1000000)) else None)"

text \<open>
  \<open>arrive s\<close> is the state in which a command sent in \<open>s\<close> reaches the server: later, and after
  whatever other clients did in between.
\<close>

locale redis_calls = redis_server R content now
  for R :: "'s redis_cmds" and content :: "'s \<Rightarrow> rcontent" and now :: "'s \<Rightarrow> int" +
  fixes conn :: "'s RedisConn"
    and arrive :: "'s \<Rightarrow> 's"
  assumes arrive_later: "now s \<le> now (arrive s)"
    and conn_Get: "rc_Get conn k s = (get_reply (fst (rd_GET R k (arrive s))), snd (rd_GET R k (arrive s)))"
    and conn_Set: "ttl \<noteq> -1 \<Longrightarrow> rc_Set conn k v ttl s = (None, snd (rd_SET R k v (go_px ttl) (arrive s)))"
    and conn_Set_keep: "fst (rc_Set conn k v (-1) s) = None"
      "content (snd (rc_Set conn k v (-1) s)) = (content (arrive s))
         (k \<mapsto> RStr v (Option.bind (live (now (arrive s)) (content (arrive s)) k) rv_deadline))"
      "now (snd (rc_Set conn k v (-1) s)) = now (arrive s)"
    and conn_Del: "rc_Del conn [k] s = rd_DEL R k (arrive s)"
    and conn_Exists_at: "fst (rc_Exists conn [k] s) =
        Inr (if live (now (arrive s)) (content (arrive s)) k = None then 0 else 1)"
      "content (snd (rc_Exists conn [k] s)) = content (arrive s)" "now (snd (rc_Exists conn [k] s)) = now (arrive s)"
    and conn_MGet_at: "ks \<noteq> [] \<Longrightarrow> fst (rc_MGet conn ks s) =
        Inr (map (\<lambda>k. mget_reply (live (now (arrive s)) (content (arrive s)) k)) ks)"
      "content (snd (rc_MGet conn ks s)) = content (arrive s)" "now (snd (rc_MGet conn ks s)) = now (arrive s)"
    and conn_Eval: "rc_Eval conn sc KEYS ARGV s =
        (lua_reply (fst (run_script R sc KEYS ARGV (arrive s))), snd (run_script R sc KEYS ARGV (arrive s)))"

text \<open>A stretch of time in which no other client writes.\<close>

locale redis_client = redis_calls R content now conn arrive
  for R :: "'s redis_cmds" and content :: "'s \<Rightarrow> rcontent" and now :: "'s \<Rightarrow> int"
    and conn :: "'s RedisConn" and arrive :: "'s \<Rightarrow> 's" +
  assumes arrive_quiet: "content (arrive s) = content s"
begin

lemmas arrive = arrive_later arrive_quiet
lemmas conn_Exists = conn_Exists_at [unfolded arrive_quiet]
lemmas conn_MGet = conn_MGet_at [unfolded arrive_quiet]

end

end
