(* ===== verification/Redis_Lua.thy ===== *)
theory Redis_Lua
  imports Redis_Scripts Keyspace
begin

text \<open>
  Running the Lua scripts symbolically.  \<open>runs m s x c\<close>: from \<open>s\<close> the commands \<open>m\<close> end without an
  error, with the result \<open>x\<close> and the content \<open>c\<close>, at the instant at which they began.  There is one
  rule per command, and one lemma per script, which gives its effect as a function on the content.
\<close>

subsection \<open>Effects on the content\<close>

definition expire_key :: "int \<Rightarrow> int option \<Rightarrow> string \<Rightarrow> rcontent \<Rightarrow> rcontent" where
  "expire_key t d k = at_key t k (map_option (rv_expire d))"

definition hset_key :: "int \<Rightarrow> string \<Rightarrow> string \<Rightarrow> bytes \<Rightarrow> rcontent \<Rightarrow> rcontent" where
  "hset_key t k f v = at_key t k (hset_value f v)"

definition hdel_key :: "int \<Rightarrow> string \<Rightarrow> string \<Rightarrow> rcontent \<Rightarrow> rcontent" where
  "hdel_key t k f = at_key t k (hdel_value f)"

definition expire_all :: "int \<Rightarrow> int option \<Rightarrow> string list \<Rightarrow> rcontent \<Rightarrow> rcontent" where
  "expire_all t d ks = fold (expire_key t d) ks"

definition delete_all :: "string list \<Rightarrow> rcontent \<Rightarrow> rcontent" where
  "delete_all ks = fold (\<lambda>k c. c(k := None)) ks"

lemma keys_other [simp]:
  "q \<noteq> k \<Longrightarrow> expire_key t d k c q = c q"
  "q \<noteq> k \<Longrightarrow> hset_key t k f v c q = c q"
  "q \<noteq> k \<Longrightarrow> hdel_key t k f c q = c q"
  by (simp_all add: expire_key_def hset_key_def hdel_key_def)

lemma live_expire_key [simp]:
  "\<not> expired_at d t \<Longrightarrow> live t (expire_key t d k c) = (live t c)(k := map_option (rv_expire d) (live t c k))"
  unfolding expire_key_def by (rule live_at_key) auto

lemma value_deadline:
  "hset_value f v (Some z) = Some x \<Longrightarrow> rv_deadline x = rv_deadline z"
  "hdel_value f (Some z) = Some x \<Longrightarrow> rv_deadline x = rv_deadline z"
  by (cases z; auto split: if_splits)+

lemma live_hset_key [simp]:
  "live t (hset_key t k f v c) = (live t c)(k := hset_value f v (live t c k))"
  unfolding hset_key_def
proof (rule live_at_key)
  fix x assume "hset_value f v (live t c k) = Some x"
  then show "\<not> expired_at (rv_deadline x) t"
    by (cases "live t c k") (auto simp: live_Some dest: value_deadline)
qed

lemma live_hdel_key [simp]:
  "live t (hdel_key t k f c) = (live t c)(k := hdel_value f (live t c k))"
  unfolding hdel_key_def
proof (rule live_at_key)
  fix x assume "hdel_value f (live t c k) = Some x"
  then show "\<not> expired_at (rv_deadline x) t"
    by (cases "live t c k") (auto simp: live_Some dest: value_deadline)
qed

lemma rv_expire_twice [simp]: "rv_expire d (rv_expire d v) = rv_expire d v"
  by (cases v) simp_all

lemma live_expire_all:
  "\<not> expired_at d t \<Longrightarrow>
     live t (expire_all t d ks c) k = (if k \<in> set ks then map_option (rv_expire d) (live t c k) else live t c k)"
  by (induction ks arbitrary: c) (auto simp: expire_all_def option.map_comp comp_def)

lemma expire_all_other [simp]: "q \<notin> set ks \<Longrightarrow> expire_all t d ks c q = c q"
  by (induction ks arbitrary: c) (auto simp: expire_all_def)

lemma delete_all_apply [simp]: "delete_all ks c k = (if k \<in> set ks then None else c k)"
  by (induction ks arbitrary: c) (auto simp: delete_all_def)

lemma live_delete_all: "live t (delete_all ks c) k = (if k \<in> set ks then None else live t c k)"
  by (simp add: live_def)

lemma deadline_px [simp]:
  "0 < ttl \<Longrightarrow> px_deadline t (Some ttl) = deadline t ttl" "px_deadline t None = None"
  "\<not> expired_at (deadline t ttl) t"
  by (simp_all add: px_deadline_def deadline_def)

lemma deadline_pos: "0 < ttl \<Longrightarrow> deadline t ttl = Some (t + ttl)"
  "\<not> 0 < ttl \<Longrightarrow> deadline t ttl = None"
  by (simp_all add: deadline_def)

subsection \<open>The rules\<close>

context redis_server
begin

definition runs :: "(error + 'a, 's) op \<Rightarrow> 's \<Rightarrow> 'a \<Rightarrow> rcontent \<Rightarrow> bool" where
  "runs m s x c \<longleftrightarrow> fst (m s) = Inr x \<and> content (snd (m s)) = c \<and> now (snd (m s)) = now s"

lemma runsD: "runs m s x c \<Longrightarrow> fst (m s) = Inr x" "runs m s x c \<Longrightarrow> content (snd (m s)) = c"
  "runs m s x c \<Longrightarrow> now (snd (m s)) = now s"
  by (simp_all add: runs_def)

lemma runs_bind:
  assumes "runs m s x c1" "\<And>s1. content s1 = c1 \<Longrightarrow> now s1 = now s \<Longrightarrow> runs (f x) s1 y c2"
  shows "runs (lua_bind m f) s y c2"
proof -
  obtain s1 where s1: "m s = (Inr x, s1)" "content s1 = c1" "now s1 = now s"
    using assms(1) unfolding runs_def by (metis prod.collapse)
  with assms(2) [OF s1(2,3)] show ?thesis by (simp add: runs_def lua_bind_def)
qed

lemma runs_return: "content s = c \<Longrightarrow> runs (lua_return x) s x c"
  by (simp add: runs_def lua_return_def)

lemma runs_ignore: "runs m s x c \<Longrightarrow> runs (lua_ignore m) s () c"
  unfolding lua_ignore_def by (rule runs_bind [of m s x c]) (auto intro: runs_return)

lemma runs_GET: "ref_GET (live (now s) (content s) k) = Inr x \<Longrightarrow> runs (rd_GET R k) s x (content s)"
  by (simp add: runs_def GET)

lemma runs_set_ttl:
  "runs (set_ttl R k v ttl) s () ((content s)(k \<mapsto> RStr v (deadline (now s) ttl)))"
  using SET(1,2) [of "if 0 < ttl then Some ttl else None"]
  by (auto simp: runs_def set_ttl_def SET deadline_pos)

lemma runs_DEL: "runs (lua_ignore (rd_DEL R k)) s () ((content s)(k := None))"
  by (rule runs_ignore) (simp add: runs_def DEL)

lemma runs_DEL_count:
  "runs (rd_DEL R k) s (if live (now s) (content s) k = None then 0 else 1) ((content s)(k := None))"
  by (simp add: runs_def DEL)

lemma runs_HGET:
  "ref_HGET f (live (now s) (content s) k) = Inr x \<Longrightarrow> runs (rd_HGET R k f) s x (content s)"
  by (simp add: runs_def HGET)

lemma runs_HSET:
  "\<not> is_str (live (now s) (content s) k) \<Longrightarrow>
     runs (rd_HSET R k f v) s () (hset_key (now s) k f v (content s))"
  by (simp add: runs_def HSET hash_reply_def hset_key_def)

lemma runs_HDEL:
  "\<not> is_str (live (now s) (content s) k) \<Longrightarrow> runs (rd_HDEL R k f) s () (hdel_key (now s) k f (content s))"
  by (simp add: runs_def HDEL hash_reply_def hdel_key_def)

lemma runs_expire:
  "0 < ttl \<Longrightarrow> runs (rd_PEXPIRE R k ttl) s () (expire_key (now s) (deadline (now s) ttl) k (content s))"
  "\<not> 0 < ttl \<Longrightarrow> runs (rd_PERSIST R k) s () (expire_key (now s) (deadline (now s) ttl) k (content s))"
  by (simp_all add: runs_def PEXPIRE PERSIST expire_key_def deadline_pos)

lemma runs_HGETALL:
  assumes "ref_hash (live (now s) (content s) k) = Inr h"
  shows "\<exists>ps. runs (rd_HGETALL R k) s (flat_pairs ps) (content s) \<and> distinct (map fst ps) \<and> fmap_of_list ps = h"
  using assms HGETALL(1) [where s = s and k = k] by (auto simp: runs_def HGETALL(2,3))

lemma flat_pairs_simps [simp]:
  "flat_pairs [] = []" "flat_pairs ((f, v) # ps) = f # v # flat_pairs ps"
  by (simp_all add: flat_pairs_def)

lemma runs_pairs:
  assumes "\<And>f v s1. now s1 = now s \<Longrightarrow> runs (g f v) s1 () (G (f, v) (content s1))"
  shows "runs (lua_pairs g (flat_pairs ps)) s () (fold G ps (content s))"
proof -
  have "now s1 = now s \<Longrightarrow> runs (lua_pairs g (flat_pairs ps)) s1 () (fold G ps (content s1))" for s1
  proof (induction ps arbitrary: s1)
    case Nil
    then show ?case by (simp add: runs_return)
  next
    case (Cons p ps)
    obtain f v where p: "p = (f, v)" by force
    have "runs (g f v) s1 () (G (f, v) (content s1))" by (rule assms [OF Cons.prems])
    then show ?case unfolding p flat_pairs_simps lua_pairs.simps fold_simps
    proof (rule runs_bind)
      fix s2 assume "content s2 = G (f, v) (content s1)" "now s2 = now s1"
      with Cons.IH [of s2] Cons.prems
      show "runs (lua_pairs g (flat_pairs ps)) s2 () (fold G ps (G (f, v) (content s1)))" by simp
    qed
  qed
  then show ?thesis by simp
qed

end

text \<open>The keys that a loop over the members visits.\<close>

definition pair_keys :: "(string \<Rightarrow> string) \<Rightarrow> (string \<times> string) list \<Rightarrow> string list" where
  "pair_keys key ps = map (\<lambda>(f, v). key (f @ ''::'' @ v)) ps"

lemma fold_pair_keys:
  "fold (\<lambda>(f, v). expire_key t d (key (f @ ''::'' @ v))) ps = expire_all t d (pair_keys key ps)"
  "fold (\<lambda>(f, v) c. c(key (f @ ''::'' @ v) := None)) ps = delete_all (pair_keys key ps)"
  by (simp_all add: expire_all_def delete_all_def pair_keys_def fold_map comp_def case_prod_unfold)

lemma pairs_of_fmap:
  "distinct (map fst ps) \<Longrightarrow> fmap_of_list ps = h \<Longrightarrow> (f, v) \<in> set ps \<longleftrightarrow> fmlookup h f = Some v"
  by (auto simp: fmlookup_of_list)

end
