(* ===== verification/Glob.thy ===== *)
theory Glob
  imports Keyspace
begin

text \<open>
  \<open>redisstore/scan.go\<close>: \<open>globLiteral\<close> and \<open>matchPattern\<close>, which turn a literal key prefix into a
  pattern for \<open>SCAN MATCH\<close>.  \<open>globLiteral\<close> ranges over the runes of its argument, so Go's UTF-8
  decoder and encoder are part of the model: a byte that is not part of a valid encoding is read as
  U+FFFD and written back as the three bytes of U+FFFD.
\<close>

subsection \<open>Runes\<close>

definition RuneError :: nat where "RuneError = 0xFFFD"

definition cont_byte :: "nat \<Rightarrow> bool" where "cont_byte b \<longleftrightarrow> 0x80 \<le> b \<and> b \<le> 0xBF"

text \<open>The rune at the front of a byte sequence and the number of bytes it takes.\<close>

fun decode_rune :: "nat list \<Rightarrow> nat \<times> nat" where
  "decode_rune [] = (RuneError, 0)"
| "decode_rune (b0 # r) =
     (if b0 < 0x80 then (b0, 1)
      else if 0xC2 \<le> b0 \<and> b0 \<le> 0xDF then
        (case r of
           b1 # _ \<Rightarrow> if cont_byte b1 then ((b0 - 0xC0) * 64 + (b1 - 0x80), 2) else (RuneError, 1)
         | _ \<Rightarrow> (RuneError, 1))
      else if 0xE0 \<le> b0 \<and> b0 \<le> 0xEF then
        (case r of
           b1 # b2 # _ \<Rightarrow>
             if (if b0 = 0xE0 then 0xA0 else 0x80) \<le> b1 \<and> b1 \<le> (if b0 = 0xED then 0x9F else 0xBF) \<and> cont_byte b2
             then ((b0 - 0xE0) * 4096 + (b1 - 0x80) * 64 + (b2 - 0x80), 3) else (RuneError, 1)
         | _ \<Rightarrow> (RuneError, 1))
      else if 0xF0 \<le> b0 \<and> b0 \<le> 0xF4 then
        (case r of
           b1 # b2 # b3 # _ \<Rightarrow>
             if (if b0 = 0xF0 then 0x90 else 0x80) \<le> b1 \<and> b1 \<le> (if b0 = 0xF4 then 0x8F else 0xBF) \<and>
                cont_byte b2 \<and> cont_byte b3
             then ((b0 - 0xF0) * 262144 + (b1 - 0x80) * 4096 + (b2 - 0x80) * 64 + (b3 - 0x80), 4)
             else (RuneError, 1)
         | _ \<Rightarrow> (RuneError, 1))
      else (RuneError, 1))"

lemma decode_rune_width: "s \<noteq> [] \<Longrightarrow> 0 < snd (decode_rune s)"
  by (cases s) (auto split: list.splits)

text \<open>\<open>for _, r := range s\<close>\<close>

function range_runes :: "nat list \<Rightarrow> nat list" where
  "range_runes s =
     (if s = [] then [] else let (r, n) = decode_rune s in r # range_runes (drop n s))"
  by pat_completeness auto
termination
  by (relation "measure length") (use decode_rune_width in \<open>auto simp: prod_eq_iff\<close>)

declare range_runes.simps [simp del]

lemma range_runes_Nil [simp]: "range_runes [] = []"
  by (subst range_runes.simps) simp

definition scalar :: "nat \<Rightarrow> bool" where
  "scalar r \<longleftrightarrow> r < 0xD800 \<or> (0xE000 \<le> r \<and> r \<le> 0x10FFFF)"

text \<open>\<open>strings.Builder.WriteRune\<close>: a value that is no scalar is written as U+FFFD.\<close>

fun encode_rune :: "nat \<Rightarrow> nat list" where
  "encode_rune r =
     (let r = (if scalar r then r else RuneError) in
      if r < 0x80 then [r]
      else if r < 0x800 then [0xC0 + r div 64, 0x80 + r mod 64]
      else if r < 0x10000 then [0xE0 + r div 4096, 0x80 + r div 64 mod 64, 0x80 + r mod 64]
      else [0xF0 + r div 262144, 0x80 + r div 4096 mod 64, 0x80 + r div 64 mod 64, 0x80 + r mod 64])"

declare encode_rune.simps [simp del]

definition bytes_of :: "string \<Rightarrow> nat list" where
  "bytes_of = map of_char"

definition string_of :: "nat list \<Rightarrow> string" where
  "string_of = map char_of"

lemma string_of_bytes_of [simp]: "string_of (bytes_of s) = s"
  by (simp add: string_of_def bytes_of_def comp_def)

subsection \<open>\<open>globLiteral\<close>\<close>

text \<open>The five characters that the loop escapes: \<open>* ? [ ]\<close> and the backslash.\<close>

definition glob_meta :: "nat set" where
  "glob_meta = {0x5C, 0x2A, 0x3F, 0x5B, 0x5D}"

fun glob_loop :: "nat list \<Rightarrow> nat list" where
  "glob_loop [] = []"
| "glob_loop (r # rs) = (if r \<in> glob_meta then [0x5C] else []) @ encode_rune r @ glob_loop rs"

definition globLiteral :: "string \<Rightarrow> string" where
  "globLiteral s = string_of (glob_loop (range_runes (bytes_of s)))"

definition matchPattern :: "Match \<Rightarrow> string" where
  "matchPattern m = globLiteral (Prefix m) @ ''*'' @ globLiteral (Suffix m)"

subsection \<open>Valid strings\<close>

definition utf8 :: "nat list \<Rightarrow> nat list" where
  "utf8 rs = concat (map encode_rune rs)"

definition valid_utf8 :: "string \<Rightarrow> bool" where
  "valid_utf8 s \<longleftrightarrow> (\<exists>rs. list_all scalar rs \<and> bytes_of s = utf8 rs)"

lemma decode_encode:
  assumes "scalar r"
  shows "decode_rune (encode_rune r @ s) = (r, length (encode_rune r))"
proof -
  consider (1) "r < 0x80" | (2) "0x80 \<le> r" "r < 0x800" | (3) "0x800 \<le> r" "r < 0x10000"
    | (4) "0x10000 \<le> r" by linarith
  then show ?thesis
  proof cases
    case 1
    with assms show ?thesis by (simp add: encode_rune.simps)
  next
    case 2
    with assms have e: "encode_rune r = [0xC0 + r div 64, 0x80 + r mod 64]" by (simp add: encode_rune.simps)
    have "2 \<le> r div 64" "r div 64 < 32" "r mod 64 < 64" using 2 by auto
    then show ?thesis using div_mult_mod_eq [of r 64] by (simp add: e cont_byte_def)
  next
    case 3
    with assms have e: "encode_rune r = [0xE0 + r div 4096, 0x80 + r div 64 mod 64, 0x80 + r mod 64]"
      by (simp add: encode_rune.simps)
    define a b c where "a = r div 4096" and "b = r div 64 mod 64" and "c = r mod 64"
    have "r div 64 = a * 64 + b" using div_mult_mod_eq [of "r div 64" 64]
      by (simp add: a_def b_def flip: div_mult2_eq)
    moreover have "r = r div 64 * 64 + c" by (simp add: c_def)
    ultimately have r: "r = a * 4096 + b * 64 + c" by linarith
    have bd: "a < 16" "b < 64" "c < 64" using 3 by (auto simp: a_def b_def c_def)
    have "a = 0 \<Longrightarrow> 32 \<le> b" using 3 bd r by linarith
    moreover have "a = 13 \<Longrightarrow> b < 32" using assms bd r 3 by (auto simp: scalar_def)
    moreover have "encode_rune r = [0xE0 + a, 0x80 + b, 0x80 + c]" using e by (simp add: a_def b_def c_def)
    ultimately show ?thesis using bd by (simp add: cont_byte_def) (auto simp: r)
  next
    case 4
    with assms have e: "encode_rune r =
        [0xF0 + r div 262144, 0x80 + r div 4096 mod 64, 0x80 + r div 64 mod 64, 0x80 + r mod 64]"
      by (simp add: encode_rune.simps)
    define a b c d where "a = r div 262144" and "b = r div 4096 mod 64" and "c = r div 64 mod 64" and "d = r mod 64"
    have "r div 4096 = a * 64 + b" using div_mult_mod_eq [of "r div 4096" 64]
      by (simp add: a_def b_def flip: div_mult2_eq)
    moreover have "r div 64 = r div 4096 * 64 + c" using div_mult_mod_eq [of "r div 64" 64]
      by (simp add: c_def flip: div_mult2_eq)
    moreover have "r = r div 64 * 64 + d" by (simp add: d_def)
    ultimately have r: "r = a * 262144 + b * 4096 + c * 64 + d" by linarith
    have m: "r \<le> 0x10FFFF" using assms 4 by (auto simp: scalar_def)
    have bd: "a < 5" "b < 64" "c < 64" "d < 64" using m by (auto simp: a_def b_def c_def d_def)
    have "a = 0 \<Longrightarrow> 16 \<le> b" using 4 bd r by linarith
    moreover have "a = 4 \<Longrightarrow> b < 16" using m bd r by linarith
    moreover have "encode_rune r = [0xF0 + a, 0x80 + b, 0x80 + c, 0x80 + d]"
      using e by (simp add: a_def b_def c_def d_def)
    ultimately show ?thesis using bd by (simp add: cont_byte_def) (auto simp: r)
  qed
qed

lemma encode_rune_Nil [simp]: "encode_rune r \<noteq> []"
  by (simp add: encode_rune.simps Let_def)

lemma range_runes_utf8: "list_all scalar rs \<Longrightarrow> range_runes (utf8 rs) = rs"
proof (induction rs)
  case (Cons r rs)
  then have "scalar r" "range_runes (utf8 rs) = rs" by simp_all
  then show ?case
    by (subst range_runes.simps) (simp add: utf8_def decode_encode)
qed (simp add: utf8_def)

text \<open>The bytes of a rune that is no ASCII character are not ASCII, so none of them is escaped.\<close>

lemma encode_rune_high: "0x80 \<le> r \<Longrightarrow> b \<in> set (encode_rune r) \<Longrightarrow> 0x80 \<le> b"
  by (auto simp: encode_rune.simps RuneError_def Let_def split: if_splits)

lemma encode_rune_ascii [simp]: "r < 0x80 \<Longrightarrow> encode_rune r = [r]"
  by (simp add: encode_rune.simps scalar_def)

lemma char_literals:
  "char_of (0x5C :: nat) = CHR 0x5C" "char_of (0xEF :: nat) = CHR 0xEF"
  "char_of (0xBF :: nat) = CHR 0xBF" "char_of (0xBD :: nat) = CHR 0xBD"
proof -
  have "of_char (CHR 0x5C) = (0x5C :: nat)" "of_char (CHR 0xEF) = (0xEF :: nat)"
    "of_char (CHR 0xBF) = (0xBF :: nat)" "of_char (CHR 0xBD) = (0xBD :: nat)" by simp_all
  then show "char_of (0x5C :: nat) = CHR 0x5C" "char_of (0xEF :: nat) = CHR 0xEF"
    "char_of (0xBF :: nat) = CHR 0xBF" "char_of (0xBD :: nat) = CHR 0xBD"
    by (metis char_of_char)+
qed

definition escape :: "string \<Rightarrow> string" where
  "escape s = concat (map (\<lambda>c. if of_char c \<in> glob_meta then [CHR 0x5C, c] else [c]) s)"

lemma escape_simps [simp]:
  "escape [] = []" "escape (c # s) = (if of_char c \<in> glob_meta then [CHR 0x5C, c] else [c]) @ escape s"
  "escape (s @ t) = escape s @ escape t"
  by (simp_all add: escape_def)

lemma escape_no_meta: "(\<And>c. c \<in> set s \<Longrightarrow> of_char c \<notin> glob_meta) \<Longrightarrow> escape s = s"
  by (induction s) simp_all

lemma glob_loop_escape:
  "list_all scalar rs \<Longrightarrow> string_of (glob_loop rs) = escape (string_of (utf8 rs))"
proof (induction rs)
  case (Cons r rs)
  have IH: "string_of (glob_loop rs) = escape (string_of (utf8 rs))" using Cons by simp
  have "string_of (if r \<in> glob_meta then [0x5C] else []) @ string_of (encode_rune r) =
      escape (string_of (encode_rune r))"
  proof (cases "r < 0x80")
    case True
    then have o: "of_char (char_of r :: char) = r" by simp
    show ?thesis using True by (simp add: string_of_def o char_literals)
  next
    case False
    have "of_char c \<notin> glob_meta" if c: "c \<in> set (string_of (encode_rune r))" for c
    proof -
      obtain b where b: "c = char_of b" "b \<in> set (encode_rune r)" using c by (auto simp: string_of_def)
      have "0x80 \<le> b" using encode_rune_high [OF _ b(2)] False by simp
      moreover have "b < 256"
        using b(2) Cons.prems by (auto simp: encode_rune.simps scalar_def RuneError_def Let_def split: if_splits)
      ultimately show ?thesis by (auto simp: b(1) glob_meta_def)
    qed
    then have "escape (string_of (encode_rune r)) = string_of (encode_rune r)" by (rule escape_no_meta)
    moreover have "r \<notin> glob_meta" using False by (auto simp: glob_meta_def)
    ultimately show ?thesis by (simp add: string_of_def)
  qed
  then show ?case using IH by (simp add: utf8_def string_of_def)
qed (simp add: utf8_def string_of_def)

lemma globLiteral_escape: "valid_utf8 s \<Longrightarrow> globLiteral s = escape s"
proof -
  assume "valid_utf8 s"
  then obtain rs where rs: "list_all scalar rs" "bytes_of s = utf8 rs" by (auto simp: valid_utf8_def)
  have "globLiteral s = escape (string_of (utf8 rs))"
    by (simp add: globLiteral_def rs(2) range_runes_utf8 [OF rs(1)] glob_loop_escape [OF rs(1)])
  also have "string_of (utf8 rs) = s" by (simp flip: rs(2))
  finally show ?thesis .
qed

lemma valid_utf8_ascii: "(\<And>c. c \<in> set s \<Longrightarrow> of_char c < (0x80 :: nat)) \<Longrightarrow> valid_utf8 s"
proof -
  assume a: "\<And>c. c \<in> set s \<Longrightarrow> of_char c < (0x80 :: nat)"
  then have "list_all scalar (bytes_of s)" by (fastforce simp: list_all_iff bytes_of_def scalar_def)
  moreover have "utf8 (bytes_of s) = bytes_of s"
    using a by (induction s) (auto simp: utf8_def bytes_of_def)
  ultimately show ?thesis unfolding valid_utf8_def by metis
qed

lemma valid_utf8_append [simp]: "valid_utf8 s \<Longrightarrow> valid_utf8 t \<Longrightarrow> valid_utf8 (s @ t)"
proof -
  assume "valid_utf8 s" "valid_utf8 t"
  then obtain rs qs where "list_all scalar rs" "bytes_of s = utf8 rs" "list_all scalar qs" "bytes_of t = utf8 qs"
    by (auto simp: valid_utf8_def)
  then have "list_all scalar (rs @ qs)" "bytes_of (s @ t) = utf8 (rs @ qs)"
    by (simp_all add: utf8_def bytes_of_def)
  then show ?thesis unfolding valid_utf8_def by blast
qed

subsection \<open>The pattern language\<close>

text \<open>
  The part of Redis' documented pattern syntax that these patterns are made of: \<open>*\<close> matches any
  text, a backslash makes the next character literal, any other character that is not special stands
  for itself.  The matcher is the server's.
\<close>

locale glob_syntax =
  fixes glob :: "string \<Rightarrow> string \<Rightarrow> bool"
  assumes glob_end: "glob [] k \<longleftrightarrow> k = []"
    and glob_plain: "of_char c \<notin> glob_meta \<Longrightarrow> glob (c # p) k \<longleftrightarrow> (\<exists>k'. k = c # k' \<and> glob p k')"
    and glob_escaped: "glob (CHR 0x5C # c # p) k \<longleftrightarrow> (\<exists>k'. k = c # k' \<and> glob p k')"
    and glob_star: "glob (CHR ''*'' # p) k \<longleftrightarrow> (\<exists>a b. k = a @ b \<and> glob p b)"
begin

lemma glob_escape: "glob (escape s @ p) k \<longleftrightarrow> (\<exists>k'. k = s @ k' \<and> glob p k')"
  by (induction s arbitrary: k) (auto simp: glob_plain glob_escaped)

lemma glob_escape_all: "glob (escape s) k \<longleftrightarrow> k = s"
  using glob_escape [of s "[]" k] by (simp add: glob_end)

lemma glob_prefix: "valid_utf8 s \<Longrightarrow> glob (globLiteral s @ ''*'') k \<longleftrightarrow> prefix s k"
  by (simp add: globLiteral_escape glob_escape glob_star glob_end prefix_def)

lemma glob_match:
  "valid_utf8 (Prefix m) \<Longrightarrow> valid_utf8 (Suffix m) \<Longrightarrow> glob (matchPattern m) k \<longleftrightarrow> Match_Contains m k"
  by (simp add: matchPattern_def globLiteral_escape glob_escape glob_star glob_escape_all Match_Contains_iff) blast

end

text \<open>A byte that is not valid UTF-8 is replaced, so its pattern matches other keys than it should.\<close>

lemma globLiteral_invalid: "globLiteral [CHR 0xFF] = [CHR 0xEF, CHR 0xBF, CHR 0xBD]"
proof -
  have "range_runes [255] = [RuneError]" by (subst range_runes.simps) simp
  then show ?thesis
    by (simp add: globLiteral_def bytes_of_def string_of_def glob_meta_def encode_rune.simps scalar_def
        RuneError_def char_literals)
qed

end
