(* ===== verification/Redis_Store.thy ===== *)
theory Redis_Store
  imports Redis_Server Glob
begin

text \<open>
  The Go code of \<open>redisstore\<close>: the plain store (\<open>redisstore.go\<close>), the two alias strategies
  (\<open>colocated.go\<close>, \<open>sharded.go\<close>), prefix eviction of records (\<open>prefix.go\<close>) and the \<open>SCAN\<close> loops
  (\<open>scan.go\<close>), over any connection: every call may fail with an error of its own.
\<close>

subsection \<open>The plain store\<close>

definition nil_is_miss :: "error + bytes \<Rightarrow> error + bytes" where
  "nil_is_miss r =
     (case r of
        Inl err \<Rightarrow> if errors_is err redis_Nil then Inl ErrStoreMiss else Inl err
      | Inr b \<Rightarrow> Inr b)"

definition redis_Get :: "'s RedisConn \<Rightarrow> string \<Rightarrow> (error + bytes, 's) op" where
  "redis_Get conn key s = (let (r, s1) = rc_Get conn key s in (nil_is_miss r, s1))"

definition redis_Set :: "'s RedisConn \<Rightarrow> string \<Rightarrow> bytes \<Rightarrow> int \<Rightarrow> (error option, 's) op" where
  "redis_Set conn key val ttl s = rc_Set conn key val ttl s"

text \<open>\<open>.Err()\<close> of a command.\<close>

definition cmd_Err :: "error + 'a \<Rightarrow> error option" where
  "cmd_Err r = (case r of Inl err \<Rightarrow> Some err | Inr _ \<Rightarrow> None)"

definition redis_Delete :: "'s RedisConn \<Rightarrow> string \<Rightarrow> (error option, 's) op" where
  "redis_Delete conn key s = (let (r, s1) = rc_Del conn [key] s in (cmd_Err r, s1))"

definition redis_Exists :: "'s RedisConn \<Rightarrow> string \<Rightarrow> (error + bool, 's) op" where
  "redis_Exists conn key s =
     (case rc_Exists conn [key] s of
        (Inl err, s1) \<Rightarrow> (Inl err, s1)
      | (Inr n, s1) \<Rightarrow> (Inr (n > 0), s1))"

fun mget_loop :: "goany list \<Rightarrow> string list \<Rightarrow> bytes gomap \<Rightarrow> bytes gomap" where
  "mget_loop [] keys out = out"
| "mget_loop (v # vals) [] out = out"
| "mget_loop (v # vals) (k # keys) out =
     mget_loop vals keys
       (case v of
          GoString t \<Rightarrow> fmupd k t out
        | GoBytes t \<Rightarrow> fmupd k t out
        | _ \<Rightarrow> out)"

definition redis_GetMany :: "'s RedisConn \<Rightarrow> string list \<Rightarrow> (error + bytes gomap, 's) op" where
  "redis_GetMany conn keys s =
     (if keys = [] then (Inr fmempty, s)
      else
        case rc_MGet conn keys s of
          (Inl err, s1) \<Rightarrow> (Inl err, s1)
        | (Inr vals, s1) \<Rightarrow> (Inr (mget_loop vals keys fmempty), s1))"

text \<open>The callback of \<open>DeleteByPrefix\<close>.\<close>

fun delete_batch :: "'s RedisConn \<Rightarrow> string list \<Rightarrow> (error option, scan_vars \<times> 's) op" where
  "delete_batch conn [] (v, s) = (None, (v, s))"
| "delete_batch conn (k # ks) (v, s) =
     (case rc_Del conn [k] s of
        (Inl err, s1) \<Rightarrow> delete_batch conn ks (v\<lparr>sv_errs := sv_errs v @ [err]\<rparr>, s1)
      | (Inr n, s1) \<Rightarrow> delete_batch conn ks (v\<lparr>sv_deleted := sv_deleted v + n\<rparr>, s1))"

definition redis_DeleteByPrefix :: "'s RedisConn \<Rightarrow> string \<Rightarrow> (int \<times> error option, 's) op" where
  "redis_DeleteByPrefix conn keyPrefix s =
     (case rc_ScanKeys conn of
        None \<Rightarrow> ((0, Some ErrPrefixEvictNotSupported), s)
      | Some ScanKeys \<Rightarrow>
          (case ScanKeys (globLiteral keyPrefix @ ''*'') (delete_batch conn) (no_vars, s) of
             (scanErr, (v, s1)) \<Rightarrow>
               (let errs = (case scanErr of None \<Rightarrow> sv_errs v | Some e \<Rightarrow> sv_errs v @ [e])
                in ((sv_deleted v, errors_Join errs), s1))))"

definition redis_store :: "'s RedisConn \<Rightarrow> 's cache_store" where
  "redis_store conn = \<lparr>cs_Get = redis_Get conn, cs_Set = redis_Set conn, cs_Delete = redis_Delete conn,
     cs_Exists = redis_Exists conn\<rparr>"

subsection \<open>Prefix eviction of records\<close>

fun collect_batch ::
  "(string \<Rightarrow> string \<times> bool) \<Rightarrow> string \<Rightarrow> string list \<Rightarrow> (error option, scan_vars \<times> 's) op" where
  "collect_batch primary_of pkPrefix [] (v, s) = (None, (v, s))"
| "collect_batch primary_of pkPrefix (key # keys) (v, s) =
     (let (pk, found) = primary_of key
      in collect_batch primary_of pkPrefix keys
           (if found \<and> HasPrefix pk pkPrefix then (v\<lparr>sv_pks := finsert pk (sv_pks v)\<rparr>, s) else (v, s)))"

fun evict_sorted ::
  "(string \<Rightarrow> (error option, 's) op) \<Rightarrow> string list \<Rightarrow> int \<Rightarrow> error list \<Rightarrow> (int \<times> error list, 's) op" where
  "evict_sorted evict [] count errs s = ((count, errs), s)"
| "evict_sorted evict (pk # pks) count errs s =
     (case evict pk s of
        (Some err, s1) \<Rightarrow> evict_sorted evict pks count (errs @ [err]) s1
      | (None, s1) \<Rightarrow> evict_sorted evict pks (count + 1) errs s1)"

definition evictByPrimaryPrefix ::
  "'s RedisConn \<Rightarrow> string \<Rightarrow> bool \<Rightarrow> string \<Rightarrow> (string \<Rightarrow> (error option, 's) op) \<Rightarrow>
     (int \<times> error option, 's) op" where
  "evictByPrimaryPrefix conn ns sharded pkPrefix evict s =
     (case rc_ScanKeys conn of
        None \<Rightarrow> ((0, Some ErrPrefixEvictNotSupported), s)
      | Some ScanKeys \<Rightarrow>
          (case ScanKeys (matchPattern (ValueMatch ns pkPrefix sharded))
                  (collect_batch (\<lambda>key. PrimaryFromValueKey ns key sharded) pkPrefix) (no_vars, s) of
             (Some err, (v, s1)) \<Rightarrow> ((0, Some err), s1)
           | (None, vs) \<Rightarrow>
               (case ScanKeys (matchPattern (MembersMatch ns pkPrefix sharded))
                       (collect_batch (\<lambda>key. PrimaryFromMembersKey ns key sharded) pkPrefix) vs of
                  (Some err, (v, s2)) \<Rightarrow> ((0, Some err), s2)
                | (None, (v, s2)) \<Rightarrow>
                    (case evict_sorted evict (sorted_list_of_fset (sv_pks v)) 0 [] s2 of
                       ((count, errs), s3) \<Rightarrow> ((count, errors_Join errs), s3)))))"

subsection \<open>Durations\<close>

text \<open>\<open>ttl.Milliseconds()\<close>: an integer division that truncates.\<close>

definition Milliseconds :: "int \<Rightarrow> int" where
  "Milliseconds ttl = sgn ttl * (\<bar>ttl\<bar> div 1000000)"

subsection \<open>Colocated groups\<close>

record 's colocatedOps =
  co_conn :: "'s RedisConn"
  co_ns :: string

definition co_GetValue :: "'s colocatedOps \<Rightarrow> string \<Rightarrow> (error + bytes, 's) op" where
  "co_GetValue o1 primary s =
     (let (r, s1) = rc_Get (co_conn o1) (ValueKey (co_ns o1) primary False) s in (nil_is_miss r, s1))"

definition co_put :: "'s colocatedOps \<Rightarrow> string \<Rightarrow> AliasRef \<Rightarrow> bytes \<Rightarrow> int \<Rightarrow> (error option, 's) op" where
  "co_put o1 primary ref val ttl s =
     (let keys = [ValueKey (co_ns o1) primary False, MembersKey (co_ns o1) primary False];
          args = [ArgText val, ArgInt (Milliseconds ttl), ArgText (Field ref), ArgText (Value ref),
                  ArgText primary, ArgText (ColocatedGrpPrefix (co_ns o1)),
                  ArgText (ColocatedMembersPrefix (co_ns o1))];
          (r, s1) = rc_Eval (co_conn o1) colocatedPutScript keys args s
      in (cmd_Err r, s1))"

definition co_PutValue :: "'s colocatedOps \<Rightarrow> string \<Rightarrow> bytes \<Rightarrow> int \<Rightarrow> (error option, 's) op" where
  "co_PutValue o1 primary val ttl = co_put o1 primary \<lparr>Field = '''', Value = ''''\<rparr> val ttl"

definition co_PutByAlias ::
  "'s colocatedOps \<Rightarrow> string \<Rightarrow> AliasRef \<Rightarrow> bytes \<Rightarrow> int \<Rightarrow> (error option, 's) op" where
  "co_PutByAlias o1 primary ref val ttl = co_put o1 primary ref val ttl"

text \<open>The type switch at the end of both \<open>GetByAlias\<close>.\<close>

definition bytes_reply :: "error + goany \<Rightarrow> error + bytes" where
  "bytes_reply r =
     (case r of
        Inl err \<Rightarrow> if errors_is err redis_Nil then Inl ErrStoreMiss else Inl err
      | Inr (GoString v) \<Rightarrow> Inr v
      | Inr (GoBytes v) \<Rightarrow> Inr v
      | Inr _ \<Rightarrow> Inl ErrStoreMiss)"

definition co_GetByAlias :: "'s colocatedOps \<Rightarrow> AliasRef \<Rightarrow> (error + bytes, 's) op" where
  "co_GetByAlias o1 ref s =
     (let (r, s1) = rc_Eval (co_conn o1) colocatedGetScript
            [PointerKey (co_ns o1) (Field ref) (Value ref) False]
            [ArgText (ColocatedValuePrefix (co_ns o1))] s
      in (bytes_reply r, s1))"

definition co_EvictByPrimary :: "'s colocatedOps \<Rightarrow> string \<Rightarrow> (error option, 's) op" where
  "co_EvictByPrimary o1 primary s =
     (let keys = [ValueKey (co_ns o1) primary False, MembersKey (co_ns o1) primary False];
          (r, s1) = rc_Eval (co_conn o1) colocatedEvictByPrimaryScript keys
                      [ArgText (ColocatedGrpPrefix (co_ns o1))] s
      in (cmd_Err r, s1))"

definition co_EvictByAlias :: "'s colocatedOps \<Rightarrow> AliasRef \<Rightarrow> (error option, 's) op" where
  "co_EvictByAlias o1 ref s =
     (let (r, s1) = rc_Eval (co_conn o1) colocatedEvictByAliasScript
            [PointerKey (co_ns o1) (Field ref) (Value ref) False]
            [ArgText (ColocatedValuePrefix (co_ns o1)), ArgText (ColocatedMembersPrefix (co_ns o1)),
             ArgText (ColocatedGrpPrefix (co_ns o1))] s
      in (cmd_Err r, s1))"

definition co_EvictByPrimaryPrefix :: "'s colocatedOps \<Rightarrow> string \<Rightarrow> (int \<times> error option, 's) op" where
  "co_EvictByPrimaryPrefix o1 primaryPrefix =
     evictByPrimaryPrefix (co_conn o1) (co_ns o1) False primaryPrefix (co_EvictByPrimary o1)"

definition co_alias_ops :: "'s colocatedOps \<Rightarrow> 's alias_ops" where
  "co_alias_ops o1 = \<lparr>ao_GetValue = co_GetValue o1, ao_PutValue = co_PutValue o1,
     ao_EvictByPrimary = co_EvictByPrimary o1, ao_GetByAlias = co_GetByAlias o1,
     ao_PutByAlias = co_PutByAlias o1, ao_EvictByAlias = co_EvictByAlias o1,
     ao_EvictByPrimaryPrefix = Some (co_EvictByPrimaryPrefix o1)\<rparr>"

subsection \<open>Sharded groups\<close>

record 's shardedOps =
  sh_conn :: "'s RedisConn"
  sh_ns :: string

definition sh_record_keys :: "'s shardedOps \<Rightarrow> string \<Rightarrow> string list" where
  "sh_record_keys o1 pk = [ValueKey (sh_ns o1) pk True, MembersKey (sh_ns o1) pk True]"

definition sh_GetValue :: "'s shardedOps \<Rightarrow> string \<Rightarrow> (error + bytes, 's) op" where
  "sh_GetValue o1 primary s =
     (let (r, s1) = rc_Get (sh_conn o1) (ValueKey (sh_ns o1) primary True) s in (nil_is_miss r, s1))"

definition sh_PutValue :: "'s shardedOps \<Rightarrow> string \<Rightarrow> bytes \<Rightarrow> int \<Rightarrow> (error option, 's) op" where
  "sh_PutValue o1 primary val ttl s =
     (let (r, s1) = rc_Eval (sh_conn o1) shardedPutScript (sh_record_keys o1 primary)
            [ArgText val, ArgInt (Milliseconds ttl), ArgText '''', ArgText ''''] s
      in (cmd_Err r, s1))"

definition sh_PutByAlias ::
  "'s shardedOps \<Rightarrow> string \<Rightarrow> AliasRef \<Rightarrow> bytes \<Rightarrow> int \<Rightarrow> (error option, 's) op" where
  "sh_PutByAlias o1 primary ref val ttl s =
     (case rc_Eval (sh_conn o1) shardedPutScript (sh_record_keys o1 primary)
             [ArgText val, ArgInt (Milliseconds ttl), ArgText (Field ref), ArgText (Value ref)] s of
        (Inl err, s1) \<Rightarrow> (Some err, s1)
      | (Inr _, s1) \<Rightarrow>
          rc_Set (sh_conn o1) (PointerKey (sh_ns o1) (Field ref) (Value ref) True) primary ttl s1)"

definition sh_GetByAlias :: "'s shardedOps \<Rightarrow> AliasRef \<Rightarrow> (error + bytes, 's) op" where
  "sh_GetByAlias o1 ref s =
     (case rc_Get (sh_conn o1) (PointerKey (sh_ns o1) (Field ref) (Value ref) True) s of
        (Inl err, s1) \<Rightarrow> (if errors_is err redis_Nil then Inl ErrStoreMiss else Inl err, s1)
      | (Inr pk, s1) \<Rightarrow>
          (let (r, s2) = rc_Eval (sh_conn o1) shardedGetValidateScript (sh_record_keys o1 pk)
                 [ArgText (Field ref), ArgText (Value ref)] s1
           in (bytes_reply r, s2)))"

text \<open>\<open>x, _ := a.(string)\<close> reads as the empty string when the assertion fails.\<close>

definition string_or_empty :: "goany \<Rightarrow> string" where
  "string_or_empty a = (case a of GoString t \<Rightarrow> t | _ \<Rightarrow> '''')"

fun cdel_loop :: "'s shardedOps \<Rightarrow> string \<Rightarrow> goany list \<Rightarrow> 's \<Rightarrow> 's" where
  "cdel_loop o1 primary (a # b # arr) s =
     cdel_loop o1 primary arr
       (snd (rc_Eval (sh_conn o1) shardedPointerCDelScript
          [PointerKey (sh_ns o1) (string_or_empty a) (string_or_empty b) True] [ArgText primary] s))"
| "cdel_loop o1 primary _ s = s"

definition sh_EvictByPrimary :: "'s shardedOps \<Rightarrow> string \<Rightarrow> (error option, 's) op" where
  "sh_EvictByPrimary o1 primary s =
     (case rc_Eval (sh_conn o1) shardedEvictScript (sh_record_keys o1 primary) [] s of
        (Inl err, s1) \<Rightarrow> (Some err, s1)
      | (Inr (GoSlice arr), s1) \<Rightarrow> (None, cdel_loop o1 primary arr s1)
      | (Inr _, s1) \<Rightarrow> (None, s1))"

definition sh_EvictByAlias :: "'s shardedOps \<Rightarrow> AliasRef \<Rightarrow> (error option, 's) op" where
  "sh_EvictByAlias o1 ref s =
     (case rc_Get (sh_conn o1) (PointerKey (sh_ns o1) (Field ref) (Value ref) True) s of
        (Inl err, s1) \<Rightarrow> (if errors_is err redis_Nil then None else Some err, s1)
      | (Inr pk, s1) \<Rightarrow> sh_EvictByPrimary o1 pk s1)"

definition sh_EvictByPrimaryPrefix :: "'s shardedOps \<Rightarrow> string \<Rightarrow> (int \<times> error option, 's) op" where
  "sh_EvictByPrimaryPrefix o1 primaryPrefix =
     evictByPrimaryPrefix (sh_conn o1) (sh_ns o1) True primaryPrefix (sh_EvictByPrimary o1)"

definition sh_alias_ops :: "'s shardedOps \<Rightarrow> 's alias_ops" where
  "sh_alias_ops o1 = \<lparr>ao_GetValue = sh_GetValue o1, ao_PutValue = sh_PutValue o1,
     ao_EvictByPrimary = sh_EvictByPrimary o1, ao_GetByAlias = sh_GetByAlias o1,
     ao_PutByAlias = sh_PutByAlias o1, ao_EvictByAlias = sh_EvictByAlias o1,
     ao_EvictByPrimaryPrefix = Some (sh_EvictByPrimaryPrefix o1)\<rparr>"

subsection \<open>The backend\<close>

abbreviation co_of :: "'s RedisConn \<Rightarrow> string \<Rightarrow> 's colocatedOps" where
  "co_of conn ns \<equiv> \<lparr>co_conn = conn, co_ns = ns\<rparr>"

abbreviation sh_of :: "'s RedisConn \<Rightarrow> string \<Rightarrow> 's shardedOps" where
  "sh_of conn ns \<equiv> \<lparr>sh_conn = conn, sh_ns = ns\<rparr>"

definition redis_AliasGroup :: "'s RedisConn \<Rightarrow> string \<Rightarrow> AliasMode \<Rightarrow> 's alias_ops" where
  "redis_AliasGroup conn ns mode =
     (if mode = AliasSharded then sh_alias_ops \<lparr>sh_conn = conn, sh_ns = ns\<rparr>
      else co_alias_ops \<lparr>co_conn = conn, co_ns = ns\<rparr>)"

definition redis_New :: "'s RedisConn \<Rightarrow> 's store_impl" where
  "redis_New conn = \<lparr>si_store = redis_store conn, si_GetMany = Some (redis_GetMany conn),
     si_DeleteByPrefix = Some (redis_DeleteByPrefix conn), si_AliasGroup = Some (redis_AliasGroup conn)\<rparr>"

subsection \<open>The \<open>SCAN\<close> loops\<close>

text \<open>
  \<open>Scan\<close> of one node: from a cursor, a page of keys and the next cursor.  \<open>'w\<close> is everything
  that the scan and the callback can touch.  The loop runs until the server returns cursor 0, which
  nothing in this code forces it to do: \<open>None\<close> is a loop that does not end.
\<close>

type_synonym 'w node_scanner = "nat \<Rightarrow> string \<Rightarrow> int \<Rightarrow> (error + string list \<times> nat, 'w) op"

definition scanBatchSize :: int where "scanBatchSize = 100"

partial_function (option) scanNode ::
  "'w node_scanner \<Rightarrow> string \<Rightarrow> 'w batch_fn \<Rightarrow> nat \<Rightarrow> 'w \<Rightarrow> (error option \<times> 'w) option" where
  "scanNode Scan match fn cursor w =
     (case Scan cursor match scanBatchSize w of
        (Inl err, w1) \<Rightarrow> Some (Some (WrapErr ''redisstore: scan'' err), w1)
      | (Inr (keys, nxt), w1) \<Rightarrow>
          (case (if keys \<noteq> [] then fn keys w1 else (None, w1)) of
             (Some fnErr, w2) \<Rightarrow> Some (Some fnErr, w2)
           | (None, w2) \<Rightarrow> if nxt = 0 then Some (None, w2) else scanNode Scan match fn nxt w2))"

text \<open>
  \<open>ScanAll\<close>, whose local \<open>firstErr\<close> is the first component of the state.  A cluster client is one
  with \<open>ForEachMaster\<close>, which calls a function for every master node and is not part of this
  repository.
\<close>

type_synonym 'w node_fn = "'w node_scanner \<Rightarrow> 'w \<Rightarrow> (error option \<times> 'w) option"

record 'w UniversalClient =
  uc_Scan :: "'w node_scanner"
  uc_ForEachMaster :: "('w node_fn \<Rightarrow> 'w \<Rightarrow> (error option \<times> 'w) option) option"

definition serialized :: "'w batch_fn \<Rightarrow> (error option \<times> 'w) batch_fn" where
  "serialized fn keys fw =
     (case fw of
        (None, w) \<Rightarrow> (let (firstErr, w1) = fn keys w in (firstErr, (firstErr, w1)))
      | (Some e, w) \<Rightarrow> (Some e, (Some e, w)))"

definition ScanAll ::
  "(error option \<times> 'w) UniversalClient \<Rightarrow> string \<Rightarrow> 'w batch_fn \<Rightarrow> 'w \<Rightarrow> (error option \<times> 'w) option" where
  "ScanAll client match fn w =
     map_option (\<lambda>(r, (firstErr, w1)). (r, w1))
       (case uc_ForEachMaster client of
          Some ForEachMaster \<Rightarrow>
            ForEachMaster (\<lambda>node. scanNode node match (serialized fn) 0) (None, w)
        | None \<Rightarrow> scanNode (uc_Scan client) match (serialized fn) 0 (None, w))"

end
