(* ===== verification/Redis_Colocated.thy ===== *)
theory Redis_Colocated
  imports Redis_Lua Redis_Store
begin

text \<open>
  Colocated alias groups: what each script does to the live content of its group, as a function on
  that content, and the invariant \<open>co_inv\<close> that all of them keep.  Inside a script the clock of the
  server stands still, so the value, the members hash and the pointers of a record get one deadline
  and expire together.
\<close>

subsection \<open>The keys and the view of a group\<close>

lemma colocated_keys:
  "ColocatedGrpPrefix ns @ f @ ''::'' @ v = tail_key ns (alias_tail f v) False"
  "ColocatedMembersPrefix ns @ pk = MembersKey ns pk False"
  "ColocatedValuePrefix ns @ pk = ValueKey ns pk False"
  by (simp_all add: key_defs tail_key_def alias_tail_def)

lemma colocated_keys_simps [simp]:
  "ColocatedGrpPrefix ns @ f @ CHR '':'' # CHR '':'' # v = tail_key ns (alias_tail f v) False"
  "ColocatedMembersPrefix ns @ pk = MembersKey ns pk False"
  "ColocatedValuePrefix ns @ pk = ValueKey ns pk False"
  using colocated_keys by simp_all

lemma members_tail_disjoint [simp]:
  "MembersKey ns pk sh \<noteq> tail_key ns' t sh'" "tail_key ns' t sh' \<noteq> MembersKey ns pk sh"
  by (auto simp: key_defs tail_key_def)

fun rv_fields :: "rvalue option \<Rightarrow> string gomap" where
  "rv_fields (Some (RHash h d)) = h"
| "rv_fields _ = fmempty"

fun rv_text :: "rvalue option \<Rightarrow> bytes option" where
  "rv_text (Some (RStr b d)) = Some b"
| "rv_text _ = None"

definition co_fields :: "string \<Rightarrow> rcontent \<Rightarrow> string \<Rightarrow> string gomap" where
  "co_fields ns L pk = rv_fields (L (MembersKey ns pk False))"

text \<open>The record an alias leads to, if its pointer is there.\<close>

definition co_owner :: "string \<Rightarrow> rcontent \<Rightarrow> AliasRef \<Rightarrow> string option" where
  "co_owner ns L ref = rv_text (L (tail_key ns (alias_tail (Field ref) (Value ref)) False))"

text \<open>Keys hold what their family holds.\<close>

definition str_or_none :: "rvalue option \<Rightarrow> bool" where
  "str_or_none v \<longleftrightarrow> v = None \<or> is_str v"

definition co_typed :: "string \<Rightarrow> rcontent \<Rightarrow> bool" where
  "co_typed ns L \<longleftrightarrow>
     (\<forall>pk. str_or_none (L (ValueKey ns pk False))) \<and> (\<forall>t. str_or_none (L (tail_key ns t False))) \<and>
     (\<forall>pk. \<not> is_str (L (MembersKey ns pk False)))"

lemma co_typedD:
  assumes "co_typed ns L"
  shows "str_or_none (L (ValueKey ns pk False))" "str_or_none (L (tail_key ns t False))"
    "\<not> is_str (L (MembersKey ns pk False))"
  using assms by (simp_all add: co_typed_def)

lemma str_or_none_cases: "str_or_none v \<longleftrightarrow> v = None \<or> (\<exists>b d. v = Some (RStr b d))"
  by (cases v; cases "the v") (auto simp: str_or_none_def)

lemma not_str_cases: "\<not> is_str v \<longleftrightarrow> v = None \<or> (\<exists>h d. v = Some (RHash h d))"
  by (cases v; cases "the v") auto

lemma str_or_none_simps [simp]:
  "str_or_none None" "str_or_none (Some (RStr b d))" "\<not> str_or_none (Some (RHash h d))"
  by (simp_all add: str_or_none_def)

lemma ref_GET_text: "str_or_none v \<Longrightarrow> ref_GET v = Inr (rv_text v)"
  by (auto simp: str_or_none_cases)

lemma ref_HGET_fields: "\<not> is_str v \<Longrightarrow> ref_HGET f v = Inr (fmlookup (rv_fields v) f)"
  by (auto simp: not_str_cases)

lemma ref_hash_fields: "\<not> is_str v \<Longrightarrow> ref_hash v = Inr (rv_fields v)"
  by (auto simp: not_str_cases)

lemma is_str_hdel [simp]: "is_str (hdel_value f v) = is_str v"
  by (cases v; cases "the v") auto

lemma is_str_hset [simp]: "is_str (hset_value f x v) = is_str v"
  by (cases v; cases "the v") auto

subsection \<open>The effect of the scripts\<close>

definition co_replace :: "string \<Rightarrow> string \<Rightarrow> AliasRef \<Rightarrow> rcontent \<Rightarrow> rcontent" where
  "co_replace ns pk ref L =
     (case fmlookup (co_fields ns L pk) (Field ref) of
        None \<Rightarrow> L
      | Some oldVal \<Rightarrow>
          if oldVal \<noteq> Value ref then L(tail_key ns (alias_tail (Field ref) oldVal) False := None) else L)"

definition co_steal :: "string \<Rightarrow> string \<Rightarrow> AliasRef \<Rightarrow> rcontent \<Rightarrow> rcontent" where
  "co_steal ns pk ref L =
     (case co_owner ns L ref of
        None \<Rightarrow> L
      | Some oldPk \<Rightarrow>
          if oldPk \<noteq> pk
          then L(MembersKey ns oldPk False := hdel_value (Field ref) (L (MembersKey ns oldPk False))) else L)"

definition co_point :: "string \<Rightarrow> string \<Rightarrow> AliasRef \<Rightarrow> int option \<Rightarrow> rcontent \<Rightarrow> rcontent" where
  "co_point ns pk ref d L =
     L(MembersKey ns pk False := hset_value (Field ref) (Value ref) (L (MembersKey ns pk False)),
       tail_key ns (alias_tail (Field ref) (Value ref)) False := Some (RStr pk d))"

definition tail_keys :: "string \<Rightarrow> string gomap \<Rightarrow> string set" where
  "tail_keys ns h = {tail_key ns (alias_tail f v) False | f v. fmlookup h f = Some v}"

definition co_refresh :: "string \<Rightarrow> string \<Rightarrow> int option \<Rightarrow> rcontent \<Rightarrow> rcontent" where
  "co_refresh ns pk d L =
     (\<lambda>k. if k = MembersKey ns pk False \<or> k \<in> tail_keys ns (co_fields ns L pk)
          then map_option (rv_expire d) (L k) else L k)"

definition co_alias :: "string \<Rightarrow> string \<Rightarrow> AliasRef \<Rightarrow> int option \<Rightarrow> rcontent \<Rightarrow> rcontent" where
  "co_alias ns pk ref d L = co_point ns pk ref d (co_steal ns pk ref (co_replace ns pk ref L))"

definition co_put_live :: "string \<Rightarrow> string \<Rightarrow> AliasRef \<Rightarrow> bytes \<Rightarrow> int option \<Rightarrow> rcontent \<Rightarrow> rcontent" where
  "co_put_live ns pk ref val d L =
     (let L1 = L(ValueKey ns pk False \<mapsto> RStr val d)
      in co_refresh ns pk d (if Field ref \<noteq> '''' then co_alias ns pk ref d L1 else L1))"

definition co_evict_live :: "string \<Rightarrow> string \<Rightarrow> rcontent \<Rightarrow> rcontent" where
  "co_evict_live ns pk L =
     (\<lambda>k. if k = ValueKey ns pk False \<or> k = MembersKey ns pk False \<or> k \<in> tail_keys ns (co_fields ns L pk)
          then None else L k)"

text \<open>Outside of members hashes and pointers, a script touches one value key.\<close>

definition co_frame :: "string \<Rightarrow> string \<Rightarrow> rcontent \<Rightarrow> rcontent \<Rightarrow> bool" where
  "co_frame ns pk c c' \<longleftrightarrow>
     (\<forall>k. k \<noteq> ValueKey ns pk False \<longrightarrow> (\<forall>q. k \<noteq> MembersKey ns q False) \<longrightarrow> (\<forall>t. k \<noteq> tail_key ns t False) \<longrightarrow>
        c' k = c k)"

lemma co_frame_refl [simp]: "co_frame ns pk c c"
  by (simp add: co_frame_def)

lemma co_frame_trans: "co_frame ns pk c c1 \<Longrightarrow> co_frame ns pk c1 c2 \<Longrightarrow> co_frame ns pk c c2"
  by (simp add: co_frame_def)

lemma co_frame_steps [simp]:
  "co_frame ns pk c (c1(ValueKey ns pk False := x)) = co_frame ns pk c c1"
  "co_frame ns pk c (c1(MembersKey ns q False := x)) = co_frame ns pk c c1"
  "co_frame ns pk c (c1(tail_key ns t False := x)) = co_frame ns pk c c1"
  "co_frame ns pk c (expire_key t0 d (MembersKey ns q False) c1) = co_frame ns pk c c1"
  "co_frame ns pk c (hset_key t0 (MembersKey ns q False) f v c1) = co_frame ns pk c c1"
  "co_frame ns pk c (hdel_key t0 (MembersKey ns q False) f c1) = co_frame ns pk c c1"
  by (auto simp: co_frame_def)

lemma pair_keys_set:
  assumes "distinct (map fst ps)" "fmap_of_list ps = h"
  shows "set (pair_keys (\<lambda>x. ColocatedGrpPrefix ns @ x) ps) = tail_keys ns h"
  using pairs_of_fmap [OF assms]
  by (auto simp: pair_keys_def tail_keys_def image_iff colocated_keys [simplified] colocated_keys)

lemma co_frame_all:
  assumes "set ks = tail_keys ns h"
  shows "co_frame ns pk c (expire_all t0 d ks c1) = co_frame ns pk c c1"
    and "co_frame ns pk c (delete_all ks c1) = co_frame ns pk c c1"
proof -
  have "k \<notin> set ks" if "\<forall>t. k \<noteq> tail_key ns t False" for k
    using that assms by (auto simp: tail_keys_def)
  then show "co_frame ns pk c (expire_all t0 d ks c1) = co_frame ns pk c c1"
    "co_frame ns pk c (delete_all ks c1) = co_frame ns pk c c1"
    by (auto simp: co_frame_def)
qed

text \<open>What a loop over the members does to each key it visits.\<close>

context redis_server
begin

lemma run_members_loop:
  assumes "\<not> is_str (live (now s) (content s) m)"
    and "\<And>f v s1. now s1 = now s \<Longrightarrow> runs (g f v) s1 () (G (f, v) (content s1))"
  shows "\<exists>ps. distinct (map fst ps) \<and> fmap_of_list ps = rv_fields (live (now s) (content s) m) \<and>
    runs (lua_bind (rd_HGETALL R m) (lua_pairs g)) s () (fold G ps (content s))"
proof -
  from runs_HGETALL [OF ref_hash_fields [OF assms(1)]] obtain ps
    where ps: "runs (rd_HGETALL R m) s (flat_pairs ps) (content s)" "distinct (map fst ps)"
      "fmap_of_list ps = rv_fields (live (now s) (content s) m)" by blast
  have "runs (lua_bind (rd_HGETALL R m) (lua_pairs g)) s () (fold G ps (content s))"
  proof (rule runs_bind [OF ps(1)])
    fix s1 assume s1: "content s1 = content s" "now s1 = now s"
    have "runs (lua_pairs g (flat_pairs ps)) s1 () (fold G ps (content s1))"
      by (rule runs_pairs) (simp add: assms(2) s1)
    then show "runs (lua_pairs g (flat_pairs ps)) s1 () (fold G ps (content s))" by (simp add: s1)
  qed
  with ps show ?thesis by blast
qed

lemma refresh_loop:
  assumes "\<not> is_str (live (now s) (content s) (MembersKey ns pk False))"
    and "\<And>f v s1. now s1 = now s \<Longrightarrow> runs (g f v) s1 ()
      (expire_key (now s) d (ColocatedGrpPrefix ns @ f @ ''::'' @ v) (content s1))"
    and "\<not> expired_at d (now s)"
  shows "\<exists>c. runs (lua_bind (rd_HGETALL R (MembersKey ns pk False)) (lua_pairs g)) s () c \<and>
    live (now s) c = (\<lambda>k. if k \<in> tail_keys ns (co_fields ns (live (now s) (content s)) pk)
      then map_option (rv_expire d) (live (now s) (content s) k) else live (now s) (content s) k) \<and>
    co_frame ns q (content s) c"
proof -
  obtain ps where ps: "distinct (map fst ps)"
    "fmap_of_list ps = rv_fields (live (now s) (content s) (MembersKey ns pk False))"
    "runs (lua_bind (rd_HGETALL R (MembersKey ns pk False)) (lua_pairs g)) s ()
      (fold (\<lambda>(f, v). expire_key (now s) d (ColocatedGrpPrefix ns @ f @ ''::'' @ v)) ps (content s))"
    using run_members_loop [OF assms(1), of g
        "\<lambda>(f, v). expire_key (now s) d (ColocatedGrpPrefix ns @ f @ ''::'' @ v)"] assms(2) by auto
  note ks = pair_keys_set [OF ps(1,2), of ns]
  note r = ps(3) [unfolded fold_pair_keys(1) [where key = "\<lambda>x. ColocatedGrpPrefix ns @ x"]]
  show ?thesis
    by (rule exI, rule conjI [OF r])
      (simp add: live_expire_all [OF assms(3)] ks co_fields_def co_frame_all [OF ks] fun_eq_iff)
qed

lemma run_refresh:
  assumes "\<not> is_str (live (now s) (content s) (MembersKey ns pk False))"
  shows "\<exists>c. runs (colocated_refresh R (MembersKey ns pk False) ttl (ColocatedGrpPrefix ns)) s () c \<and>
    live (now s) c = co_refresh ns pk (deadline (now s) ttl) (live (now s) (content s)) \<and>
    co_frame ns q (content s) c"
proof -
  let ?m = "MembersKey ns pk False" and ?d = "deadline (now s) ttl"
  define cmd g where "cmd = (if 0 < ttl then rd_PEXPIRE R ?m ttl else rd_PERSIST R ?m)"
    and "g = (\<lambda>f v. if 0 < ttl then rd_PEXPIRE R (ColocatedGrpPrefix ns @ f @ ''::'' @ v) ttl
                else rd_PERSIST R (ColocatedGrpPrefix ns @ f @ ''::'' @ v))"
  have script: "colocated_refresh R ?m ttl (ColocatedGrpPrefix ns) =
      lua_bind cmd (\<lambda>_. lua_bind (rd_HGETALL R ?m) (lua_pairs g))"
    by (simp add: colocated_refresh_def cmd_def g_def)
  have c1: "runs cmd s () (expire_key (now s) ?d ?m (content s))"
    using runs_expire [of ttl ?m s] by (simp add: cmd_def)
  obtain s1 where s1: "cmd s = (Inr (), s1)" "content s1 = expire_key (now s) ?d ?m (content s)" "now s1 = now s"
    using c1 unfolding runs_def by (metis prod.collapse)
  have l1: "live (now s) (content s1) = (live (now s) (content s))(?m := map_option (rv_expire ?d) (live (now s) (content s) ?m))"
    by (simp add: s1)
  have t: "\<not> is_str (live (now s1) (content s1) ?m)"
    using assms unfolding s1(3) l1 by (auto simp: not_str_cases)
  have f: "co_fields ns (live (now s) (content s1)) pk = co_fields ns (live (now s) (content s)) pk"
    using assms unfolding l1 by (auto simp: co_fields_def not_str_cases)
  have g: "runs (g f v) s2 () (expire_key (now s1) ?d (ColocatedGrpPrefix ns @ f @ ''::'' @ v) (content s2))"
    if "now s2 = now s1" for f v s2
    using runs_expire [of ttl "ColocatedGrpPrefix ns @ f @ ''::'' @ v" s2] that s1(3) by (auto simp: g_def)
  have d: "\<not> expired_at ?d (now s1)" by (simp add: s1)
  from refresh_loop [OF t g d, of q] obtain c where c:
    "runs (lua_bind (rd_HGETALL R ?m) (lua_pairs g)) s1 () c" "co_frame ns q (content s1) c"
    "live (now s1) c = (\<lambda>k. if k \<in> tail_keys ns (co_fields ns (live (now s1) (content s1)) pk)
      then map_option (rv_expire ?d) (live (now s1) (content s1) k) else live (now s1) (content s1) k)" by blast
  have "runs (colocated_refresh R ?m ttl (ColocatedGrpPrefix ns)) s () c"
    using c(1) s1 by (simp add: script runs_def lua_bind_def [of cmd])
  moreover have "live (now s) c = co_refresh ns pk ?d (live (now s) (content s))"
    using c(3) unfolding s1(3) f unfolding l1 by (auto simp: co_refresh_def tail_keys_def fun_eq_iff)
  moreover have "co_frame ns q (content s) c"
    by (rule co_frame_trans [OF _ c(2)]) (simp add: s1)
  ultimately show ?thesis by blast
qed

lemma runs_obtain:
  assumes "runs m s x c"
  obtains s1 where "m s = (Inr x, s1)" "content s1 = c" "now s1 = now s"
  using assms unfolding runs_def by (metis prod.collapse)

lemma run_replace:
  assumes "co_typed ns (live (now s) (content s))"
    and "oldVal = fmlookup (co_fields ns (live (now s) (content s)) pk) (Field ref)"
  shows "\<exists>c. runs (case oldVal of
         Some oldVal \<Rightarrow>
           if oldVal \<noteq> Value ref
           then lua_ignore (rd_DEL R (ColocatedGrpPrefix ns @ Field ref @ ''::'' @ oldVal)) else lua_return ()
       | None \<Rightarrow> lua_return ()) s () c \<and>
    live (now s) c = co_replace ns pk ref (live (now s) (content s)) \<and> co_frame ns q (content s) c"
proof (cases oldVal)
  case None
  with assms(2) have "fmlookup (co_fields ns (live (now s) (content s)) pk) (Field ref) = None" by simp
  with None show ?thesis by (intro exI [of _ "content s"]) (simp add: runs_return co_replace_def)
next
  case (Some o1)
  with assms(2) have o: "fmlookup (co_fields ns (live (now s) (content s)) pk) (Field ref) = Some o1" by simp
  let ?k = "tail_key ns (alias_tail (Field ref) o1) False"
  have d: "runs (lua_ignore (rd_DEL R ?k)) s () ((content s)(?k := None))" by (rule runs_DEL)
  show ?thesis
    using Some o d
    by (intro exI [of _ "if o1 \<noteq> Value ref then (content s)(?k := None) else content s"])
      (simp add: co_replace_def runs_return)
qed

lemma typed_replace: "co_typed ns L \<Longrightarrow> co_typed ns (co_replace ns pk ref L)"
  by (auto simp: co_typed_def co_replace_def split: option.splits)

lemma run_steal:
  assumes "co_typed ns (live (now s) (content s))" "oldPk = co_owner ns (live (now s) (content s)) ref"
  shows "\<exists>c. runs (case oldPk of
         Some oldPk \<Rightarrow>
           if oldPk \<noteq> pk then rd_HDEL R (ColocatedMembersPrefix ns @ oldPk) (Field ref) else lua_return ()
       | None \<Rightarrow> lua_return ()) s () c \<and>
    live (now s) c = co_steal ns pk ref (live (now s) (content s)) \<and> co_frame ns q (content s) c"
proof (cases oldPk)
  case None
  with assms(2) have "co_owner ns (live (now s) (content s)) ref = None" by simp
  with None show ?thesis by (intro exI [of _ "content s"]) (simp add: runs_return co_steal_def)
next
  case (Some o1)
  with assms(2) have o: "co_owner ns (live (now s) (content s)) ref = Some o1" by simp
  let ?k = "MembersKey ns o1 False"
  have d: "runs (rd_HDEL R ?k (Field ref)) s () (hdel_key (now s) ?k (Field ref) (content s))"
    by (rule runs_HDEL [OF co_typedD(3) [OF assms(1)]])
  show ?thesis
    using Some o d
    by (intro exI [of _ "if o1 \<noteq> pk then hdel_key (now s) ?k (Field ref) (content s) else content s"])
      (simp add: co_steal_def runs_return)
qed

lemma typed_steal: "co_typed ns L \<Longrightarrow> co_typed ns (co_steal ns pk ref L)"
  by (auto simp: co_typed_def co_steal_def split: option.splits)

lemma run_point:
  assumes "co_typed ns (live (now s) (content s))"
  shows "\<exists>c. runs (colocated_point R (MembersKey ns pk False) ttl (Field ref) (Value ref) pk
        (ColocatedGrpPrefix ns) (ColocatedMembersPrefix ns)) s () c \<and>
    live (now s) c = co_alias ns pk ref (deadline (now s) ttl) (live (now s) (content s)) \<and>
    co_frame ns q (content s) c"
proof -
  let ?L = "live (now s) (content s)" and ?m = "MembersKey ns pk False" and ?d = "deadline (now s) ttl"
  let ?p = "tail_key ns (alias_tail (Field ref) (Value ref)) False"
  let ?L2 = "co_replace ns pk ref ?L" and ?L3 = "co_steal ns pk ref (co_replace ns pk ref ?L)"
  define do_replace where "do_replace =
      (case fmlookup (co_fields ns ?L pk) (Field ref) of
         Some oldVal \<Rightarrow>
           if oldVal \<noteq> Value ref
           then lua_ignore (rd_DEL R (ColocatedGrpPrefix ns @ Field ref @ ''::'' @ oldVal)) else lua_return ()
       | None \<Rightarrow> lua_return ())"
  define do_steal where "do_steal =
      (case co_owner ns ?L2 ref of
         Some oldPk \<Rightarrow>
           if oldPk \<noteq> pk then rd_HDEL R (ColocatedMembersPrefix ns @ oldPk) (Field ref) else lua_return ()
       | None \<Rightarrow> lua_return ())"
  note t2 = typed_replace [OF assms, of pk ref] and t3 = typed_steal [OF typed_replace [OF assms], of pk ref pk ref]
  obtain s1 where s1: "rd_HGET R ?m (Field ref) s = (Inr (fmlookup (co_fields ns ?L pk) (Field ref)), s1)"
    "content s1 = content s" "now s1 = now s"
    using runs_obtain [OF runs_HGET [OF ref_HGET_fields [OF co_typedD(3) [OF assms]]]]
    unfolding co_fields_def by metis
  have "co_typed ns (live (now s1) (content s1))" using assms by (simp only: s1)
  from run_replace [OF this refl, where ref = ref and pk = pk and q = q] obtain c2 where
    c2: "runs do_replace s1 () c2" "live (now s) c2 = ?L2" "co_frame ns q (content s) c2"
    unfolding s1(2,3) do_replace_def [symmetric] by blast
  obtain s2 where s2: "content s2 = c2" "now s2 = now s" "do_replace s1 = (Inr (), s2)"
    using runs_obtain [OF c2(1)] s1(3) by metis
  have "ref_GET (live (now s2) (content s2) ?p) = Inr (co_owner ns ?L2 ref)"
    using ref_GET_text [OF co_typedD(2) [OF t2]] by (simp only: s2 c2 co_owner_def)
  from runs_obtain [OF runs_GET [OF this]] obtain s3 where
    s3: "rd_GET R ?p s2 = (Inr (co_owner ns ?L2 ref), s3)" "content s3 = c2" "now s3 = now s"
    using s2 by metis
  have "co_typed ns (live (now s3) (content s3))" using t2 by (simp only: s3 c2)
  from run_steal [OF this refl, where ref = ref and pk = pk and q = q] obtain c4 where
    c4: "runs do_steal s3 () c4" "live (now s) c4 = ?L3" "co_frame ns q c2 c4"
    unfolding s3(2,3) c2(2) do_steal_def [symmetric] by blast
  obtain s4 where s4: "content s4 = c4" "now s4 = now s" "do_steal s3 = (Inr (), s4)"
    using runs_obtain [OF c4(1)] s3(3) by metis
  have "\<not> is_str (live (now s4) (content s4) ?m)" unfolding s4(1,2) c4(2) by (rule co_typedD(3) [OF t3])
  from runs_obtain [OF runs_HSET [OF this]] obtain s5 where
    s5: "rd_HSET R ?m (Field ref) (Value ref) s4 = (Inr (), s5)"
    "content s5 = hset_key (now s) ?m (Field ref) (Value ref) c4" "now s5 = now s"
    using s4 by metis
  from runs_obtain [OF runs_set_ttl, of ?p pk ttl s5] obtain s6 where
    s6: "set_ttl R ?p pk ttl s5 = (Inr (), s6)" "content s6 = (content s5)(?p \<mapsto> RStr pk ?d)" "now s6 = now s"
    using s5(3) by metis
  have script: "colocated_point R ?m ttl (Field ref) (Value ref) pk (ColocatedGrpPrefix ns)
      (ColocatedMembersPrefix ns) s = (Inr (), s6)"
    unfolding colocated_point_def Let_def lua_bind_def [where s = s] s1(1) prod.case sum.case
    unfolding do_replace_def [symmetric] lua_bind_def [where s = s1] s2(3) prod.case sum.case
    unfolding colocated_keys(1) lua_bind_def [where s = s2] s3(1) prod.case sum.case do_steal_def [symmetric]
      lua_bind_def [where s = s3] s4(3) lua_bind_def [where s = s4] s5(1) s6(1) ..
  then have "runs (colocated_point R ?m ttl (Field ref) (Value ref) pk (ColocatedGrpPrefix ns)
      (ColocatedMembersPrefix ns)) s () (content s6)"
    by (simp only: runs_def s6 script fst_conv snd_conv)
  moreover have "live (now s) (content s6) = co_alias ns pk ref ?d ?L"
    by (simp add: s6 s5 c4 co_alias_def co_point_def fun_eq_iff)
  moreover have "co_frame ns q (content s) (content s6)"
    using co_frame_trans [OF c2(3) c4(3)] by (simp add: s6 s5)
  ultimately show ?thesis by blast
qed

lemma typed_alias: "co_typed ns L \<Longrightarrow> co_typed ns (co_alias ns pk ref d L)"
  using typed_steal [OF typed_replace, of ns L pk ref pk ref]
  by (auto simp: co_alias_def co_point_def co_typed_def)

lemma run_put:
  assumes "co_typed ns (live (now s) (content s))"
  shows "\<exists>c. runs (colocated_put R (ValueKey ns pk False) (MembersKey ns pk False) val ttl (Field ref) (Value ref) pk
        (ColocatedGrpPrefix ns) (ColocatedMembersPrefix ns)) s (LInt 1) c \<and>
    live (now s) c = co_put_live ns pk ref val (deadline (now s) ttl) (live (now s) (content s)) \<and>
    co_frame ns pk (content s) c"
proof -
  let ?L = "live (now s) (content s)" and ?m = "MembersKey ns pk False" and ?d = "deadline (now s) ttl"
  let ?v = "ValueKey ns pk False" and ?g = "ColocatedGrpPrefix ns" and ?x = "ColocatedMembersPrefix ns"
  let ?L1 = "?L(?v \<mapsto> RStr val ?d)"
  let ?al = "if Field ref \<noteq> '''' then colocated_point R ?m ttl (Field ref) (Value ref) pk ?g ?x else lua_return ()"
  let ?L2 = "if Field ref \<noteq> '''' then co_alias ns pk ref ?d ?L1 else ?L1"
  from runs_obtain [OF runs_set_ttl, of ?v val ttl s] obtain s1 where
    s1: "set_ttl R ?v val ttl s = (Inr (), s1)" "content s1 = (content s)(?v \<mapsto> RStr val ?d)" "now s1 = now s"
    by metis
  have t1: "co_typed ns ?L1" using assms by (simp add: co_typed_def)
  have l1: "live (now s) (content s1) = ?L1" by (simp add: s1)
  have t1': "co_typed ns (live (now s1) (content s1))" using t1 by (simp only: s1(3) l1)
  have t2: "co_typed ns ?L2" using t1 typed_alias [OF t1] by simp
  have f1: "co_frame ns pk (content s) (content s1)" by (simp add: s1)
  have "\<exists>c. runs ?al s1 () c \<and> live (now s) c = ?L2 \<and> co_frame ns pk (content s1) c"
    using run_point [OF t1', of pk ttl ref pk] runs_return [of s1 "content s1" "()"] l1 s1(3) by auto
  then obtain c2 where c2: "runs ?al s1 () c2" "live (now s) c2 = ?L2" "co_frame ns pk (content s1) c2" by blast
  obtain s2 where s2: "?al s1 = (Inr (), s2)" "content s2 = c2" "now s2 = now s"
    using runs_obtain [OF c2(1)] s1(3) by metis
  have "\<not> is_str (live (now s2) (content s2) ?m)" unfolding s2(2,3) c2(2) by (rule co_typedD(3) [OF t2])
  from run_refresh [OF this, of ttl pk] obtain c3 where c3: "runs (colocated_refresh R ?m ttl ?g) s2 () c3"
    "live (now s) c3 = co_refresh ns pk ?d ?L2" "co_frame ns pk c2 c3"
    unfolding s2(2,3) c2(2) by blast
  obtain s3 where s3: "colocated_refresh R ?m ttl ?g s2 = (Inr (), s3)" "content s3 = c3" "now s3 = now s"
    using runs_obtain [OF c3(1)] s2(3) by metis
  have script: "colocated_put R ?v ?m val ttl (Field ref) (Value ref) pk ?g ?x s = (Inr (LInt 1), s3)"
    unfolding colocated_put_def lua_bind_def s1(1) s2(1) s3(1) prod.case sum.case lua_return_def ..
  then have "runs (colocated_put R ?v ?m val ttl (Field ref) (Value ref) pk ?g ?x) s (LInt 1) c3"
    by (simp only: runs_def script s3 fst_conv snd_conv)
  moreover have "co_frame ns pk (content s) c3" by (rule co_frame_trans [OF co_frame_trans [OF f1 c2(3)] c3(3)])
  ultimately show ?thesis using c3(2) by (auto simp: co_put_live_def Let_def)
qed

lemma run_delete_loop:
  assumes "\<not> is_str (live (now s) (content s) (MembersKey ns pk False))"
  shows "\<exists>c. runs (lua_bind (rd_HGETALL R (MembersKey ns pk False))
        (lua_pairs (\<lambda>f v. lua_ignore (rd_DEL R (ColocatedGrpPrefix ns @ f @ ''::'' @ v))))) s () c \<and>
    live (now s) c = (\<lambda>k. if k \<in> tail_keys ns (co_fields ns (live (now s) (content s)) pk)
      then None else live (now s) (content s) k) \<and> (\<forall>q. co_frame ns q (content s) c)"
proof -
  let ?g = "\<lambda>f v. lua_ignore (rd_DEL R (ColocatedGrpPrefix ns @ f @ ''::'' @ v))"
  obtain ps where ps: "distinct (map fst ps)"
    "fmap_of_list ps = rv_fields (live (now s) (content s) (MembersKey ns pk False))"
    "runs (lua_bind (rd_HGETALL R (MembersKey ns pk False)) (lua_pairs ?g)) s ()
      (fold (\<lambda>(f, v) c. c(ColocatedGrpPrefix ns @ f @ ''::'' @ v := None)) ps (content s))"
    using run_members_loop [OF assms, of ?g "\<lambda>(f, v) c. c(ColocatedGrpPrefix ns @ f @ ''::'' @ v := None)"]
      runs_DEL by auto
  note ks = pair_keys_set [OF ps(1,2), of ns]
  note r = ps(3) [unfolded fold_pair_keys(2) [where key = "\<lambda>x. ColocatedGrpPrefix ns @ x"]]
  show ?thesis
    by (rule exI, rule conjI [OF r])
      (simp add: live_delete_all ks co_fields_def co_frame_all [OF ks] fun_eq_iff)
qed

lemma lua_bind_assoc: "lua_bind (lua_bind m f) g = lua_bind m (\<lambda>x. lua_bind (f x) g)"
  by (rule ext) (simp add: lua_bind_def split: prod.splits sum.splits)

lemma run_evict_by_primary:
  assumes "co_typed ns (live (now s) (content s))"
  shows "\<exists>c. runs (colocated_evict_by_primary R (ValueKey ns pk False) (MembersKey ns pk False)
        (ColocatedGrpPrefix ns)) s (LInt 1) c \<and>
    live (now s) c = co_evict_live ns pk (live (now s) (content s)) \<and> co_frame ns pk (content s) c \<and>
    c (ValueKey ns pk False) = None"
proof -
  let ?L = "live (now s) (content s)" and ?v = "ValueKey ns pk False" and ?m = "MembersKey ns pk False"
  define del_pointers where "del_pointers = lua_bind (rd_HGETALL R ?m)
      (lua_pairs (\<lambda>f v. lua_ignore (rd_DEL R (ColocatedGrpPrefix ns @ f @ ''::'' @ v))))"
  obtain s1 n1 where s1: "rd_DEL R ?v s = (Inr n1, s1)" "content s1 = (content s)(?v := None)" "now s1 = now s"
    using runs_obtain [OF runs_DEL_count] by metis
  have l1: "live (now s) (content s1) = ?L(?v := None)" by (simp add: s1)
  have t1: "\<not> is_str (live (now s1) (content s1) ?m)" using co_typedD(3) [OF assms] by (simp add: s1(3) l1)
  from run_delete_loop [OF t1] obtain c2 where c2: "runs del_pointers s1 () c2"
    "live (now s) c2 = (\<lambda>k. if k \<in> tail_keys ns (co_fields ns ?L pk) then None else (?L(?v := None)) k)"
    "\<And>q. co_frame ns q (content s1) c2"
    unfolding s1(3) del_pointers_def [symmetric] unfolding l1 by (auto simp: co_fields_def)
  obtain s2 where s2: "del_pointers s1 = (Inr (), s2)" "content s2 = c2" "now s2 = now s"
    using runs_obtain [OF c2(1)] s1(3) by metis
  obtain s3 n3 where s3: "rd_DEL R ?m s2 = (Inr n3, s3)" "content s3 = c2(?m := None)" "now s3 = now s"
    using runs_obtain [OF runs_DEL_count] s2 by metis
  have "colocated_evict_by_primary R ?v ?m (ColocatedGrpPrefix ns) =
      lua_bind (rd_DEL R ?v) (\<lambda>_. lua_bind del_pointers (\<lambda>_. lua_bind (rd_DEL R ?m) (\<lambda>_. lua_return (LInt 1))))"
    by (simp only: colocated_evict_by_primary_def del_pointers_def lua_bind_assoc)
  then have script: "colocated_evict_by_primary R ?v ?m (ColocatedGrpPrefix ns) s = (Inr (LInt 1), s3)"
    by (simp only: lua_bind_def s1(1) s2(1) s3(1) prod.case sum.case lua_return_def)
  then have "runs (colocated_evict_by_primary R ?v ?m (ColocatedGrpPrefix ns)) s (LInt 1) (content s3)"
    by (simp only: runs_def script s3 fst_conv snd_conv)
  moreover have "live (now s) (content s3) = co_evict_live ns pk ?L"
    by (auto simp: s3 c2 co_evict_live_def fun_eq_iff)
  moreover have "co_frame ns pk (content s) (content s3)"
    using c2(3) by (simp add: s3 s1 co_frame_def)
  moreover have "ValueKey ns pk False \<noteq> ValueKey ns (CHR ''x'' # pk) False" by (simp add: key_defs)
  then have "content s3 (ValueKey ns pk False) = None"
    using c2(3) [of "CHR ''x'' # pk"] by (simp add: s3 s1 co_frame_def)
  ultimately show ?thesis by blast
qed

lemma run_evict_by_alias:
  assumes "co_typed ns (live (now s) (content s))"
  shows "\<exists>c n. runs (colocated_evict_by_alias R (tail_key ns (alias_tail (Field ref) (Value ref)) False)
        (ColocatedValuePrefix ns) (ColocatedMembersPrefix ns) (ColocatedGrpPrefix ns)) s (LInt n) c \<and>
    (case co_owner ns (live (now s) (content s)) ref of
       None \<Rightarrow> c = content s
     | Some pk \<Rightarrow> live (now s) c = co_evict_live ns pk (live (now s) (content s)) \<and> co_frame ns pk (content s) c)"
proof -
  let ?L = "live (now s) (content s)" and ?p = "tail_key ns (alias_tail (Field ref) (Value ref)) False"
  have "ref_GET (?L ?p) = Inr (co_owner ns ?L ref)"
    using ref_GET_text [OF co_typedD(2) [OF assms]] by (simp only: co_owner_def)
  from runs_obtain [OF runs_GET [OF this]] obtain s1 where
    s1: "rd_GET R ?p s = (Inr (co_owner ns ?L ref), s1)" "content s1 = content s" "now s1 = now s" by metis
  have script: "colocated_evict_by_alias R ?p (ColocatedValuePrefix ns) (ColocatedMembersPrefix ns) (ColocatedGrpPrefix ns) s =
      (case co_owner ns ?L ref of
         None \<Rightarrow> lua_return (LInt 0) s1
       | Some pk \<Rightarrow> colocated_evict_by_primary R (ValueKey ns pk False) (MembersKey ns pk False)
           (ColocatedGrpPrefix ns) s1)"
    by (simp only: colocated_evict_by_alias_def colocated_evict_by_primary_def lua_bind_def [where s = s] s1(1)
        prod.case sum.case colocated_keys(2,3) split: option.splits) simp
  show ?thesis
  proof (cases "co_owner ns ?L ref")
    case None
    then show ?thesis
      using s1 by (intro exI [of _ "content s"] exI [of _ 0]) (simp add: runs_def script lua_return_def)
  next
    case (Some pk)
    have "co_typed ns (live (now s1) (content s1))" using assms by (simp only: s1)
    from run_evict_by_primary [OF this, of pk] obtain c where
      "runs (colocated_evict_by_primary R (ValueKey ns pk False) (MembersKey ns pk False)
         (ColocatedGrpPrefix ns)) s1 (LInt 1) c"
      "live (now s) c = co_evict_live ns pk ?L" "co_frame ns pk (content s) c" unfolding s1(2,3) by blast
    then show ?thesis
      using Some s1(3) by (intro exI [of _ c] exI [of _ 1]) (simp add: runs_def script)
  qed
qed

lemma run_get:
  assumes "co_typed ns (live (now s) (content s))"
  shows "runs (colocated_get R (tail_key ns (alias_tail (Field ref) (Value ref)) False) (ColocatedValuePrefix ns)) s
    (case co_owner ns (live (now s) (content s)) ref of
       None \<Rightarrow> LFalse
     | Some pk \<Rightarrow>
         (case rv_text (live (now s) (content s) (ValueKey ns pk False)) of None \<Rightarrow> LFalse | Some b \<Rightarrow> LStr b))
    (content s)"
proof -
  let ?L = "live (now s) (content s)" and ?p = "tail_key ns (alias_tail (Field ref) (Value ref)) False"
  have "ref_GET (?L ?p) = Inr (co_owner ns ?L ref)"
    using ref_GET_text [OF co_typedD(2) [OF assms]] by (simp only: co_owner_def)
  from runs_GET [OF this] show ?thesis unfolding colocated_get_def
  proof (rule runs_bind)
    fix s1 assume s1: "content s1 = content s" "now s1 = now s"
    have v: "runs (rd_GET R (ValueKey ns pk False)) s1 (rv_text (?L (ValueKey ns pk False))) (content s1)" for pk
      using ref_GET_text [OF co_typedD(1) [OF assms]] by (intro runs_GET) (simp only: s1)
    show "runs (case co_owner ns ?L ref of
           None \<Rightarrow> lua_return LFalse
         | Some pk \<Rightarrow> lua_bind (rd_GET R (ColocatedValuePrefix ns @ pk))
             (\<lambda>v. case v of None \<Rightarrow> lua_return LFalse | Some v \<Rightarrow> lua_return (LStr v))) s1
        (case co_owner ns ?L ref of None \<Rightarrow> LFalse
         | Some pk \<Rightarrow> (case rv_text (?L (ValueKey ns pk False)) of None \<Rightarrow> LFalse | Some b \<Rightarrow> LStr b)) (content s)"
      using s1 v by (auto simp: runs_return intro!: runs_bind [OF v] split: option.splits)
  qed
qed

end

end
