(* ===== verification/Redis_Group.thy ===== *)
theory Redis_Group
  imports Redis_Colocated
begin

text \<open>
  The bookkeeping of a colocated group, on its live content: the invariant \<open>co_inv\<close>, what each script
  does to values and aliases under it, and that each script and the passing of time keep it.
\<close>

definition co_inv :: "string \<Rightarrow> rcontent \<Rightarrow> bool" where
  "co_inv ns L \<longleftrightarrow> co_typed ns L \<and>
     (\<forall>pk h d. L (MembersKey ns pk False) = Some (RHash h d) \<longrightarrow>
        (\<exists>b. L (ValueKey ns pk False) = Some (RStr b d)) \<and>
        (\<forall>f v. fmlookup h f = Some v \<longrightarrow>
           CHR '':'' \<notin> set f \<and> L (tail_key ns (alias_tail f v) False) = Some (RStr pk d))) \<and>
     (\<forall>t pk d. L (tail_key ns t False) = Some (RStr pk d) \<longrightarrow>
        (\<exists>f v h. t = alias_tail f v \<and> L (MembersKey ns pk False) = Some (RHash h d) \<and> fmlookup h f = Some v))"

lemma co_invD:
  assumes "co_inv ns L"
  shows "co_typed ns L"
    and "L (MembersKey ns pk False) = Some (RHash h d) \<Longrightarrow> \<exists>b. L (ValueKey ns pk False) = Some (RStr b d)"
    and "L (MembersKey ns pk False) = Some (RHash h d) \<Longrightarrow> fmlookup h f = Some v \<Longrightarrow> CHR '':'' \<notin> set f"
    and "L (MembersKey ns pk False) = Some (RHash h d) \<Longrightarrow> fmlookup h f = Some v \<Longrightarrow>
      L (tail_key ns (alias_tail f v) False) = Some (RStr pk d)"
    and "L (tail_key ns t False) = Some (RStr pk d) \<Longrightarrow>
      \<exists>f v h. t = alias_tail f v \<and> L (MembersKey ns pk False) = Some (RHash h d) \<and> fmlookup h f = Some v"
  using assms unfolding co_inv_def by blast+

lemma co_invI:
  assumes "co_typed ns L"
    and "\<And>pk h d. L (MembersKey ns pk False) = Some (RHash h d) \<Longrightarrow> \<exists>b. L (ValueKey ns pk False) = Some (RStr b d)"
    and "\<And>pk h d f v. L (MembersKey ns pk False) = Some (RHash h d) \<Longrightarrow> fmlookup h f = Some v \<Longrightarrow>
      CHR '':'' \<notin> set f \<and> L (tail_key ns (alias_tail f v) False) = Some (RStr pk d)"
    and "\<And>t pk d. L (tail_key ns t False) = Some (RStr pk d) \<Longrightarrow>
      \<exists>f v h. t = alias_tail f v \<and> L (MembersKey ns pk False) = Some (RHash h d) \<and> fmlookup h f = Some v"
  shows "co_inv ns L"
  using assms unfolding co_inv_def by blast

lemma co_inv_empty:
  assumes "\<And>pk. L (MembersKey ns pk False) = None" "\<And>t. L (tail_key ns t False) = None"
    and "\<And>pk. str_or_none (L (ValueKey ns pk False))"
  shows "co_inv ns L"
  by (rule co_invI) (use assms in \<open>auto simp: co_typed_def\<close>)

lemma rv_text_Some: "rv_text v = Some b \<longleftrightarrow> (\<exists>d. v = Some (RStr b d))"
  by (cases v; cases "the v") auto

lemma rv_fields_Some: "fmlookup (rv_fields v) f = Some x \<longleftrightarrow> (\<exists>h d. v = Some (RHash h d) \<and> fmlookup h f = Some x)"
  by (cases v; cases "the v") auto

text \<open>A field of a record accounts for exactly the pointers that lead to it.\<close>

lemma co_owner_fields:
  assumes "co_inv ns L" "CHR '':'' \<notin> set (Field ref)"
  shows "co_owner ns L ref = Some pk \<longleftrightarrow> fmlookup (co_fields ns L pk) (Field ref) = Some (Value ref)"
proof
  assume "co_owner ns L ref = Some pk"
  then obtain d where p: "L (tail_key ns (alias_tail (Field ref) (Value ref)) False) = Some (RStr pk d)"
    by (auto simp: co_owner_def rv_text_Some)
  from co_invD(5) [OF assms(1) p] obtain f v h where
    h: "alias_tail (Field ref) (Value ref) = alias_tail f v" "L (MembersKey ns pk False) = Some (RHash h d)"
    "fmlookup h f = Some v" by blast
  have "f = Field ref" "v = Value ref"
    using h(1) alias_tail_inject [OF assms(2) co_invD(3) [OF assms(1) h(2,3)]] by auto
  with h show "fmlookup (co_fields ns L pk) (Field ref) = Some (Value ref)" by (simp add: co_fields_def)
next
  assume a: "fmlookup (co_fields ns L pk) (Field ref) = Some (Value ref)"
  then obtain h d where h: "L (MembersKey ns pk False) = Some (RHash h d)" "fmlookup h (Field ref) = Some (Value ref)"
    by (auto simp: co_fields_def rv_fields_Some)
  from co_invD(4) [OF assms(1) this] show "co_owner ns L ref = Some pk" by (simp add: co_owner_def)
qed

lemma co_fields_Some:
  "fmlookup (co_fields ns L pk) f = Some v \<Longrightarrow>
     \<exists>h d. L (MembersKey ns pk False) = Some (RHash h d) \<and> fmlookup h f = Some v"
  by (auto simp: co_fields_def rv_fields_Some)

lemma co_tail_keys:
  assumes "co_inv ns L"
  shows "tail_key ns t False \<in> tail_keys ns (co_fields ns L pk) \<longleftrightarrow> rv_text (L (tail_key ns t False)) = Some pk"
proof
  assume "tail_key ns t False \<in> tail_keys ns (co_fields ns L pk)"
  then obtain f v where "t = alias_tail f v" "fmlookup (co_fields ns L pk) f = Some v" by (auto simp: tail_keys_def)
  with co_fields_Some [OF this(2)] co_invD(4) [OF assms] show "rv_text (L (tail_key ns t False)) = Some pk" by force
next
  assume "rv_text (L (tail_key ns t False)) = Some pk"
  then obtain d where "L (tail_key ns t False) = Some (RStr pk d)" by (auto simp: rv_text_Some)
  from co_invD(5) [OF assms this] obtain f v h where "t = alias_tail f v" "fmlookup (co_fields ns L pk) f = Some v"
    by (auto simp: co_fields_def)
  then show "tail_key ns t False \<in> tail_keys ns (co_fields ns L pk)" unfolding tail_keys_def by blast
qed

lemma not_tail_keys [simp]:
  "ValueKey ns' q sh \<notin> tail_keys ns h" "MembersKey ns' q sh \<notin> tail_keys ns h"
  by (auto simp: tail_keys_def)

subsection \<open>Time\<close>

lemma live_or: "live t L k = None \<or> live t L k = L k"
  by (auto simp: live_def split: option.splits)

lemma co_inv_live:
  assumes "co_inv ns L" shows "co_inv ns (live t L)"
proof (rule co_invI)
  show "co_typed ns (live t L)"
    using co_typedD [OF co_invD(1) [OF assms]] live_or unfolding co_typed_def
    by (metis is_str.simps(2) str_or_none_def)
next
  fix pk h d assume a: "live t L (MembersKey ns pk False) = Some (RHash h d)"
  then show "\<exists>b. live t L (ValueKey ns pk False) = Some (RStr b d)"
    using co_invD(2) [OF assms] by (fastforce simp: live_Some)
  fix f v assume "fmlookup h f = Some v"
  with a co_invD(3,4) [OF assms] show "CHR '':'' \<notin> set f \<and> live t L (tail_key ns (alias_tail f v) False) = Some (RStr pk d)"
    by (fastforce simp: live_Some)
next
  fix t' pk d assume "live t L (tail_key ns t' False) = Some (RStr pk d)"
  with co_invD(5) [OF assms, of t' pk d]
  show "\<exists>f v h. t' = alias_tail f v \<and> live t L (MembersKey ns pk False) = Some (RHash h d) \<and> fmlookup h f = Some v"
    by (auto simp: live_Some)
qed

lemma co_inv_later: "co_inv ns (live t c) \<Longrightarrow> t \<le> t' \<Longrightarrow> co_inv ns (live t' c)"
  using co_inv_live [of ns "live t c" t'] by (simp add: live_later_eq)

subsection \<open>Storing a value\<close>

lemma put_value_live:
  assumes "co_inv ns L"
  shows "co_put_live ns pk \<lparr>Field = '''', Value = v0\<rparr> val d L (ValueKey ns q False) =
      (if q = pk then Some (RStr val d) else L (ValueKey ns q False))"
    and "co_put_live ns pk \<lparr>Field = '''', Value = v0\<rparr> val d L (MembersKey ns q False) =
      (if q = pk then map_option (rv_expire d) (L (MembersKey ns q False)) else L (MembersKey ns q False))"
    and "co_put_live ns pk \<lparr>Field = '''', Value = v0\<rparr> val d L (tail_key ns t False) =
      (if rv_text (L (tail_key ns t False)) = Some pk then Some (RStr pk d) else L (tail_key ns t False))"
proof -
  have f: "co_fields ns (L(ValueKey ns pk False := x)) pk = co_fields ns L pk" for x by (simp add: co_fields_def)
  note d = co_put_live_def co_refresh_def Let_def f co_tail_keys [OF assms]
  show "co_put_live ns pk \<lparr>Field = '''', Value = v0\<rparr> val d L (ValueKey ns q False) =
      (if q = pk then Some (RStr val d) else L (ValueKey ns q False))" by (simp add: d)
  show "co_put_live ns pk \<lparr>Field = '''', Value = v0\<rparr> val d L (MembersKey ns q False) =
      (if q = pk then map_option (rv_expire d) (L (MembersKey ns q False)) else L (MembersKey ns q False))"
    by (simp add: d)
  show "co_put_live ns pk \<lparr>Field = '''', Value = v0\<rparr> val d L (tail_key ns t False) =
      (if rv_text (L (tail_key ns t False)) = Some pk then Some (RStr pk d) else L (tail_key ns t False))"
    by (auto simp: d rv_text_Some)
qed

lemma co_inv_put_value:
  assumes "co_inv ns L"
  shows "co_inv ns (co_put_live ns pk \<lparr>Field = '''', Value = v0\<rparr> val d L)"
proof (rule co_invI)
  note p = put_value_live [OF assms] and i = co_invD [OF assms]
  show "co_typed ns (co_put_live ns pk \<lparr>Field = '''', Value = v0\<rparr> val d L)"
    using i(1) by (auto simp: co_typed_def p not_str_cases)
  fix q h d' assume a: "co_put_live ns pk \<lparr>Field = '''', Value = v0\<rparr> val d L (MembersKey ns q False) = Some (RHash h d')"
  have h: "\<exists>d0. L (MembersKey ns q False) = Some (RHash h d0) \<and> d' = (if q = pk then d else d0)"
    using a co_typedD(3) [OF i(1), of q] by (auto simp: p not_str_cases split: if_splits)
  then show "\<exists>b. co_put_live ns pk \<lparr>Field = '''', Value = v0\<rparr> val d L (ValueKey ns q False) = Some (RStr b d')"
    using i(2) [of q h] by (auto simp: p)
  fix f v assume "fmlookup h f = Some v"
  with h i(3,4) [of q h _ f v] show "CHR '':'' \<notin> set f \<and>
      co_put_live ns pk \<lparr>Field = '''', Value = v0\<rparr> val d L (tail_key ns (alias_tail f v) False) = Some (RStr q d')"
    by (auto simp: p)
next
  note p = put_value_live [OF assms] and i = co_invD [OF assms]
  fix t q d' assume "co_put_live ns pk \<lparr>Field = '''', Value = v0\<rparr> val d L (tail_key ns t False) = Some (RStr q d')"
  then obtain d0 where "L (tail_key ns t False) = Some (RStr q d0)" "d' = (if q = pk then d else d0)"
    by (auto simp: p rv_text_Some split: if_splits)
  moreover obtain f v h where "t = alias_tail f v" "L (MembersKey ns q False) = Some (RHash h d0)"
    "fmlookup h f = Some v" using i(5) [OF calculation(1)] by blast
  ultimately have "co_put_live ns pk \<lparr>Field = '''', Value = v0\<rparr> val d L (MembersKey ns q False) = Some (RHash h d')"
    "t = alias_tail f v" "fmlookup h f = Some v" by (auto simp: p)
  then show "\<exists>f v h. t = alias_tail f v \<and>
      co_put_live ns pk \<lparr>Field = '''', Value = v0\<rparr> val d L (MembersKey ns q False) = Some (RHash h d') \<and>
      fmlookup h f = Some v" by blast
qed

subsection \<open>Registering an alias\<close>

lemma alias_live:
  assumes "co_fields ns L pk = h"
  shows "co_alias ns pk ref d L (ValueKey ns q False) = L (ValueKey ns q False)"
    and "co_alias ns pk ref d L (MembersKey ns q False) =
      (if q = pk then hset_value (Field ref) (Value ref) (L (MembersKey ns pk False))
       else if co_owner ns L ref = Some q then hdel_value (Field ref) (L (MembersKey ns q False))
       else L (MembersKey ns q False))"
    and "co_alias ns pk ref d L (tail_key ns t False) =
      (if t = alias_tail (Field ref) (Value ref) then Some (RStr pk d)
       else if \<exists>x. fmlookup h (Field ref) = Some x \<and> t = alias_tail (Field ref) x then None
       else L (tail_key ns t False))"
proof -
  let ?L2 = "co_replace ns pk ref L"
  have r: "?L2 (ValueKey ns q False) = L (ValueKey ns q False)" "?L2 (MembersKey ns q False) = L (MembersKey ns q False)"
    "?L2 (tail_key ns t False) =
      (if \<exists>x. fmlookup h (Field ref) = Some x \<and> x \<noteq> Value ref \<and> t = alias_tail (Field ref) x then None
       else L (tail_key ns t False))" for q t
    using assms by (auto simp: co_replace_def split: option.splits)
  have o: "co_owner ns ?L2 ref = co_owner ns L ref" by (simp add: co_owner_def r)
  have s: "co_steal ns pk ref ?L2 (ValueKey ns q False) = ?L2 (ValueKey ns q False)"
    "co_steal ns pk ref ?L2 (tail_key ns t False) = ?L2 (tail_key ns t False)"
    "co_steal ns pk ref ?L2 (MembersKey ns q False) =
      (if q \<noteq> pk \<and> co_owner ns L ref = Some q then hdel_value (Field ref) (L (MembersKey ns q False))
       else L (MembersKey ns q False))" for q t
    by (auto simp: co_steal_def o r split: option.splits)
  show "co_alias ns pk ref d L (ValueKey ns q False) = L (ValueKey ns q False)"
    by (simp add: co_alias_def co_point_def s r)
  show "co_alias ns pk ref d L (MembersKey ns q False) =
      (if q = pk then hset_value (Field ref) (Value ref) (L (MembersKey ns pk False))
       else if co_owner ns L ref = Some q then hdel_value (Field ref) (L (MembersKey ns q False))
       else L (MembersKey ns q False))"
    by (simp add: co_alias_def co_point_def s r)
  show "co_alias ns pk ref d L (tail_key ns t False) =
      (if t = alias_tail (Field ref) (Value ref) then Some (RStr pk d)
       else if \<exists>x. fmlookup h (Field ref) = Some x \<and> t = alias_tail (Field ref) x then None
       else L (tail_key ns t False))"
    by (auto simp: co_alias_def co_point_def s r)
qed

lemma put_alias_live:
  assumes "co_inv ns L" "Field ref \<noteq> ''''" "CHR '':'' \<notin> set (Field ref)"
  shows "co_put_live ns pk ref val d L (ValueKey ns q False) =
      (if q = pk then Some (RStr val d) else L (ValueKey ns q False))"
    and "co_put_live ns pk ref val d L (MembersKey ns q False) =
      (if q = pk then Some (RHash (fmupd (Field ref) (Value ref) (co_fields ns L pk)) d)
       else if co_owner ns L ref = Some q then hdel_value (Field ref) (L (MembersKey ns q False))
       else L (MembersKey ns q False))"
    and "co_put_live ns pk ref val d L (tail_key ns t False) =
      (if t = alias_tail (Field ref) (Value ref) then Some (RStr pk d)
       else if \<exists>x. fmlookup (co_fields ns L pk) (Field ref) = Some x \<and> t = alias_tail (Field ref) x then None
       else if rv_text (L (tail_key ns t False)) = Some pk then Some (RStr pk d)
       else L (tail_key ns t False))"
proof -
  let ?L1 = "L(ValueKey ns pk False \<mapsto> RStr val d)" and ?h = "co_fields ns L pk"
  have f1: "co_fields ns ?L1 pk = ?h" by (simp add: co_fields_def)
  have o1: "co_owner ns ?L1 ref = co_owner ns L ref" by (simp add: co_owner_def)
  note a = alias_live [OF f1, of ref d]
  have put: "co_put_live ns pk ref val d L = co_refresh ns pk d (co_alias ns pk ref d ?L1)"
    using assms(2) by (simp add: co_put_live_def)
  obtain d0 where hs: "hset_value (Field ref) (Value ref) (L (MembersKey ns pk False)) =
      Some (RHash (fmupd (Field ref) (Value ref) ?h) d0)"
    using co_typedD(3) [OF co_invD(1) [OF assms(1)], of pk] by (auto simp: not_str_cases co_fields_def)
  have f2: "co_fields ns (co_alias ns pk ref d ?L1) pk = fmupd (Field ref) (Value ref) ?h"
    using hs by (simp add: co_fields_def a(2))
  show "co_put_live ns pk ref val d L (ValueKey ns q False) =
      (if q = pk then Some (RStr val d) else L (ValueKey ns q False))"
    unfolding put co_refresh_def by (simp add: a)
  show "co_put_live ns pk ref val d L (MembersKey ns q False) =
      (if q = pk then Some (RHash (fmupd (Field ref) (Value ref) (co_fields ns L pk)) d)
       else if co_owner ns L ref = Some q then hdel_value (Field ref) (L (MembersKey ns q False))
       else L (MembersKey ns q False))"
    unfolding put co_refresh_def by (simp add: a o1 hs)
  show "co_put_live ns pk ref val d L (tail_key ns t False) =
      (if t = alias_tail (Field ref) (Value ref) then Some (RStr pk d)
       else if \<exists>x. fmlookup ?h (Field ref) = Some x \<and> t = alias_tail (Field ref) x then None
       else if rv_text (L (tail_key ns t False)) = Some pk then Some (RStr pk d)
       else L (tail_key ns t False))"
  proof (cases "t = alias_tail (Field ref) (Value ref) \<or>
      (\<exists>x. fmlookup ?h (Field ref) = Some x \<and> t = alias_tail (Field ref) x)")
    case True
    then show ?thesis unfolding put co_refresh_def by (auto simp: a)
  next
    case False
    have "tail_key ns t False \<in> tail_keys ns (fmupd (Field ref) (Value ref) ?h) \<longleftrightarrow>
        tail_key ns t False \<in> tail_keys ns ?h"
      using False unfolding tail_keys_def by (auto split: if_splits) metis+
    also have "\<dots> \<longleftrightarrow> rv_text (L (tail_key ns t False)) = Some pk" by (rule co_tail_keys [OF assms(1)])
    finally show ?thesis
      using False unfolding put co_refresh_def f2 by (auto simp: a rv_text_Some)
  qed
qed

lemma hdel_value_Some:
  "hdel_value f v = Some (RHash h d) \<longleftrightarrow> (\<exists>h0. v = Some (RHash h0 d) \<and> h = fmdrop f h0 \<and> h \<noteq> fmempty)"
  by (cases v; cases "the v") auto

lemma hdel_value_keeps:
  "fmlookup h f' = Some x \<Longrightarrow> f' \<noteq> f \<Longrightarrow> hdel_value f (Some (RHash h d)) = Some (RHash (fmdrop f h) d)"
proof -
  assume "fmlookup h f' = Some x" "f' \<noteq> f"
  then have "fmlookup (fmdrop f h) f' = Some x" by simp
  then have "fmdrop f h \<noteq> fmempty" by (metis fmempty_lookup option.distinct(1))
  then show ?thesis by simp
qed

lemma co_inv_put_alias:
  assumes "co_inv ns L" "Field ref \<noteq> ''''" "CHR '':'' \<notin> set (Field ref)"
  shows "co_inv ns (co_put_live ns pk ref val d L)"
proof (rule co_invI)
  note p = put_alias_live [OF assms] and i = co_invD [OF assms(1)]
  show "co_typed ns (co_put_live ns pk ref val d L)"
    using i(1) by (auto simp: co_typed_def p)
next
  note p = put_alias_live [OF assms] and i = co_invD [OF assms(1)]
  fix q h d' assume a: "co_put_live ns pk ref val d L (MembersKey ns q False) = Some (RHash h d')"
  consider (own) "q = pk" "h = fmupd (Field ref) (Value ref) (co_fields ns L pk)" "d' = d"
    | (stolen) h0 where "q \<noteq> pk" "co_owner ns L ref = Some q" "L (MembersKey ns q False) = Some (RHash h0 d')"
        "h = fmdrop (Field ref) h0"
    | (other) "q \<noteq> pk" "co_owner ns L ref \<noteq> Some q" "L (MembersKey ns q False) = Some (RHash h d')"
    using a by (auto simp: p hdel_value_Some split: if_splits)
  note cs = this
  then show "\<exists>b. co_put_live ns pk ref val d L (ValueKey ns q False) = Some (RStr b d')"
    by cases (use i(2) in \<open>auto simp: p\<close>)
  fix f v assume fv: "fmlookup h f = Some v"
  from cs show "CHR '':'' \<notin> set f \<and> co_put_live ns pk ref val d L (tail_key ns (alias_tail f v) False) = Some (RStr q d')"
  proof cases
    case own
    show ?thesis
    proof (cases "f = Field ref")
      case True
      with fv own assms(3) show ?thesis by (auto simp: p)
    next
      case False
      with fv own have "fmlookup (co_fields ns L pk) f = Some v" by simp
      with co_fields_Some [OF this] i(3,4) obtain d0 where
        "CHR '':'' \<notin> set f" "L (tail_key ns (alias_tail f v) False) = Some (RStr pk d0)" by blast
      with own False alias_tail_inject [OF this(1) assms(3)] show ?thesis by (auto simp: p)
    qed
  next
    case stolen
    with fv have f: "f \<noteq> Field ref" "fmlookup h0 f = Some v" by (auto split: if_splits)
    with i(3,4) [OF stolen(3) f(2)] alias_tail_inject [of f "Field ref"] stolen(1) assms(3)
    show ?thesis by (auto simp: p)
  next
    case other
    note c = i(3,4) [OF other(3) fv]
    have "\<not> (f = Field ref \<and> v = Value ref)"
      using c(2) other(2) by (auto simp: co_owner_def)
    moreover have "fmlookup (co_fields ns L pk) (Field ref) = Some x \<Longrightarrow> \<not> (f = Field ref \<and> v = x)" for x
      using c(2) other(1) co_fields_Some [of ns L pk "Field ref" x] i(4) [of pk _ _ "Field ref" x] by force
    ultimately show ?thesis using c other(1) alias_tail_inject [OF c(1) assms(3)] by (auto simp: p)
  qed
next
  note p = put_alias_live [OF assms] and i = co_invD [OF assms(1)]
  fix t q d' assume a: "co_put_live ns pk ref val d L (tail_key ns t False) = Some (RStr q d')"
  consider (own) "t = alias_tail (Field ref) (Value ref)" "q = pk" "d' = d"
    | (same) d0 where "q = pk" "d' = d" "L (tail_key ns t False) = Some (RStr pk d0)"
        "\<And>x. fmlookup (co_fields ns L pk) (Field ref) = Some x \<Longrightarrow> t \<noteq> alias_tail (Field ref) x"
    | (other) "q \<noteq> pk" "t \<noteq> alias_tail (Field ref) (Value ref)" "L (tail_key ns t False) = Some (RStr q d')"
    using a by (auto simp: p rv_text_Some split: if_splits)
  then show "\<exists>f v h. t = alias_tail f v \<and>
      co_put_live ns pk ref val d L (MembersKey ns q False) = Some (RHash h d') \<and> fmlookup h f = Some v"
  proof cases
    case own
    have "fmlookup (fmupd (Field ref) (Value ref) (co_fields ns L pk)) (Field ref) = Some (Value ref)" by simp
    with own show ?thesis unfolding p by auto
  next
    case same
    from i(5) [OF same(3)] obtain f v h where
      fv: "t = alias_tail f v" "L (MembersKey ns pk False) = Some (RHash h d0)" "fmlookup h f = Some v" by blast
    then have l: "fmlookup (co_fields ns L pk) f = Some v" by (simp add: co_fields_def)
    with same(4) fv(1) have "f \<noteq> Field ref" by auto
    with l have "fmlookup (fmupd (Field ref) (Value ref) (co_fields ns L pk)) f = Some v" by simp
    with fv(1) same(1,2) show ?thesis unfolding p by (intro exI [of _ f] exI [of _ v] exI [of _ "fmupd (Field ref) (Value ref) (co_fields ns L pk)"]) simp
  next
    case other
    from i(5) [OF other(3)] obtain f v h where
      fv: "t = alias_tail f v" "L (MembersKey ns q False) = Some (RHash h d')" "fmlookup h f = Some v" by blast
    show ?thesis
    proof (cases "co_owner ns L ref = Some q")
      case True
      then have "fmlookup (co_fields ns L q) (Field ref) = Some (Value ref)"
        using co_owner_fields [OF assms(1,3)] by simp
      then have "f \<noteq> Field ref" using fv other(2) by (auto simp: co_fields_def)
      with hdel_value_keeps [OF fv(3) this] fv True other(1) show ?thesis
        by (intro exI [of _ f] exI [of _ v] exI [of _ "fmdrop (Field ref) h"]) (simp add: p)
    next
      case False
      with fv other(1) show ?thesis by (intro exI [of _ f] exI [of _ v] exI [of _ h]) (simp add: p)
    qed
  qed
qed

lemma put_alias_co_owner:
  assumes "co_inv ns L" "Field ref \<noteq> ''''" "CHR '':'' \<notin> set (Field ref)" "CHR '':'' \<notin> set (Field ref')"
  shows "co_owner ns (co_put_live ns pk ref val d L) ref' =
    (if ref' = ref then Some pk
     else if Field ref' = Field ref \<and> co_owner ns L ref' = Some pk then None else co_owner ns L ref')"
proof -
  let ?t = "alias_tail (Field ref') (Value ref')"
  note p = put_alias_live [OF assms(1-3)]
  have eq: "?t = alias_tail (Field ref) x \<longleftrightarrow> Field ref' = Field ref \<and> Value ref' = x" for x
    by (rule alias_tail_inject [OF assms(4,3)])
  have r: "ref' = ref \<longleftrightarrow> Field ref' = Field ref \<and> Value ref' = Value ref"
    by (cases ref; cases ref') auto
  have old: "(\<exists>x. fmlookup (co_fields ns L pk) (Field ref) = Some x \<and> ?t = alias_tail (Field ref) x) \<longleftrightarrow>
      Field ref' = Field ref \<and> co_owner ns L ref' = Some pk"
    using co_owner_fields [OF assms(1,4), of pk] by (auto simp: eq)
  show ?thesis
    unfolding co_owner_def [of ns "co_put_live ns pk ref val d L"] p(3) old
    unfolding eq r by (auto simp: co_owner_def)
qed

subsection \<open>Evicting a record\<close>

lemma evict_live:
  assumes "co_inv ns L"
  shows "co_evict_live ns pk L (ValueKey ns q False) = (if q = pk then None else L (ValueKey ns q False))"
    and "co_evict_live ns pk L (MembersKey ns q False) = (if q = pk then None else L (MembersKey ns q False))"
    and "co_evict_live ns pk L (tail_key ns t False) =
      (if rv_text (L (tail_key ns t False)) = Some pk then None else L (tail_key ns t False))"
  by (auto simp: co_evict_live_def co_tail_keys [OF assms])

lemma co_inv_evict:
  assumes "co_inv ns L"
  shows "co_inv ns (co_evict_live ns pk L)"
proof (rule co_invI)
  note e = evict_live [OF assms] and i = co_invD [OF assms]
  show "co_typed ns (co_evict_live ns pk L)" using i(1) by (auto simp: co_typed_def e)
  fix q h d assume a: "co_evict_live ns pk L (MembersKey ns q False) = Some (RHash h d)"
  then show "\<exists>b. co_evict_live ns pk L (ValueKey ns q False) = Some (RStr b d)"
    using i(2) by (auto simp: e split: if_splits)
  fix f v assume "fmlookup h f = Some v"
  with a i(3,4) show "CHR '':'' \<notin> set f \<and>
      co_evict_live ns pk L (tail_key ns (alias_tail f v) False) = Some (RStr q d)"
    by (fastforce simp: e split: if_splits)
next
  note e = evict_live [OF assms] and i = co_invD [OF assms]
  fix t q d assume "co_evict_live ns pk L (tail_key ns t False) = Some (RStr q d)"
  then have "q \<noteq> pk" "L (tail_key ns t False) = Some (RStr q d)" by (auto simp: e rv_text_Some split: if_splits)
  with i(5) [OF this(2)] show "\<exists>f v h. t = alias_tail f v \<and>
      co_evict_live ns pk L (MembersKey ns q False) = Some (RHash h d) \<and> fmlookup h f = Some v"
    by (simp add: e)
qed

lemma evict_co_owner:
  assumes "co_inv ns L"
  shows "co_owner ns (co_evict_live ns pk L) ref = (if co_owner ns L ref = Some pk then None else co_owner ns L ref)"
  using evict_live(3) [OF assms] by (simp add: co_owner_def)

text \<open>An alias that leads to a record finds a value there.\<close>

lemma co_owner_value:
  assumes "co_inv ns L" "co_owner ns L ref = Some pk"
  shows "\<exists>b d. L (ValueKey ns pk False) = Some (RStr b d) \<and>
    L (tail_key ns (alias_tail (Field ref) (Value ref)) False) = Some (RStr pk d)"
proof -
  obtain d where p: "L (tail_key ns (alias_tail (Field ref) (Value ref)) False) = Some (RStr pk d)"
    using assms(2) by (auto simp: co_owner_def rv_text_Some)
  with co_invD(5) [OF assms(1) p] co_invD(2) [OF assms(1)] show ?thesis by blast
qed

end
