(* ===== verification/Redis_Client.thy ===== *)
theory Redis_Client
  imports Redis_Group
begin

text \<open>
  The operations of \<open>redisstore\<close> on a connection that keeps the contract \<open>redis_client\<close>: what each
  call returns and leaves, in terms of the live content at the instant at which the server runs it,
  and runs in which any number of clients interleave their calls.
\<close>

lemma Milliseconds_nonneg: "0 \<le> ttl \<Longrightarrow> Milliseconds ttl = ttl div 1000000"
  by (cases "ttl = 0") (simp_all add: Milliseconds_def)

lemma Milliseconds_pos: "0 < Milliseconds ttl \<longleftrightarrow> 1000000 \<le> ttl"
proof (cases "0 \<le> ttl")
  case True
  then show ?thesis by (simp add: Milliseconds_nonneg pos_imp_zdiv_pos_iff)
next
  case False
  then have "Milliseconds ttl = - (\<bar>ttl\<bar> div 1000000)" by (simp add: Milliseconds_def)
  moreover have "0 \<le> \<bar>ttl\<bar> div 1000000" by simp
  ultimately show ?thesis using False by linarith
qed

lemma nil_is_miss_simps [simp]:
  "nil_is_miss (Inr b) = Inr b" "nil_is_miss (Inl redis_Nil) = Inl ErrStoreMiss"
  by (simp_all add: nil_is_miss_def)

lemma bytes_reply_simps [simp]:
  "bytes_reply (Inr (GoString b)) = Inr b" "bytes_reply (Inl redis_Nil) = Inl ErrStoreMiss"
  by (simp_all add: bytes_reply_def)

text \<open>Steps of a colocated group: any client's call, or anything that leaves the group's keys alone.\<close>

definition co_others :: "('s \<Rightarrow> rcontent) \<Rightarrow> ('s \<Rightarrow> int) \<Rightarrow> string \<Rightarrow> 's \<Rightarrow> 's \<Rightarrow> bool" where
  "co_others content now ns s s' \<longleftrightarrow> now s \<le> now s' \<and>
     (\<forall>pk. content s' (ValueKey ns pk False) = content s (ValueKey ns pk False)) \<and>
     (\<forall>pk. content s' (MembersKey ns pk False) = content s (MembersKey ns pk False)) \<and>
     (\<forall>t. content s' (tail_key ns t False) = content s (tail_key ns t False))"

inductive co_step ::
  "('s \<Rightarrow> rcontent) \<Rightarrow> ('s \<Rightarrow> int) \<Rightarrow> 's colocatedOps \<Rightarrow> 's \<Rightarrow> 's \<Rightarrow> bool" for content now o1 where
  co_get: "co_step content now o1 s (snd (co_GetValue o1 pk s))"
| co_put_val: "co_step content now o1 s (snd (co_PutValue o1 pk b ttl s))"
| co_get_alias: "co_step content now o1 s (snd (co_GetByAlias o1 ref s))"
| co_put_alias: "CHR '':'' \<notin> set (Field ref) \<Longrightarrow> co_step content now o1 s (snd (co_PutByAlias o1 pk ref b ttl s))"
| co_evict: "co_step content now o1 s (snd (co_EvictByPrimary o1 pk s))"
| co_evict_alias: "co_step content now o1 s (snd (co_EvictByAlias o1 ref s))"
| co_env: "co_others content now (co_ns o1) s s' \<Longrightarrow> co_step content now o1 s s'"

abbreviation co_run ::
  "('s \<Rightarrow> rcontent) \<Rightarrow> ('s \<Rightarrow> int) \<Rightarrow> 's colocatedOps \<Rightarrow> 's \<Rightarrow> 's \<Rightarrow> bool" where
  "co_run content now o1 \<equiv> (co_step content now o1)\<^sup>*\<^sup>*"

text \<open>The invariant of a state: that of its live content.\<close>

definition co_ok :: "('s \<Rightarrow> rcontent) \<Rightarrow> ('s \<Rightarrow> int) \<Rightarrow> string \<Rightarrow> 's \<Rightarrow> bool" where
  "co_ok content now ns s \<longleftrightarrow> co_inv ns (live (now s) (content s))"

lemma co_ok_others:
  assumes "co_ok content now ns s" "co_others content now ns s s'"
  shows "co_ok content now ns s'"
proof -
  have i: "co_inv ns (live (now s') (content s))"
    using assms by (auto simp: co_ok_def co_others_def intro: co_inv_later)
  have "live (now s') (content s') k = live (now s') (content s) k" if "content s' k = content s k" for k
    using that by (simp add: live_def)
  with assms(2) show ?thesis
    using i unfolding co_ok_def co_inv_def co_typed_def co_others_def by simp
qed

context redis_calls
begin

lemma runs_Eval:
  assumes "runs (run_script R sc KEYS ARGV) (arrive s) x c"
  shows "fst (rc_Eval conn sc KEYS ARGV s) = lua_reply (Inr x)"
    and "content (snd (rc_Eval conn sc KEYS ARGV s)) = c"
    and "now (snd (rc_Eval conn sc KEYS ARGV s)) = now (arrive s)"
  using assms by (simp_all add: conn_Eval runs_def)

end

context redis_client
begin

subsection \<open>The plain store\<close>

lemma rc_Get_result:
  "nil_is_miss (fst (rc_Get conn k s)) =
     (case live (now (arrive s)) (content s) k of
        None \<Rightarrow> Inl ErrStoreMiss | Some (RStr b d) \<Rightarrow> Inr b | Some (RHash h d) \<Rightarrow> Inl wrong_type)"
  "content (snd (rc_Get conn k s)) = content s" "now (snd (rc_Get conn k s)) = now (arrive s)"
  by (auto simp: conn_Get GET arrive nil_is_miss_def wrong_type_def redis_Nil_def split: option.splits rvalue.splits)

lemma redis_Get_result:
  "fst (redis_Get conn k s) =
     (case live (now (arrive s)) (content s) k of
        None \<Rightarrow> Inl ErrStoreMiss | Some (RStr b d) \<Rightarrow> Inr b | Some (RHash h d) \<Rightarrow> Inl wrong_type)"
  "content (snd (redis_Get conn k s)) = content s" "now (snd (redis_Get conn k s)) = now (arrive s)"
  using rc_Get_result [of k s] by (simp_all add: redis_Get_def case_prod_unfold Let_def)

lemma redis_Set_result:
  assumes "ttl \<noteq> -1"
  shows "fst (redis_Set conn k b ttl s) = None"
    and "content (snd (redis_Set conn k b ttl s)) =
      (content s)(k \<mapsto> RStr b (px_deadline (now (arrive s)) (go_px ttl)))"
    and "now (snd (redis_Set conn k b ttl s)) = now (arrive s)"
proof -
  have px: "go_px ttl = None \<or> (\<exists>ms. go_px ttl = Some ms \<and> 0 < ms)"
    unfolding go_px_def by (simp add: less_max_iff_disj)
  show "fst (redis_Set conn k b ttl s) = None"
    "content (snd (redis_Set conn k b ttl s)) = (content s)(k \<mapsto> RStr b (px_deadline (now (arrive s)) (go_px ttl)))"
    "now (snd (redis_Set conn k b ttl s)) = now (arrive s)"
    using SET(2) [OF px, of k b "arrive s"] assms by (simp_all add: redis_Set_def conn_Set SET(3) arrive(2))
qed

lemma redis_Delete_result:
  "fst (redis_Delete conn k s) = None"
  "content (snd (redis_Delete conn k s)) = (content s)(k := None)"
  "now (snd (redis_Delete conn k s)) = now (arrive s)"
  by (simp_all add: redis_Delete_def conn_Del DEL arrive cmd_Err_def case_prod_unfold Let_def)

lemma redis_Exists_result:
  "fst (redis_Exists conn k s) = Inr (live (now (arrive s)) (content s) k \<noteq> None)"
  "content (snd (redis_Exists conn k s)) = content s" "now (snd (redis_Exists conn k s)) = now (arrive s)"
  using conn_Exists [of k s]
  by (cases "live (now (arrive s)) (content s) k = None",
      auto simp: redis_Exists_def split: prod.splits sum.splits)+

lemma mget_loop_spec:
  "fmlookup (mget_loop (map (\<lambda>k. mget_reply (f k)) ks) ks out) k =
     (if k \<in> set ks then (case rv_text (f k) of None \<Rightarrow> fmlookup out k | Some b \<Rightarrow> Some b) else fmlookup out k)"
proof (induction ks arbitrary: out)
  case (Cons q ks)
  show ?case
    by (cases "f q"; cases "the (f q)") (auto simp: Cons.IH split: option.splits)
qed simp

lemma redis_GetMany_result:
  "\<exists>m. fst (redis_GetMany conn ks s) = Inr m \<and>
     (\<forall>k. fmlookup m k = (if k \<in> set ks then rv_text (live (now (arrive s)) (content s) k) else None))"
  "content (snd (redis_GetMany conn ks s)) = content s"
  "now s \<le> now (snd (redis_GetMany conn ks s))" "now (snd (redis_GetMany conn ks s)) \<le> now (arrive s)"
  "snd (redis_GetMany conn ks s) = s \<or> now (snd (redis_GetMany conn ks s)) = now (arrive s)"
proof -
  let ?L = "live (now (arrive s)) (content s)"
  have m: "fmlookup (mget_loop (map (\<lambda>k. mget_reply (?L k)) ks) ks fmempty) k =
      (if k \<in> set ks then rv_text (?L k) else None)" for k
    using mget_loop_spec [of ?L ks fmempty k] by (cases "rv_text (?L k)") simp_all
  show "\<exists>m. fst (redis_GetMany conn ks s) = Inr m \<and>
      (\<forall>k. fmlookup m k = (if k \<in> set ks then rv_text (?L k) else None))"
  proof (cases "ks = []")
    case False
    with conn_MGet(1) [of ks s] m show ?thesis
      by (cases "rc_MGet conn ks s") (simp add: redis_GetMany_def)
  qed (simp add: redis_GetMany_def)
  have s: "snd (redis_GetMany conn ks s) = (if ks = [] then s else snd (rc_MGet conn ks s))"
    by (simp add: redis_GetMany_def split: prod.splits sum.splits)
  show "content (snd (redis_GetMany conn ks s)) = content s"
    "now s \<le> now (snd (redis_GetMany conn ks s))" "now (snd (redis_GetMany conn ks s)) \<le> now (arrive s)"
    "snd (redis_GetMany conn ks s) = s \<or> now (snd (redis_GetMany conn ks s)) = now (arrive s)"
    using arrive(1) [of s] by (simp_all add: s conn_MGet)
qed

subsection \<open>Colocated groups\<close>

lemma co_typed_arrive:
  "co_ok content now ns s \<Longrightarrow> co_inv ns (live (now (arrive s)) (content s))"
  unfolding co_ok_def by (rule co_inv_later [OF _ arrive(1)])

lemma co_put_result:
  assumes "co_typed (co_ns o1) (live (now (arrive s)) (content s))" "co_conn o1 = conn"
  shows "fst (co_put o1 pk ref b ttl s) = None"
    and "now (snd (co_put o1 pk ref b ttl s)) = now (arrive s)"
    and "live (now (arrive s)) (content (snd (co_put o1 pk ref b ttl s))) =
      co_put_live (co_ns o1) pk ref b (deadline (now (arrive s)) (Milliseconds ttl))
        (live (now (arrive s)) (content s))"
    and "co_frame (co_ns o1) pk (content s) (content (snd (co_put o1 pk ref b ttl s)))"
proof -
  let ?keys = "[ValueKey (co_ns o1) pk False, MembersKey (co_ns o1) pk False]"
  let ?args = "[ArgText b, ArgInt (Milliseconds ttl), ArgText (Field ref), ArgText (Value ref),
    ArgText pk, ArgText (ColocatedGrpPrefix (co_ns o1)), ArgText (ColocatedMembersPrefix (co_ns o1))]"
  have "co_typed (co_ns o1) (live (now (arrive s)) (content (arrive s)))" using assms(1) by (simp add: arrive)
  from run_put [OF this, of pk b "Milliseconds ttl" ref] obtain c where
    c: "runs (run_script R colocatedPutScript ?keys ?args) (arrive s) (LInt 1) c"
    "live (now (arrive s)) c = co_put_live (co_ns o1) pk ref b (deadline (now (arrive s)) (Milliseconds ttl))
       (live (now (arrive s)) (content s))"
    "co_frame (co_ns o1) pk (content s) c"
    by (auto simp: run_script_def arrive)
  note e = runs_Eval [OF c(1)]
  have p: "co_put o1 pk ref b ttl s = (None, snd (rc_Eval conn colocatedPutScript ?keys ?args s))"
    using e(1) by (simp add: co_put_def assms(2) cmd_Err_def case_prod_unfold Let_def)
  show "fst (co_put o1 pk ref b ttl s) = None"
    "now (snd (co_put o1 pk ref b ttl s)) = now (arrive s)"
    "live (now (arrive s)) (content (snd (co_put o1 pk ref b ttl s))) =
      co_put_live (co_ns o1) pk ref b (deadline (now (arrive s)) (Milliseconds ttl))
        (live (now (arrive s)) (content s))"
    "co_frame (co_ns o1) pk (content s) (content (snd (co_put o1 pk ref b ttl s)))"
    using c(2,3) e(2,3) by (simp_all add: p)
qed

lemma co_EvictByPrimary_result:
  assumes "co_typed (co_ns o1) (live (now (arrive s)) (content s))" "co_conn o1 = conn"
  shows "fst (co_EvictByPrimary o1 pk s) = None"
    and "now (snd (co_EvictByPrimary o1 pk s)) = now (arrive s)"
    and "live (now (arrive s)) (content (snd (co_EvictByPrimary o1 pk s))) =
      co_evict_live (co_ns o1) pk (live (now (arrive s)) (content s))"
    and "co_frame (co_ns o1) pk (content s) (content (snd (co_EvictByPrimary o1 pk s)))"
    and "content (snd (co_EvictByPrimary o1 pk s)) (ValueKey (co_ns o1) pk False) = None"
proof -
  let ?keys = "[ValueKey (co_ns o1) pk False, MembersKey (co_ns o1) pk False]"
  let ?args = "[ArgText (ColocatedGrpPrefix (co_ns o1))]"
  have "co_typed (co_ns o1) (live (now (arrive s)) (content (arrive s)))" using assms(1) by (simp add: arrive)
  from run_evict_by_primary [OF this, of pk] obtain c where
    c: "runs (run_script R colocatedEvictByPrimaryScript ?keys ?args) (arrive s) (LInt 1) c"
    "live (now (arrive s)) c = co_evict_live (co_ns o1) pk (live (now (arrive s)) (content s))"
    "co_frame (co_ns o1) pk (content s) c" "c (ValueKey (co_ns o1) pk False) = None"
    by (auto simp: run_script_def arrive)
  note e = runs_Eval [OF c(1)]
  have p: "co_EvictByPrimary o1 pk s = (None, snd (rc_Eval conn colocatedEvictByPrimaryScript ?keys ?args s))"
    using e(1) by (simp add: co_EvictByPrimary_def assms(2) cmd_Err_def case_prod_unfold Let_def)
  show "fst (co_EvictByPrimary o1 pk s) = None"
    "now (snd (co_EvictByPrimary o1 pk s)) = now (arrive s)"
    "live (now (arrive s)) (content (snd (co_EvictByPrimary o1 pk s))) =
      co_evict_live (co_ns o1) pk (live (now (arrive s)) (content s))"
    "co_frame (co_ns o1) pk (content s) (content (snd (co_EvictByPrimary o1 pk s)))"
    "content (snd (co_EvictByPrimary o1 pk s)) (ValueKey (co_ns o1) pk False) = None"
    using c(2,3,4) e(2,3) by (simp_all add: p)
qed

lemma co_EvictByAlias_result:
  assumes "co_typed (co_ns o1) (live (now (arrive s)) (content s))" "co_conn o1 = conn"
  shows "fst (co_EvictByAlias o1 ref s) = None"
    and "now (snd (co_EvictByAlias o1 ref s)) = now (arrive s)"
    and "live (now (arrive s)) (content (snd (co_EvictByAlias o1 ref s))) =
      (case co_owner (co_ns o1) (live (now (arrive s)) (content s)) ref of
         None \<Rightarrow> live (now (arrive s)) (content s)
       | Some pk \<Rightarrow> co_evict_live (co_ns o1) pk (live (now (arrive s)) (content s)))"
proof -
  let ?ns = "co_ns o1" and ?L = "live (now (arrive s)) (content s)"
  let ?keys = "[tail_key ?ns (alias_tail (Field ref) (Value ref)) False]"
  let ?args = "[ArgText (ColocatedValuePrefix ?ns), ArgText (ColocatedMembersPrefix ?ns), ArgText (ColocatedGrpPrefix ?ns)]"
  have "co_typed ?ns (live (now (arrive s)) (content (arrive s)))" using assms(1) by (simp add: arrive)
  from run_evict_by_alias [OF this, of ref] obtain c n where
    c: "runs (run_script R colocatedEvictByAliasScript ?keys ?args) (arrive s) (LInt n) c"
    "case co_owner ?ns ?L ref of None \<Rightarrow> c = content s | Some pk \<Rightarrow> live (now (arrive s)) c = co_evict_live ?ns pk ?L"
    by (auto simp: run_script_def arrive split: option.splits)
  note e = runs_Eval [OF c(1)]
  have p: "co_EvictByAlias o1 ref s = (None, snd (rc_Eval conn colocatedEvictByAliasScript ?keys ?args s))"
    using e(1) by (simp add: co_EvictByAlias_def assms(2) cmd_Err_def case_prod_unfold Let_def PointerKey_tail)
  show "fst (co_EvictByAlias o1 ref s) = None"
    "now (snd (co_EvictByAlias o1 ref s)) = now (arrive s)"
    "live (now (arrive s)) (content (snd (co_EvictByAlias o1 ref s))) =
      (case co_owner ?ns ?L ref of None \<Rightarrow> ?L | Some pk \<Rightarrow> co_evict_live ?ns pk ?L)"
    using c(2) e(2,3) by (auto simp: p split: option.splits)
qed

lemma co_GetByAlias_result:
  assumes "co_typed (co_ns o1) (live (now (arrive s)) (content s))" "co_conn o1 = conn"
  shows "fst (co_GetByAlias o1 ref s) =
      (case co_owner (co_ns o1) (live (now (arrive s)) (content s)) ref of
         None \<Rightarrow> Inl ErrStoreMiss
       | Some pk \<Rightarrow>
           (case rv_text (live (now (arrive s)) (content s) (ValueKey (co_ns o1) pk False)) of
              None \<Rightarrow> Inl ErrStoreMiss | Some b \<Rightarrow> Inr b))"
    and "content (snd (co_GetByAlias o1 ref s)) = content s"
    and "now (snd (co_GetByAlias o1 ref s)) = now (arrive s)"
proof -
  let ?ns = "co_ns o1" and ?L = "live (now (arrive s)) (content s)"
  let ?x = "case co_owner ?ns ?L ref of None \<Rightarrow> LFalse
    | Some pk \<Rightarrow> (case rv_text (?L (ValueKey ?ns pk False)) of None \<Rightarrow> LFalse | Some b \<Rightarrow> LStr b)"
  let ?keys = "[tail_key ?ns (alias_tail (Field ref) (Value ref)) False]" and ?args = "[ArgText (ColocatedValuePrefix ?ns)]"
  have t: "co_typed ?ns (live (now (arrive s)) (content (arrive s)))" using assms(1) by (simp add: arrive)
  have "runs (run_script R colocatedGetScript ?keys ?args) (arrive s) ?x (content s)"
    using run_get [OF t, of ref, unfolded arrive(2)] by (simp add: run_script_def)
  note e = runs_Eval [OF this]
  show "fst (co_GetByAlias o1 ref s) =
      (case co_owner ?ns ?L ref of None \<Rightarrow> Inl ErrStoreMiss
       | Some pk \<Rightarrow> (case rv_text (?L (ValueKey ?ns pk False)) of None \<Rightarrow> Inl ErrStoreMiss | Some b \<Rightarrow> Inr b))"
    using e(1) by (auto simp: co_GetByAlias_def assms(2) case_prod_unfold Let_def PointerKey_tail split: option.splits)
  show "content (snd (co_GetByAlias o1 ref s)) = content s" "now (snd (co_GetByAlias o1 ref s)) = now (arrive s)"
    using e(2,3) by (simp_all add: co_GetByAlias_def assms(2) case_prod_unfold Let_def PointerKey_tail)
qed

lemma co_GetValue_result:
  assumes "co_conn o1 = conn"
  shows "fst (co_GetValue o1 pk s) =
      (case live (now (arrive s)) (content s) (ValueKey (co_ns o1) pk False) of
         None \<Rightarrow> Inl ErrStoreMiss | Some (RStr b d) \<Rightarrow> Inr b | Some (RHash h d) \<Rightarrow> Inl wrong_type)"
    and "content (snd (co_GetValue o1 pk s)) = content s" "now (snd (co_GetValue o1 pk s)) = now (arrive s)"
  using rc_Get_result [of "ValueKey (co_ns o1) pk False" s] assms
  by (simp_all add: co_GetValue_def case_prod_unfold Let_def)

lemma co_step_ok:
  assumes "co_step content now o1 s s'" "co_conn o1 = conn" "co_ok content now (co_ns o1) s"
  shows "co_ok content now (co_ns o1) s'"
proof -
  note i = co_typed_arrive [OF assms(3)]
  note t = co_invD(1) [OF i]
  from assms(1) show ?thesis
  proof cases
    case (co_put_alias ref pk b ttl)
    have "co_inv (co_ns o1) (co_put_live (co_ns o1) pk ref b d (live (now (arrive s)) (content s)))" for d
      using co_inv_put_alias [OF i _ co_put_alias(2)] co_inv_put_value [OF i]
      by (cases "Field ref = ''''"; cases ref) auto
    then show ?thesis
      using co_put_result [OF t assms(2)] by (simp add: co_put_alias(1) co_PutByAlias_def co_ok_def)
  next
    case co_env
    then show ?thesis using co_ok_others [OF assms(3)] by simp
  qed (use i co_put_result [OF t assms(2)] co_EvictByPrimary_result [OF t assms(2)]
      co_EvictByAlias_result [OF t assms(2)] co_GetByAlias_result [OF t assms(2)] co_GetValue_result [OF assms(2)]
      co_inv_put_value [OF i] co_inv_evict [OF i] in
      \<open>auto simp: co_ok_def co_PutValue_def split: option.splits\<close>)
qed

lemma co_run_ok:
  assumes "co_run content now o1 s s'" "co_conn o1 = conn" "co_ok content now (co_ns o1) s"
  shows "co_ok content now (co_ns o1) s'"
  using assms(1,3) by induction (auto intro: co_step_ok [OF _ assms(2)])

end

end
