(* ===== verification/Redis_Scan.thy ===== *)
theory Redis_Scan
  imports Redis_Store Redis_Scripts
begin

text \<open>
  Scanning.  \<open>redis_scan\<close> states the guarantee that the Redis documentation gives for \<open>SCAN\<close> on one
  node; \<open>key_scanning\<close> the contract of \<open>KeyScanner\<close> that prefix eviction relies on.  The loop of
  \<open>scanNode\<close>, run through \<open>ScanAll\<close>, turns the one into the other (the \<open>sublocale\<close>), which includes
  that it ends.
\<close>

subsection \<open>The documented guarantee of \<open>SCAN\<close>\<close>

text \<open>
  Consecutive pages of one iteration: each is served from the cursor that the page before returned, in
  whatever state the server is by then, and cursor 0 ends the iteration.  An element holds the state
  right after the page, its keys and the next cursor.
\<close>

fun scan_chain ::
  "'s node_scanner \<Rightarrow> string \<Rightarrow> int \<Rightarrow> nat \<Rightarrow> ('s \<times> string list \<times> nat) list \<Rightarrow> bool" where
  "scan_chain Scan m n c [] = True"
| "scan_chain Scan m n c ((s', ks, c') # ps) =
     ((\<exists>s. Scan c m n s = (Inr (ks, c'), s')) \<and> (c' = 0 \<longrightarrow> ps = []) \<and> scan_chain Scan m n c' ps)"

definition full_iteration ::
  "'s node_scanner \<Rightarrow> string \<Rightarrow> int \<Rightarrow> ('s \<times> string list \<times> nat) list \<Rightarrow> bool" where
  "full_iteration Scan m n ps \<longleftrightarrow> scan_chain Scan m n 0 ps \<and> ps \<noteq> [] \<and> snd (snd (last ps)) = 0"

definition small :: "('s \<Rightarrow> rcontent) \<Rightarrow> nat \<Rightarrow> 's \<Rightarrow> bool" where
  "small content b s \<longleftrightarrow> finite (dom (content s)) \<and> card (dom (content s)) \<le> b"

text \<open>
  A full iteration returns every element that was there from its start to its end; only elements that
  match and are there are returned; and while the size of the keyspace stays bounded, so does the number of pages.
\<close>

locale redis_scan = glob_syntax glob
  for glob :: "string \<Rightarrow> string \<Rightarrow> bool" +
  fixes content :: "'s \<Rightarrow> rcontent"
    and now :: "'s \<Rightarrow> int"
    and Scan :: "'s node_scanner"
  assumes scan_reply: "\<exists>ks c'. fst (Scan c m n s) = Inr (ks, c')"
    and scan_quiet: "content (snd (Scan c m n s)) = content s" "now s \<le> now (snd (Scan c m n s))"
    and scan_match: "fst (Scan c m n s) = Inr (ks, c') \<Longrightarrow> k \<in> set ks \<Longrightarrow> glob m k \<and> content s k \<noteq> None"
    and scan_complete: "full_iteration Scan m n ps \<Longrightarrow> glob m k \<Longrightarrow>
      (\<forall>(s', ks, c') \<in> set ps. live (now s') (content s') k \<noteq> None) \<Longrightarrow> \<exists>(s', ks, c') \<in> set ps. k \<in> set ks"
    and scan_bounded: "\<exists>N. \<forall>ps. scan_chain Scan m n 0 ps \<longrightarrow>
      (\<forall>(s', ks, c') \<in> set ps. small content b s') \<longrightarrow> length ps \<le> N"

lemma scan_chain_append:
  "scan_chain Scan m n c (ps @ qs) \<longleftrightarrow>
     scan_chain Scan m n c ps \<and> (qs \<noteq> [] \<longrightarrow> (\<forall>(s', ks, c') \<in> set ps. c' \<noteq> 0)) \<and>
     scan_chain Scan m n (if ps = [] then c else snd (snd (last ps))) qs"
  by (induction Scan m n c ps rule: scan_chain.induct) auto

subsection \<open>The contract of a scanner\<close>

text \<open>Calling the callback page by page: the pages, each with the state in which it was served.\<close>

inductive scan_calls ::
  "('s \<Rightarrow> rcontent) \<Rightarrow> ('s \<Rightarrow> int) \<Rightarrow> ('v \<times> 's) batch_fn \<Rightarrow> 'v \<times> 's \<Rightarrow> ('s \<times> string list) list \<Rightarrow>
     error option \<Rightarrow> 'v \<times> 's \<Rightarrow> bool" for content now fn where
  finish: "scan_calls content now fn w [] None w"
| empty: "quiet content now s s' \<Longrightarrow> scan_calls content now fn (v, s') ps r w \<Longrightarrow>
    scan_calls content now fn (v, s) ((s', []) # ps) r w"
| page: "quiet content now s s' \<Longrightarrow> ks \<noteq> [] \<Longrightarrow> fn ks (v, s') = (None, w1) \<Longrightarrow>
    scan_calls content now fn w1 ps r w \<Longrightarrow> scan_calls content now fn (v, s) ((s', ks) # ps) r w"
| stop: "quiet content now s s' \<Longrightarrow> ks \<noteq> [] \<Longrightarrow> fn ks (v, s') = (Some e, w1) \<Longrightarrow>
    scan_calls content now fn (v, s) [(s', ks)] (Some e) w1"

text \<open>A callback that adds no key to the server.\<close>

definition no_new_keys :: "('s \<Rightarrow> rcontent) \<Rightarrow> ('v \<times> 's) batch_fn \<Rightarrow> bool" where
  "no_new_keys content fn \<longleftrightarrow>
     (\<forall>ks v s. dom (content (snd (snd (fn ks (v, s))))) \<subseteq> dom (content s))"

definition all_returned :: "('s \<Rightarrow> rcontent) \<Rightarrow> ('s \<Rightarrow> int) \<Rightarrow> ('s \<times> string list) list \<Rightarrow> string \<Rightarrow> bool" where
  "all_returned content now ps k \<longleftrightarrow>
     (\<forall>(s', ks) \<in> set ps. live (now s') (content s') k \<noteq> None) \<longrightarrow> (\<exists>(s', ks) \<in> set ps. k \<in> set ks)"

locale key_scanning = glob_syntax glob
  for glob :: "string \<Rightarrow> string \<Rightarrow> bool" +
  fixes content :: "'s \<Rightarrow> rcontent"
    and now :: "'s \<Rightarrow> int"
    and ScanKeys :: "'s key_scanner"
  assumes scan_keys: "no_new_keys content fn \<Longrightarrow> finite (dom (content s)) \<Longrightarrow>
      ScanKeys m fn (v, s) = (r, w) \<Longrightarrow>
      \<exists>ps. scan_calls content now fn (v, s) ps r w \<and> (\<forall>(s', ks) \<in> set ps. \<forall>k \<in> set ks. glob m k \<and> content s' k \<noteq> None) \<and>
        (r = None \<longrightarrow> (\<forall>k. glob m k \<longrightarrow> all_returned content now ps k))"

subsection \<open>The loop\<close>

text \<open>A node of a program whose own variables are \<open>'v\<close>: \<open>SCAN\<close> does not touch them.\<close>

definition at_node :: "'s node_scanner \<Rightarrow> ('v \<times> 's) node_scanner" where
  "at_node Scan c m n w = (let (r, s1) = Scan c m n (snd w) in (r, (fst w, s1)))"

context redis_scan
begin

lemma scanNode_step:
  assumes "Scan c m scanBatchSize s = (Inr (ks, c'), s')"
  shows "scanNode (at_node Scan) m fn c (v, s) =
    (case (if ks \<noteq> [] then fn ks (v, s') else (None, (v, s'))) of
       (Some e, w2) \<Rightarrow> Some (Some e, w2)
     | (None, w2) \<Rightarrow> if c' = 0 then Some (None, w2) else scanNode (at_node Scan) m fn c' w2)"
  by (subst scanNode.simps) (simp add: at_node_def assms)

lemma scan_match': "Scan c m n s = (Inr (ks, c'), s') \<Longrightarrow> k \<in> set ks \<Longrightarrow> glob m k \<and> content s' k \<noteq> None"
  using scan_match [of c m n s ks c' k] scan_quiet(1) [of c m n s] by simp

text \<open>From the pages \<open>qs\<close> served so far on: the loop ends, and what it did is a continuation of them.\<close>

lemma scanNode_run:
  assumes "no_new_keys content fn"
    and N: "\<And>ps. scan_chain Scan m scanBatchSize 0 ps \<Longrightarrow> (\<forall>(s', ks, c') \<in> set ps. small content b s') \<Longrightarrow>
      length ps \<le> N"
    and "scan_chain Scan m scanBatchSize 0 qs" "\<forall>(s', ks, c') \<in> set qs. small content b s' \<and> c' \<noteq> 0"
    and "c = (if qs = [] then 0 else snd (snd (last qs)))" "small content b s"
  shows "\<exists>r w ps. scanNode (at_node Scan) m fn c (v, s) = Some (r, w) \<and>
    scan_chain Scan m scanBatchSize 0 (qs @ ps) \<and> (r = None \<longrightarrow> ps \<noteq> [] \<and> snd (snd (last ps)) = 0) \<and>
    scan_calls content now fn (v, s) (map (\<lambda>(s', ks, c'). (s', ks)) ps) r w"
  using assms(3-6)
proof (induction "N - length qs" arbitrary: qs c v s rule: less_induct)
  case less
  obtain ks c' where "fst (Scan c m scanBatchSize s) = Inr (ks, c')" using scan_reply by blast
  then obtain s' where p: "Scan c m scanBatchSize s = (Inr (ks, c'), s')" by (metis prod.collapse)
  have q: "quiet content now s s'" using scan_quiet [where c = c and m = m and n = scanBatchSize and s = s] p by (simp add: quiet_def)
  let ?qs = "qs @ [(s', ks, c')]"
  have ch: "scan_chain Scan m scanBatchSize 0 ?qs"
    using less.prems(1-3) p by (auto simp: scan_chain_append)
  have s': "small content b s'" using less.prems(4) q by (simp add: small_def quiet_def)
  then have len: "length ?qs \<le> N" using less.prems(2) by (intro N [OF ch]) auto
  define w2 where "w2 = (if ks \<noteq> [] then snd (fn ks (v, s')) else (v, s'))"
  define e where "e = (if ks \<noteq> [] then fst (fn ks (v, s')) else None)"
  have f: "(if ks \<noteq> [] then fn ks (v, s') else (None, (v, s'))) = (e, w2)" by (simp add: w2_def e_def)
  note st = scanNode_step [OF p, of fn v, unfolded f]
  show ?case
  proof (cases e)
    case (Some err)
    then have "ks \<noteq> []" "fn ks (v, s') = (Some err, w2)" by (auto simp: e_def w2_def prod_eq_iff split: if_splits)
    with q have "scan_calls content now fn (v, s) [(s', ks)] (Some err) w2" by (rule scan_calls.stop)
    then show ?thesis
      using ch st Some by (intro exI [of _ "Some err"] exI [of _ w2] exI [of _ "[(s', ks, c')]"]) simp
  next
    case None
    have calls: "scan_calls content now fn (v, s) ((s', ks) # ps) r w" if "scan_calls content now fn w2 ps r w" for ps r w
    proof (cases "ks = []")
      case True
      with that q show ?thesis by (auto simp: w2_def intro: scan_calls.empty)
    next
      case False
      then have "fn ks (v, s') = (None, w2)" using None by (auto simp: e_def w2_def prod_eq_iff)
      with that q False show ?thesis by (auto intro: scan_calls.page)
    qed
    show ?thesis
    proof (cases "c' = 0")
      case True
      then show ?thesis
        using ch st None calls [OF scan_calls.finish]
        by (intro exI [of _ None] exI [of _ w2] exI [of _ "[(s', ks, c')]"]) simp
    next
      case False
      obtain v2 s2 where w2: "w2 = (v2, s2)" by force
      have "dom (content s2) \<subseteq> dom (content s')"
        using assms(1) w2 unfolding no_new_keys_def w2_def by (metis order_refl snd_conv)
      then have s2: "small content b s2"
        using s' unfolding small_def by (meson card_mono finite_subset order_trans)
      have "\<exists>r w ps. scanNode (at_node Scan) m fn c' (v2, s2) = Some (r, w) \<and>
        scan_chain Scan m scanBatchSize 0 (?qs @ ps) \<and> (r = None \<longrightarrow> ps \<noteq> [] \<and> snd (snd (last ps)) = 0) \<and>
        scan_calls content now fn (v2, s2) (map (\<lambda>(s', ks, c'). (s', ks)) ps) r w"
        by (rule less.hyps) (use len ch less.prems(2) s' s2 False in auto)
      then obtain r w ps where r: "scanNode (at_node Scan) m fn c' (v2, s2) = Some (r, w)"
        "scan_chain Scan m scanBatchSize 0 (?qs @ ps)" "r = None \<longrightarrow> ps \<noteq> [] \<and> snd (snd (last ps)) = 0"
        "scan_calls content now fn w2 (map (\<lambda>(s', ks, c'). (s', ks)) ps) r w" unfolding w2 by blast
      show ?thesis
        using r(1-3) st None False w2 calls [OF r(4)]
        by (intro exI [of _ r] exI [of _ w] exI [of _ "(s', ks, c') # ps"]) auto
    qed
  qed
qed

lemma scanNode_spec:
  assumes "no_new_keys content fn" "finite (dom (content s))"
  shows "\<exists>r w ps. scanNode (at_node Scan) m fn 0 (v, s) = Some (r, w) \<and>
    scan_calls content now fn (v, s) ps r w \<and> (\<forall>(s', ks) \<in> set ps. \<forall>k \<in> set ks. glob m k \<and> content s' k \<noteq> None) \<and>
    (r = None \<longrightarrow> (\<forall>k. glob m k \<longrightarrow> all_returned content now ps k))"
proof -
  let ?b = "card (dom (content s))" and ?n = scanBatchSize
  obtain N where N: "\<And>ps. scan_chain Scan m ?n 0 ps \<Longrightarrow> (\<forall>(s', ks, c') \<in> set ps. small content ?b s') \<Longrightarrow>
      length ps \<le> N" using scan_bounded [of m ?n ?b] by blast
  have "\<exists>r w ps. scanNode (at_node Scan) m fn 0 (v, s) = Some (r, w) \<and>
      scan_chain Scan m ?n 0 ([] @ ps) \<and> (r = None \<longrightarrow> ps \<noteq> [] \<and> snd (snd (last ps)) = 0) \<and>
      scan_calls content now fn (v, s) (map (\<lambda>(s', ks, c'). (s', ks)) ps) r w"
    by (rule scanNode_run [OF assms(1), where b = ?b and N = N]) (use N assms(2) in \<open>simp_all add: small_def\<close>)
  then obtain r w ps where
    r: "scanNode (at_node Scan) m fn 0 (v, s) = Some (r, w)" "scan_chain Scan m ?n 0 ps"
    "r = None \<longrightarrow> ps \<noteq> [] \<and> snd (snd (last ps)) = 0"
    "scan_calls content now fn (v, s) (map (\<lambda>(s', ks, c'). (s', ks)) ps) r w"
    unfolding append_Nil by blast
  have "glob m k \<and> content s' k \<noteq> None" if "scan_chain Scan m ?n c qs" "(s', ks, c') \<in> set qs" "k \<in> set ks" for c qs s' ks c' k
    using that
  proof (induction qs arbitrary: c)
    case (Cons p qs)
    then show ?case by (cases p) (auto dest: scan_match')
  qed simp
  with r(2) have m: "\<forall>(s', ks) \<in> set (map (\<lambda>(s', ks, c'). (s', ks)) ps). \<forall>k \<in> set ks. glob m k \<and> content s' k \<noteq> None" by fastforce
  have "all_returned content now (map (\<lambda>(s', ks, c'). (s', ks)) ps) k" if "r = None" "glob m k" for k
  proof -
    have f: "full_iteration Scan m ?n ps" using r that by (simp add: full_iteration_def)
    show ?thesis using scan_complete [OF f that(2)] by (simp add: all_returned_def case_prod_unfold)
  qed
  with r(1,4) m show ?thesis by blast
qed

end

subsection \<open>\<open>ScanAll\<close> on one node\<close>

text \<open>The wrapper that makes the first error stick changes nothing on a single node, where an error ends the loop.\<close>

lemma scanNode_serialized_step:
  assumes "(case Scan c m scanBatchSize w of
      (Inl err, w1) \<Rightarrow> (Some (WrapErr ''redisstore: scan'' err), w1, 0)
    | (Inr (ks, c'), w1) \<Rightarrow> (let (e, w2) = (if ks \<noteq> [] then fn ks w1 else (None, w1)) in (e, w2, c'))) = (e, w2, c')"
  shows "scanNode Scan m fn c w =
      (if e \<noteq> None \<or> c' = 0 then Some (e, w2) else scanNode Scan m fn c' w2)"
    and "\<exists>fe. scanNode (at_node Scan) m (serialized fn) c (None, w) =
      (if e \<noteq> None \<or> c' = 0 then Some (e, (fe, w2))
       else scanNode (at_node Scan) m (serialized fn) c' (None, w2))"
proof -
  show "scanNode Scan m fn c w =
      (if e \<noteq> None \<or> c' = 0 then Some (e, w2) else scanNode Scan m fn c' w2)"
    using assms by (subst scanNode.simps) (auto split: prod.splits sum.splits option.splits if_splits)
  have "scanNode (at_node Scan) m (serialized fn) c (None, w) =
      (if e \<noteq> None \<or> c' = 0 then Some (e, (if isl (fst (Scan c m scanBatchSize w)) then None else e, w2))
       else scanNode (at_node Scan) m (serialized fn) c' (None, w2))"
    using assms by (subst scanNode.simps)
      (auto simp: at_node_def serialized_def split: prod.splits sum.splits option.splits if_splits)
  then show "\<exists>fe. scanNode (at_node Scan) m (serialized fn) c (None, w) =
      (if e \<noteq> None \<or> c' = 0 then Some (e, (fe, w2))
       else scanNode (at_node Scan) m (serialized fn) c' (None, w2))" by metis
qed

lemma scanNode_serialized:
  assumes "scanNode Scan m fn c w = Some rw"
  shows "\<exists>fe. scanNode (at_node Scan) m (serialized fn) c (None, w) = Some (fst rw, (fe, snd rw))"
  using assms
proof (induction rule: scanNode.raw_induct [where P = "\<lambda>Scan m fn c w rw.
    \<exists>fe. scanNode (at_node Scan) m (serialized fn) c (None, w) = Some (fst rw, (fe, snd rw))", rotated, consumes 1, case_names 1])
  case (1 rec S m' f' c0 w0 y)
  obtain e w2 c' where st: "(case S c0 m' scanBatchSize w0 of
      (Inl err, w1) \<Rightarrow> (Some (WrapErr ''redisstore: scan'' err), w1, 0)
    | (Inr (ks, c'), w1) \<Rightarrow> (let (e, w2) = (if ks \<noteq> [] then f' ks w1 else (None, w1)) in (e, w2, c'))) = (e, w2, c')"
    by (rule prod_cases3) (rule that)
  have y: "(if e \<noteq> None \<or> c' = 0 then Some (e, w2) else rec S m' f' c' w2) = Some y"
  proof (cases "S c0 m' scanBatchSize w0")
    case (Pair p w1)
    show ?thesis
    proof (cases p)
      case (Inr q)
      obtain ks n where q: "q = (ks, n)" by force
      obtain e0 w20 where f: "(if ks \<noteq> [] then f' ks w1 else (None, w1)) = (e0, w20)" by force
      show ?thesis using 1(2) st unfolding Pair Inr q by (cases e0) (auto simp: f split: if_splits)
    qed (use 1(2) st Pair in simp)
  qed
  obtain fe where fe: "scanNode (at_node S) m' (serialized f') c0 (None, w0) =
      (if e \<noteq> None \<or> c' = 0 then Some (e, (fe, w2))
       else scanNode (at_node S) m' (serialized f') c' (None, w2))"
    using scanNode_serialized_step(2) [where Scan = S and m = m' and fn = f' and c = c0 and w = w0, OF st] by blast
  show ?case
  proof (cases "e \<noteq> None \<or> c' = 0")
    case True
    then show ?thesis using y fe by auto
  next
    case False
    then have "rec S m' f' c' w2 = Some y" using y by simp
    from 1(1) [OF this] fe False show ?thesis by auto
  qed
qed

definition node_client :: "'s node_scanner \<Rightarrow> (error option \<times> ('v \<times> 's)) UniversalClient" where
  "node_client Scan = \<lparr>uc_Scan = at_node (at_node Scan), uc_ForEachMaster = None\<rparr>"

text \<open>\<open>ScanKeys\<close> of a connection as the comment on \<open>ScanAll\<close> has it: one call of \<open>ScanAll\<close> on the client.\<close>

definition ScanKeys_all :: "'s node_scanner \<Rightarrow> 's key_scanner" where
  "ScanKeys_all Scan m fn w = the (ScanAll (node_client Scan) m fn w)"

lemma ScanAll_node:
  "scanNode (at_node Scan) m fn 0 w = Some rw \<Longrightarrow> ScanAll (node_client Scan) m fn w = Some rw"
  using scanNode_serialized [of "at_node Scan" m fn 0 w rw] by (cases rw) (auto simp: ScanAll_def node_client_def)

sublocale redis_scan \<subseteq> key_scanning glob content now "ScanKeys_all Scan"
proof unfold_locales
  fix fn :: "(scan_vars \<times> 's) batch_fn" and s :: 's and m v r w
  assume a: "no_new_keys content fn" "finite (dom (content s))" "ScanKeys_all Scan m fn (v, s) = (r, w)"
  from scanNode_spec [OF a(1,2), of m v] obtain r' w' ps where
    p: "scanNode (at_node Scan) m fn 0 (v, s) = Some (r', w')" "scan_calls content now fn (v, s) ps r' w'"
    "\<forall>(s', ks) \<in> set ps. \<forall>k \<in> set ks. glob m k \<and> content s' k \<noteq> None" "r' = None \<longrightarrow> (\<forall>k. glob m k \<longrightarrow> all_returned content now ps k)"
    by blast
  with ScanAll_node [OF p(1)] a(3) show "\<exists>ps. scan_calls content now fn (v, s) ps r w \<and>
      (\<forall>(s', ks) \<in> set ps. \<forall>k \<in> set ks. glob m k \<and> content s' k \<noteq> None) \<and> (r = None \<longrightarrow> (\<forall>k. glob m k \<longrightarrow> all_returned content now ps k))"
    by (auto simp: ScanKeys_all_def)
qed

end
