(* ===== verification/Redis_Prefix.thy ===== *)
theory Redis_Prefix
  imports Redis_Client Redis_Scan
begin

text \<open>
  Prefix eviction on Redis: \<open>DeleteByPrefix\<close> of the plain store and \<open>evictByPrimaryPrefix\<close> of the
  alias strategies, on a connection that keeps \<open>redis_client\<close> and whose scanner keeps
  \<open>key_scanning\<close>, with no other client at work.
\<close>

subsection \<open>Deleting\<close>

text \<open>From \<open>w\<close> to \<open>w'\<close> the keys \<open>K\<close> were deleted, and those that had not expired were counted.\<close>

definition deletes ::
  "('s \<Rightarrow> rcontent) \<Rightarrow> ('s \<Rightarrow> int) \<Rightarrow> string set \<Rightarrow> scan_vars \<times> 's \<Rightarrow> scan_vars \<times> 's \<Rightarrow> bool" where
  "deletes content now K w w' \<longleftrightarrow>
     (\<forall>k. content (snd w') k = (if k \<in> K then None else content (snd w) k)) \<and>
     now (snd w) \<le> now (snd w') \<and> sv_errs (fst w') = sv_errs (fst w) \<and>
     (\<exists>D. finite D \<and> {k \<in> K. live (now (snd w')) (content (snd w)) k \<noteq> None} \<subseteq> D \<and>
        D \<subseteq> {k \<in> K. live (now (snd w)) (content (snd w)) k \<noteq> None} \<and>
        sv_deleted (fst w') = sv_deleted (fst w) + int (card D))"

lemma deletes_content:
  "deletes content now K w w' \<Longrightarrow> content (snd w') k = (if k \<in> K then None else content (snd w) k)"
  by (simp add: deletes_def)

lemma deletes_quiet: "quiet content now s s' \<Longrightarrow> deletes content now {} (v, s) (v, s')"
  by (auto simp: deletes_def quiet_def)

lemma live_at_eq: "c' k = c k \<Longrightarrow> live t c' k = live t c k"
  by (simp add: live_def)

lemma live_None: "c k = None \<Longrightarrow> live t c k = None"
  by (simp add: live_def)

lemma live_not_later: "t \<le> t' \<Longrightarrow> live t' c k \<noteq> None \<Longrightarrow> live t c k \<noteq> None"
  using live_later [of t t' c k] by force

lemma deletes_trans:
  assumes "deletes content now K1 w w1" "deletes content now K2 w1 w2"
  shows "deletes content now (K1 \<union> K2) w w2"
proof -
  obtain D1 where d1: "finite D1" "{k \<in> K1. live (now (snd w1)) (content (snd w)) k \<noteq> None} \<subseteq> D1"
    "D1 \<subseteq> {k \<in> K1. live (now (snd w)) (content (snd w)) k \<noteq> None}"
    "sv_deleted (fst w1) = sv_deleted (fst w) + int (card D1)" using assms(1) unfolding deletes_def by auto
  obtain D2 where d2: "finite D2" "{k \<in> K2. live (now (snd w2)) (content (snd w1)) k \<noteq> None} \<subseteq> D2"
    "D2 \<subseteq> {k \<in> K2. live (now (snd w1)) (content (snd w1)) k \<noteq> None}"
    "sv_deleted (fst w2) = sv_deleted (fst w1) + int (card D2)" using assms(2) unfolding deletes_def by auto
  have c: "content (snd w1) k = (if k \<in> K1 then None else content (snd w) k)" for k
    using assms(1) unfolding deletes_def by auto
  have t: "now (snd w) \<le> now (snd w1)" "now (snd w1) \<le> now (snd w2)"
    using assms unfolding deletes_def by auto
  have l: "k \<in> K1 \<Longrightarrow> live x (content (snd w1)) k = None"
    "k \<notin> K1 \<Longrightarrow> live x (content (snd w1)) k = live x (content (snd w)) k" for x k
    using c by (simp_all add: live_def)
  have d2': "D2 \<subseteq> {k \<in> K2 - K1. live (now (snd w)) (content (snd w)) k \<noteq> None}"
  proof
    fix k assume "k \<in> D2"
    then have k: "k \<in> K2" "live (now (snd w1)) (content (snd w1)) k \<noteq> None" using d2(3) by auto
    then have "k \<notin> K1" using l(1) by auto
    with k l(2) live_not_later [OF t(1)] show "k \<in> {k \<in> K2 - K1. live (now (snd w)) (content (snd w)) k \<noteq> None}"
      by simp
  qed
  have low: "k \<in> D1 \<union> D2" if k: "k \<in> K1 \<union> K2" "live (now (snd w2)) (content (snd w)) k \<noteq> None" for k
  proof (cases "k \<in> K1")
    case True
    with live_not_later [OF t(2) k(2)] d1(2) show ?thesis by blast
  next
    case False
    with k l(2) have "live (now (snd w2)) (content (snd w1)) k \<noteq> None" by simp
    with k(1) False d2(2) show ?thesis by blast
  qed
  have card: "card (D1 \<union> D2) = card D1 + card D2"
    using d1(1,3) d2(1) d2' by (intro card_Un_disjoint) auto
  have "finite (D1 \<union> D2) \<and> {k \<in> K1 \<union> K2. live (now (snd w2)) (content (snd w)) k \<noteq> None} \<subseteq> D1 \<union> D2 \<and>
      D1 \<union> D2 \<subseteq> {k \<in> K1 \<union> K2. live (now (snd w)) (content (snd w)) k \<noteq> None} \<and>
      sv_deleted (fst w2) = sv_deleted (fst w) + int (card (D1 \<union> D2))"
    using d1(1,3,4) d2(1,4) d2' low card by auto
  moreover have "content (snd w2) k = (if k \<in> K1 \<union> K2 then None else content (snd w) k)" for k
    using assms(2) c unfolding deletes_def by auto
  ultimately show ?thesis using assms t unfolding deletes_def by auto
qed

context redis_client
begin

lemma delete_key: "rc_Del conn [k] s = (Inr n, s1) \<Longrightarrow> deletes content now {k} (v, s) (v\<lparr>sv_deleted := sv_deleted v + n\<rparr>, s1)"
proof -
  assume a: "rc_Del conn [k] s = (Inr n, s1)"
  let ?l = "live (now (arrive s)) (content s) k"
  have s1: "content s1 = (content s)(k := None)" "now s1 = now (arrive s)" "n = (if ?l = None then 0 else 1)"
    using a DEL [of k "arrive s"] by (auto simp: conn_Del arrive)
  have "\<exists>D. finite D \<and> {q \<in> {k}. live (now s1) (content s) q \<noteq> None} \<subseteq> D \<and>
      D \<subseteq> {q \<in> {k}. live (now s) (content s) q \<noteq> None} \<and> n = int (card D)"
    using live_not_later [OF arrive(1) [of s], of "content s" k] s1(2,3)
    by (intro exI [of _ "if ?l = None then {} else {k}"]) auto
  then show ?thesis using s1(1,2) arrive(1) [of s] by (auto simp: deletes_def)
qed

lemma delete_batch_run:
  "fst (delete_batch conn ks (v, s)) = None \<and> deletes content now (set ks) (v, s) (snd (delete_batch conn ks (v, s)))"
proof (induction ks arbitrary: v s)
  case Nil
  show ?case using deletes_quiet [OF quiet_refl, of content now v s] by simp
next
  case (Cons k ks)
  obtain n s1 where d: "rc_Del conn [k] s = (Inr n, s1)"
    using DEL(1) [of k "arrive s"] by (metis conn_Del prod.collapse)
  let ?v = "v\<lparr>sv_deleted := sv_deleted v + n\<rparr>"
  have b: "delete_batch conn (k # ks) (v, s) = delete_batch conn ks (?v, s1)" by (simp add: d)
  have "deletes content now ({k} \<union> set ks) (v, s) (snd (delete_batch conn ks (?v, s1)))"
    using Cons.IH [of ?v s1] by (intro deletes_trans [OF delete_key [OF d, of v]]) simp
  then show ?case using Cons.IH [of ?v s1] by (simp only: b) simp
qed

lemma delete_batch_no_new_keys: "no_new_keys content (delete_batch conn)"
  unfolding no_new_keys_def
proof (intro allI subsetI)
  fix ks v s k assume "k \<in> dom (content (snd (snd (delete_batch conn ks (v, s)))))"
  then show "k \<in> dom (content s)"
    using deletes_content [OF conjunct2 [OF delete_batch_run [of ks v s]], of k] by (simp add: dom_def split: if_splits)
qed

lemma delete_scan:
  "scan_calls content now (delete_batch conn) w ps r w' \<Longrightarrow>
     r = None \<and> deletes content now (\<Union> (set ` snd ` set ps)) w w' \<and>
     (\<forall>(s', ks) \<in> set ps. now s' \<le> now (snd w') \<and>
        (\<forall>k. k \<notin> \<Union> (set ` snd ` set ps) \<longrightarrow> content s' k = content (snd w) k))"
proof (induction rule: scan_calls.induct)
  case (finish w)
  show ?case using deletes_quiet [OF quiet_refl, of content now "fst w" "snd w"] by simp
next
  case (empty s s' v ps r w)
  note d = deletes_trans [OF deletes_quiet [OF empty(1), of v]]
  show ?case using empty(1,3) d [of "\<Union> (set ` snd ` set ps)" w]
    by (auto simp: quiet_def deletes_def)
next
  case (page s s' ks v w1 ps r w)
  have b: "deletes content now (set ks) (v, s') w1" using delete_batch_run [of ks v s'] page(3) by simp
  note d = deletes_trans [OF deletes_trans [OF deletes_quiet [OF page(1), of v] b]]
  have d': "deletes content now (\<Union> (set ` snd ` set ((s', ks) # ps))) (v, s) w"
    using d [of "\<Union> (set ` snd ` set ps)" w] page.IH by simp
  have "now s' \<le> now (snd w1)" "now (snd w1) \<le> now (snd w)"
    "k \<notin> set ks \<Longrightarrow> content (snd w1) k = content s k" "content s' = content s" for k
    using b page.IH page(1) by (auto simp: deletes_def quiet_def)
  note f = this
  have "now t \<le> now (snd w) \<and> (\<forall>k. k \<notin> \<Union> (set ` snd ` set ((s', ks) # ps)) \<longrightarrow> content t k = content s k)"
    if "(t, qs) \<in> set ((s', ks) # ps)" for t qs
  proof (cases "(t, qs) = (s', ks)")
    case True
    then show ?thesis using f by auto
  next
    case False
    then have "(t, qs) \<in> set ps" using that by auto
    with page.IH have "now t \<le> now (snd w)" "\<forall>k. k \<notin> \<Union> (set ` snd ` set ps) \<longrightarrow> content t k = content (snd w1) k"
      by auto
    then show ?thesis using f(3) by simp
  qed
  then show ?case using d' page.IH by auto
next
  case (stop s s' ks v e w1)
  then show ?case using delete_batch_run [of ks v s'] by simp
qed

end

locale redis_prefix = redis_client R content now conn arrive + key_scanning glob content now ScanKeys
  for R :: "'s redis_cmds" and content :: "'s \<Rightarrow> rcontent" and now :: "'s \<Rightarrow> int"
    and conn :: "'s RedisConn" and arrive :: "'s \<Rightarrow> 's"
    and glob :: "string \<Rightarrow> string \<Rightarrow> bool" and ScanKeys :: "'s key_scanner" +
  assumes conn_ScanKeys: "rc_ScanKeys conn = Some ScanKeys"
begin

lemma DeleteByPrefix_result:
  assumes "finite (dom (content s))" "valid_utf8 p" "redis_DeleteByPrefix conn p s = ((n, err), s')"
  shows "err = None" "now s \<le> now s'"
    and "prefix p k \<Longrightarrow> live (now s') (content s') k = None"
    and "\<not> prefix p k \<Longrightarrow> content s' k = content s k"
    and "int (card {k. prefix p k \<and> live (now s') (content s) k \<noteq> None}) \<le> n"
    and "n \<le> int (card {k. prefix p k \<and> live (now s) (content s) k \<noteq> None})"
proof -
  obtain r v where w: "ScanKeys (globLiteral p @ ''*'') (delete_batch conn) (no_vars, s) = (r, (v, s'))"
    using assms(3) by (auto simp: redis_DeleteByPrefix_def conn_ScanKeys split: prod.splits option.splits)
  from scan_keys [OF delete_batch_no_new_keys assms(1) w] obtain ps where ps:
    "scan_calls content now (delete_batch conn) (no_vars, s) ps r (v, s')"
    "\<forall>(s1, ks) \<in> set ps. \<forall>k \<in> set ks. prefix p k"
    "r = None \<longrightarrow> (\<forall>k. prefix p k \<longrightarrow> all_returned content now ps k)"
    unfolding glob_prefix [OF assms(2)] by blast
  let ?K = "\<Union> (set ` snd ` set ps)"
  note d = delete_scan [OF ps(1)]
  have del: "deletes content now ?K (no_vars, s) (v, s')" and r: "r = None" using d by auto
  have e: "sv_errs v = []" using del by (simp add: deletes_def no_vars_def)
  have n: "err = None" "n = sv_deleted v"
    using assms(3) r e by (simp_all add: redis_DeleteByPrefix_def conn_ScanKeys w errors_Join_def)
  show "err = None" by (rule n(1))
  show t: "now s \<le> now s'" using del by (simp add: deletes_def)
  have c: "content s' k = (if k \<in> ?K then None else content s k)" for k using deletes_content [OF del, of k] by simp
  have sub: "k \<in> ?K \<Longrightarrow> prefix p k" for k using ps(2) by auto
  have all: "k \<in> ?K" if k: "prefix p k" "live (now s') (content s) k \<noteq> None" for k
  proof (rule ccontr)
    assume nk: "k \<notin> ?K"
    have "live (now s1) (content s1) k \<noteq> None" if p: "(s1, ks) \<in> set ps" for s1 ks
    proof -
      have "now s1 \<le> now s'" "content s1 k = content s k" using d p nk by fastforce+
      with live_not_later [OF this(1) k(2)] show ?thesis using live_at_eq [of "content s1" k "content s"] by simp
    qed
    then have "\<exists>(s1, ks) \<in> set ps. k \<in> set ks" using ps(3) r k(1) unfolding all_returned_def by blast
    with nk show False by auto
  qed
  show "prefix p k \<Longrightarrow> live (now s') (content s') k = None"
    using all [of k] c [of k] live_None [of "content s'" k] live_at_eq [of "content s'" k "content s" "now s'"]
    by (cases "k \<in> ?K"; cases "live (now s') (content s) k") auto
  show "\<not> prefix p k \<Longrightarrow> content s' k = content s k" using c sub by auto
  obtain D where D: "finite D" "{k \<in> ?K. live (now s') (content s) k \<noteq> None} \<subseteq> D"
    "D \<subseteq> {k \<in> ?K. live (now s) (content s) k \<noteq> None}" "n = int (card D)"
    using del n(2) by (auto simp: deletes_def no_vars_def)
  show "int (card {k. prefix p k \<and> live (now s') (content s) k \<noteq> None}) \<le> n"
    using D(1,2,4) all by (auto intro!: card_mono)
  have fin: "finite {k. prefix p k \<and> live (now s) (content s) k \<noteq> None}"
    by (rule finite_subset [OF _ assms(1)]) (auto simp: live_Some)
  have "D \<subseteq> {k. prefix p k \<and> live (now s) (content s) k \<noteq> None}" using D(3) sub by auto
  then show "n \<le> int (card {k. prefix p k \<and> live (now s) (content s) k \<noteq> None})"
    using D(4) card_mono [OF fin] by auto
qed

end

subsection \<open>Records of a colocated group\<close>

lemma collect_batch_run:
  "collect_batch pof pfx ks (v, s) =
     (None, (v\<lparr>sv_pks := sv_pks v |\<union>| fset_of_list [fst (pof k). k \<leftarrow> ks, snd (pof k) \<and> HasPrefix (fst (pof k)) pfx]\<rparr>, s))"
proof (induction ks arbitrary: v)
  case (Cons k ks)
  show ?case by (cases "pof k") (simp add: Cons.IH)
qed simp

lemma collect_no_new_keys: "no_new_keys content (collect_batch pof pfx)"
  by (simp add: no_new_keys_def collect_batch_run)

lemma collect_scan:
  assumes "scan_calls content now (collect_batch pof pfx) w ps r w'"
  shows "r = None \<and> quiet content now (snd w) (snd w') \<and>
    (\<forall>(s', ks) \<in> set ps. quiet content now (snd w) s' \<and> now s' \<le> now (snd w')) \<and>
    (\<forall>pk. pk |\<in>| sv_pks (fst w') \<longleftrightarrow> pk |\<in>| sv_pks (fst w) \<or>
       (\<exists>(s', ks) \<in> set ps. \<exists>k \<in> set ks. pof k = (pk, True) \<and> HasPrefix pk pfx))"
  using assms
proof (induction rule: scan_calls.induct)
  case (finish w)
  show ?case by simp
next
  case (empty s s' v ps r w)
  then show ?case by (fastforce simp: quiet_def)
next
  case (page s s' ks v w1 ps r w)
  have w: "w1 = (v\<lparr>sv_pks := sv_pks v |\<union>| fset_of_list [fst (pof k). k \<leftarrow> ks, snd (pof k) \<and> HasPrefix (fst (pof k)) pfx]\<rparr>, s')"
    using page(3) unfolding collect_batch_run by simp
  have w1: "snd w1 = s'" "pk |\<in>| sv_pks (fst w1) \<longleftrightarrow> pk |\<in>| sv_pks v \<or> (\<exists>k \<in> set ks. pof k = (pk, True) \<and> HasPrefix pk pfx)" for pk
    unfolding w by (auto simp: fset_of_list_elem prod_eq_iff)
  have q: "quiet content now s s'" by (rule page(1))
  note IH = page.IH [unfolded w1(1)]
  have "quiet content now s t \<and> now t \<le> now (snd w)" if "(t, qs) \<in> set ((s', ks) # ps)" for t qs
    using that IH q by (fastforce simp: quiet_def)
  moreover have "quiet content now s (snd w)" using IH q by (auto simp: quiet_def)
  moreover have "pk |\<in>| sv_pks (fst w) \<longleftrightarrow> pk |\<in>| sv_pks v \<or>
      (\<exists>(s', ks) \<in> set ((s', ks) # ps). \<exists>k \<in> set ks. pof k = (pk, True) \<and> HasPrefix pk pfx)" for pk
    using IH by (auto simp: w1(2))
  ultimately show ?case using IH by auto
next
  case (stop s s' ks v e w1)
  then show ?case by (simp add: collect_batch_run)
qed

text \<open>What is left of a group at \<open>t\<close> when the records \<open>pks\<close> were evicted.\<close>

definition co_without :: "string \<Rightarrow> string set \<Rightarrow> rcontent \<Rightarrow> rcontent \<Rightarrow> bool" where
  "co_without ns pks L L' \<longleftrightarrow>
     (\<forall>q. L' (ValueKey ns q False) = (if q \<in> pks then None else L (ValueKey ns q False)) \<and>
        L' (MembersKey ns q False) = (if q \<in> pks then None else L (MembersKey ns q False))) \<and>
     (\<forall>t. L' (tail_key ns t False) =
        (if rv_text (L (tail_key ns t False)) \<in> Some ` pks then None else L (tail_key ns t False)))"

lemma co_without_empty [simp]: "co_without ns {} L L"
  by (simp add: co_without_def)

lemma co_without_insert:
  "co_without ns {pk} L L1 \<Longrightarrow> co_without ns pks L1 L2 \<Longrightarrow> co_without ns (insert pk pks) L L2"
  by (auto simp: co_without_def)

lemma co_without_live:
  assumes "co_without ns pks L L'"
  shows "co_without ns pks (live t L) (live t L')"
proof -
  have e: "live t c k = (if c k = None then None else live t (\<lambda>_. c k) k)" for c k by (simp add: live_def)
  have n: "rv_text (live t L k) \<in> Some ` pks \<Longrightarrow> rv_text (L k) \<in> Some ` pks" for k
    using live_or [of t L k] by auto
  have m: "rv_text (L k) \<in> Some ` pks \<Longrightarrow> rv_text (live t L k) \<notin> Some ` pks \<Longrightarrow> live t L k = None" for k
    using live_or [of t L k] by auto
  show ?thesis
    unfolding co_without_def
  proof (intro conjI allI)
    fix q
    show "live t L' (ValueKey ns q False) = (if q \<in> pks then None else live t L (ValueKey ns q False))"
      "live t L' (MembersKey ns q False) = (if q \<in> pks then None else live t L (MembersKey ns q False))"
      using assms unfolding co_without_def by (auto intro: live_None live_at_eq)
  next
    fix x
    let ?k = "tail_key ns x False"
    have k: "L' ?k = (if rv_text (L ?k) \<in> Some ` pks then None else L ?k)" using assms unfolding co_without_def by blast
    show "live t L' ?k = (if rv_text (live t L ?k) \<in> Some ` pks then None else live t L ?k)"
    proof (cases "rv_text (L ?k) \<in> Some ` pks")
      case True
      with k have "L' ?k = None" by simp
      with m [OF True] live_None [of L' ?k t] show ?thesis by auto
    next
      case False
      with k have "L' ?k = L ?k" by simp
      then have "live t L' ?k = live t L ?k" by (rule live_at_eq)
      with n [of ?k] False show ?thesis by auto
    qed
  qed
qed

context redis_client
begin

lemma evict_sorted_co:
  assumes "co_ok content now (co_ns o1) s" "co_conn o1 = conn"
  shows "\<exists>s'. evict_sorted (co_EvictByPrimary o1) pks n errs s = ((n + int (length pks), errs), s') \<and>
    now s \<le> now s' \<and> co_ok content now (co_ns o1) s' \<and>
    co_without (co_ns o1) (set pks) (live (now s') (content s)) (live (now s') (content s'))"
  using assms(1)
proof (induction pks arbitrary: n s)
  case (Cons pk pks)
  let ?ns = "co_ns o1"
  note i = co_typed_arrive [OF Cons.prems]
  note ev = co_EvictByPrimary_result [OF co_invD(1) [OF i] assms(2), of pk]
  obtain s1 where s1: "co_EvictByPrimary o1 pk s = (None, s1)" using ev(1) by (metis prod.collapse)
  then have t1: "now s1 = now (arrive s)"
    and l1: "live (now s1) (content s1) = co_evict_live ?ns pk (live (now s1) (content s))"
    using ev by simp_all
  have ok1: "co_ok content now ?ns s1"
    using co_inv_evict [OF i, of pk] l1 t1 by (simp add: co_ok_def)
  from Cons.IH [OF ok1, of "n + 1"] obtain s' where s': "evict_sorted (co_EvictByPrimary o1) pks (n + 1) errs s1 =
      ((n + 1 + int (length pks), errs), s')" "now s1 \<le> now s'" "co_ok content now ?ns s'"
    "co_without ?ns (set pks) (live (now s') (content s1)) (live (now s') (content s'))" by blast
  have "co_without ?ns {pk} (live (now s1) (content s)) (live (now s1) (content s1))"
    using evict_live [OF i [folded t1], of pk] unfolding l1 co_without_def by auto
  from co_without_live [OF this, of "now s'"]
  have "co_without ?ns {pk} (live (now s') (content s)) (live (now s') (content s1))"
    by (simp add: live_later_eq s'(2))
  from co_without_insert [OF this s'(4)] s' t1 arrive(1) [of s] s1 show ?case by auto
qed simp

end

lemma valid_utf8_match:
  assumes "valid_utf8 ns" "valid_utf8 p"
  shows "valid_utf8 (Prefix (ValueMatch ns p sh))" "valid_utf8 (Suffix (ValueMatch ns p sh))"
    "valid_utf8 (Prefix (MembersMatch ns p sh))" "valid_utf8 (Suffix (MembersMatch ns p sh))"
proof -
  have lit: "valid_utf8 ''bc::{''" "valid_utf8 ''}::''" "valid_utf8 ''::''" "valid_utf8 ''}''" "valid_utf8 []"
    "valid_utf8 ''bc::memb::{''" by (auto intro!: valid_utf8_ascii)
  have v: "Prefix (ValueMatch ns p sh) = (if sh then ''bc::{'' @ ns @ ''::'' @ p else ''bc::{'' @ ns @ ''}::'' @ p)"
    "Prefix (MembersMatch ns p sh) =
       (if sh then ''bc::memb::{'' @ ns @ ''::'' @ p else ''bc::memb::{'' @ ns @ ''}::'' @ p)"
    "Suffix (ValueMatch ns p sh) = (if sh then ''}'' else [])" "Suffix (MembersMatch ns p sh) = (if sh then ''}'' else [])"
    by (simp_all add: ValueMatch_def MembersMatch_def key_defs)
  show "valid_utf8 (Prefix (ValueMatch ns p sh))" "valid_utf8 (Suffix (ValueMatch ns p sh))"
    "valid_utf8 (Prefix (MembersMatch ns p sh))" "valid_utf8 (Suffix (MembersMatch ns p sh))"
    unfolding v using lit assms by (auto simp del: append.simps intro!: valid_utf8_append)
qed

context redis_prefix
begin

text \<open>One of the two scans: every key of the family that lives to the end is collected, and only keys that exist.\<close>

lemma collect_keys:
  assumes "finite (dom (content s))" "valid_utf8 (Prefix m)" "valid_utf8 (Suffix m)"
    and "\<And>k. Match_Contains m k \<longleftrightarrow> (\<exists>pk. k = key pk \<and> HasPrefix pk p)"
    and "\<And>k pk. pof k = (pk, True) \<longleftrightarrow> k = key pk"
    and "ScanKeys (matchPattern m) (collect_batch pof p) (v, s) = (r, (v', s'))"
  shows "r = None \<and> quiet content now s s' \<and> sv_pks v |\<subseteq>| sv_pks v' \<and>
    (\<forall>pk. pk |\<in>| sv_pks v' \<longrightarrow> pk |\<in>| sv_pks v \<or> prefix p pk \<and> content s (key pk) \<noteq> None) \<and>
    (\<forall>pk. prefix p pk \<longrightarrow> live (now s') (content s) (key pk) \<noteq> None \<longrightarrow> pk |\<in>| sv_pks v')"
proof -
  from scan_keys [OF collect_no_new_keys assms(1,6)] obtain ps where ps:
    "scan_calls content now (collect_batch pof p) (v, s) ps r (v', s')"
    "\<forall>(s1, ks) \<in> set ps. \<forall>k \<in> set ks. (\<exists>pk. k = key pk \<and> HasPrefix pk p) \<and> content s1 k \<noteq> None"
    "r = None \<longrightarrow> (\<forall>k. (\<exists>pk. k = key pk \<and> HasPrefix pk p) \<longrightarrow> all_returned content now ps k)"
    unfolding glob_match [OF assms(2,3)] assms(4) by blast
  note c = collect_scan [OF ps(1), unfolded fst_conv snd_conv]
  then have r: "r = None" and q: "quiet content now s s'"
    and pks: "pk |\<in>| sv_pks v' \<longleftrightarrow> pk |\<in>| sv_pks v \<or> (\<exists>(s1, ks) \<in> set ps. key pk \<in> set ks \<and> HasPrefix pk p)" for pk
    by (auto simp: assms(5))
  have pg: "content s1 = content s \<and> now s1 \<le> now s'" if "(s1, ks) \<in> set ps" for s1 ks
    using c that by (auto simp: quiet_def)
  have "prefix p pk \<and> content s (key pk) \<noteq> None" if "pk |\<in>| sv_pks v'" "pk |\<notin>| sv_pks v" for pk
    using that ps(2) pg unfolding pks by (fastforce simp: HasPrefix_def)
  moreover have "pk |\<in>| sv_pks v'" if k: "prefix p pk" "live (now s') (content s) (key pk) \<noteq> None" for pk
  proof -
    have "all_returned content now ps (key pk)" using ps(3) r k(1) by (auto simp: HasPrefix_def)
    moreover have "live (now s1) (content s1) (key pk) \<noteq> None" if "(s1, ks) \<in> set ps" for s1 ks
      using pg [OF that] live_not_later [OF _ k(2)] by auto
    ultimately have "\<exists>(s1, ks) \<in> set ps. key pk \<in> set ks" unfolding all_returned_def by blast
    with k(1) show ?thesis unfolding pks by (auto simp: HasPrefix_def)
  qed
  ultimately show ?thesis using r q pks by auto
qed

lemma collected_primaries:
  assumes "finite (dom (content s))" "valid_utf8 ns" "valid_utf8 p"
    and "ScanKeys (matchPattern (ValueMatch ns p sh)) (collect_batch (\<lambda>key. PrimaryFromValueKey ns key sh) p)
      (no_vars, s) = (r1, (v1, s1))"
    and "ScanKeys (matchPattern (MembersMatch ns p sh)) (collect_batch (\<lambda>key. PrimaryFromMembersKey ns key sh) p)
      (v1, s1) = (r2, (v2, s2))"
  shows "r1 = None" "r2 = None" "quiet content now s s2"
    and "pk |\<in>| sv_pks v2 \<Longrightarrow>
      prefix p pk \<and> (content s (ValueKey ns pk sh) \<noteq> None \<or> content s (MembersKey ns pk sh) \<noteq> None)"
    and "prefix p pk \<Longrightarrow> live (now s2) (content s) (ValueKey ns pk sh) \<noteq> None \<or>
      live (now s2) (content s) (MembersKey ns pk sh) \<noteq> None \<Longrightarrow> pk |\<in>| sv_pks v2"
proof -
  note c1 = collect_keys [OF assms(1) valid_utf8_match(1,2) [OF assms(2,3)] ValueMatch_Contains_iff
      PrimaryFromValueKey_True_iff assms(4)]
  then have q1: "content s1 = content s" "now s \<le> now s1" by (auto simp: quiet_def)
  have fin: "finite (dom (content s1))" by (simp add: q1 assms(1))
  note c2 = collect_keys [OF fin valid_utf8_match(3,4) [OF assms(2,3)] MembersMatch_Contains_iff
      PrimaryFromMembersKey_True_iff assms(5), unfolded q1(1)]
  show "r1 = None" "r2 = None" using c1 c2 by simp_all
  show "quiet content now s s2" using c2 q1 by (auto simp: quiet_def)
  show "pk |\<in>| sv_pks v2 \<Longrightarrow>
      prefix p pk \<and> (content s (ValueKey ns pk sh) \<noteq> None \<or> content s (MembersKey ns pk sh) \<noteq> None)"
    using c1 c2 by (auto simp: no_vars_def)
  have t: "now s1 \<le> now s2" using c2 by (simp add: quiet_def)
  show "prefix p pk \<Longrightarrow> live (now s2) (content s) (ValueKey ns pk sh) \<noteq> None \<or>
      live (now s2) (content s) (MembersKey ns pk sh) \<noteq> None \<Longrightarrow> pk |\<in>| sv_pks v2"
    using c1 c2 live_not_later [OF t, of "content s" "ValueKey ns pk sh"] by blast
qed

text \<open>
  The sweep over any eviction \<open>evict\<close> whose effect on a state that satisfies \<open>ok\<close> is \<open>without\<close> the evicted
  records: it evicts a set \<open>C\<close> of records that had a key, and every one that has one to the end.
\<close>

lemma evictByPrimaryPrefix_run:
  assumes "finite (dom (content s))" "valid_utf8 ns" "valid_utf8 p" "ok s"
    and quiet: "\<And>s1. quiet content now s s1 \<Longrightarrow> ok s1"
    and evict: "\<And>s pks. ok s \<Longrightarrow> \<exists>s'. evict_sorted evict pks 0 [] s = ((int (length pks), []), s') \<and> now s \<le> now s' \<and>
      without (set pks) (live (now s') (content s)) (live (now s') (content s'))"
    and run: "evictByPrimaryPrefix conn ns sh p evict s = ((n, err), s')"
  shows "\<exists>C. err = None \<and> now s \<le> now s' \<and> without C (live (now s') (content s)) (live (now s') (content s')) \<and>
    (\<forall>pk \<in> C. prefix p pk \<and> (content s (ValueKey ns pk sh) \<noteq> None \<or> content s (MembersKey ns pk sh) \<noteq> None)) \<and>
    (\<forall>pk. prefix p pk \<longrightarrow> live (now s') (content s) (ValueKey ns pk sh) \<noteq> None \<or>
      live (now s') (content s) (MembersKey ns pk sh) \<noteq> None \<longrightarrow> pk \<in> C) \<and>
    int (card {pk. prefix p pk \<and> live (now s') (content s) (ValueKey ns pk sh) \<noteq> None}) \<le> n \<and>
    n \<le> int (card {pk. prefix p pk \<and> (content s (ValueKey ns pk sh) \<noteq> None \<or> content s (MembersKey ns pk sh) \<noteq> None)})"
proof -
  obtain r1 v1 s1 where w1: "ScanKeys (matchPattern (ValueMatch ns p sh))
      (collect_batch (\<lambda>key. PrimaryFromValueKey ns key sh) p) (no_vars, s) = (r1, (v1, s1))" by (metis prod.collapse)
  obtain r2 v2 s2 where w2: "ScanKeys (matchPattern (MembersMatch ns p sh))
      (collect_batch (\<lambda>key. PrimaryFromMembersKey ns key sh) p) (v1, s1) = (r2, (v2, s2))" by (metis prod.collapse)
  note c = collected_primaries [OF assms(1-3) w1 w2]
  let ?C = "fset (sv_pks v2)" and ?pks = "sorted_list_of_fset (sv_pks v2)"
  have pks: "distinct ?pks" "set ?pks = ?C" using range_ok_sorted by simp_all
  from evict [OF quiet [OF c(3)], of ?pks] obtain s3 where s3:
    "evict_sorted evict ?pks 0 [] s2 = ((int (length ?pks), []), s3)" "now s2 \<le> now s3"
    "without ?C (live (now s3) (content s)) (live (now s3) (content s3))"
    using c(3) pks(2) by (auto simp: quiet_def)
  have e: "n = int (length ?pks)" "err = None" "s' = s3"
    using run w1 w2 c(1,2) s3(1) by (simp_all add: evictByPrimaryPrefix_def conn_ScanKeys errors_Join_def)
  have len: "length ?pks = card ?C" using pks distinct_card by metis
  have gone: "pk \<in> ?C" if "prefix p pk" "live (now s') (content s) (ValueKey ns pk sh) \<noteq> None \<or>
      live (now s') (content s) (MembersKey ns pk sh) \<noteq> None" for pk
    using c(5) [OF that(1)] that(2) live_not_later [OF s3(2)] e(3) by blast
  have "int (card {pk. prefix p pk \<and> live (now s') (content s) (ValueKey ns pk sh) \<noteq> None}) \<le> n"
    using gone by (auto simp: e(1) len intro!: card_mono)
  moreover have "n \<le> int (card {pk. prefix p pk \<and> (content s (ValueKey ns pk sh) \<noteq> None \<or> content s (MembersKey ns pk sh) \<noteq> None)})"
    (is "n \<le> int (card ?ex)")
  proof -
    have inj: "inj (\<lambda>pk. ValueKey ns pk sh)" "inj (\<lambda>pk. MembersKey ns pk sh)"
      by (cases sh; auto simp: inj_def key_defs)+
    have "?ex \<subseteq> (\<lambda>pk. ValueKey ns pk sh) -` dom (content s) \<union> (\<lambda>pk. MembersKey ns pk sh) -` dom (content s)" by auto
    then have "finite ?ex" using finite_vimageI [OF assms(1)] inj by (meson finite_UnI finite_subset)
    moreover have "?C \<subseteq> ?ex" using c(4) by auto
    ultimately show ?thesis unfolding e(1) len by (simp add: card_mono)
  qed
  moreover have "now s \<le> now s'" using c(3) s3(2) e(3) by (simp add: quiet_def)
  ultimately show ?thesis
    using e(2,3) s3(3) c(4) gone by (intro exI [of _ ?C]) auto
qed

lemma co_EvictByPrimaryPrefix_result:
  assumes "finite (dom (content s))" "valid_utf8 (co_ns o1)" "valid_utf8 p" "co_ok content now (co_ns o1) s"
    and "co_conn o1 = conn" "co_EvictByPrimaryPrefix o1 p s = ((n, err), s')"
  shows "err = None" "now s \<le> now s'"
    and "co_without (co_ns o1) {pk. prefix p pk} (live (now s') (content s)) (live (now s') (content s'))"
    and "int (card {pk. prefix p pk \<and> live (now s') (content s) (ValueKey (co_ns o1) pk False) \<noteq> None}) \<le> n"
    and "n \<le> int (card {pk. prefix p pk \<and> (content s (ValueKey (co_ns o1) pk False) \<noteq> None \<or>
      content s (MembersKey (co_ns o1) pk False) \<noteq> None)})"
proof -
  let ?ns = "co_ns o1"
  have run: "evictByPrimaryPrefix conn ?ns False p (co_EvictByPrimary o1) s = ((n, err), s')"
    using assms(5,6) by (simp add: co_EvictByPrimaryPrefix_def)
  have q: "co_ok content now ?ns s1" if "quiet content now s s1" for s1
    using assms(4) that co_inv_later unfolding co_ok_def quiet_def by metis
  have ev: "\<exists>s'. evict_sorted (co_EvictByPrimary o1) pks 0 [] s = ((int (length pks), []), s') \<and> now s \<le> now s' \<and>
      co_without ?ns (set pks) (live (now s') (content s)) (live (now s') (content s'))"
    if "co_ok content now ?ns s" for s pks
    using evict_sorted_co [OF that assms(5), of pks 0 "[]"] by auto
  from evictByPrimaryPrefix_run [where ok = "co_ok content now ?ns" and without = "co_without ?ns",
      OF assms(1-4) q ev run] obtain C where
    C: "err = None" "now s \<le> now s'" "co_without ?ns C (live (now s') (content s)) (live (now s') (content s'))"
    "\<And>pk. pk \<in> C \<Longrightarrow> prefix p pk"
    "\<And>pk. prefix p pk \<Longrightarrow> live (now s') (content s) (ValueKey ?ns pk False) \<noteq> None \<or>
      live (now s') (content s) (MembersKey ?ns pk False) \<noteq> None \<Longrightarrow> pk \<in> C"
    and n: "int (card {pk. prefix p pk \<and> live (now s') (content s) (ValueKey ?ns pk False) \<noteq> None}) \<le> n"
    "n \<le> int (card {pk. prefix p pk \<and> (content s (ValueKey ?ns pk False) \<noteq> None \<or>
      content s (MembersKey ?ns pk False) \<noteq> None)})" by blast
  show "err = None" "now s \<le> now s'" by (rule C)+
  have i: "co_inv ?ns (live (now s') (content s))" using assms(4) C(2) co_inv_later unfolding co_ok_def by metis
  have t: "rv_text (live (now s') (content s) (tail_key ?ns x False)) \<in> Some ` C \<longleftrightarrow>
      rv_text (live (now s') (content s) (tail_key ?ns x False)) \<in> Some ` {pk. prefix p pk}" for x
  proof -
    have "pk \<in> C \<longleftrightarrow> prefix p pk" if "rv_text (live (now s') (content s) (tail_key ?ns x False)) = Some pk" for pk
      using that co_invD(5) [OF i, of x pk] C(4,5) [of pk] by (auto simp: rv_text_Some)
    then show ?thesis by (auto simp: image_iff)
  qed
  have v: "q \<notin> C \<Longrightarrow> prefix p q \<Longrightarrow> live (now s') (content s) (ValueKey ?ns q False) = None \<and>
      live (now s') (content s) (MembersKey ?ns q False) = None" for q using C(5) [of q] by blast
  show "co_without ?ns {pk. prefix p pk} (live (now s') (content s)) (live (now s') (content s'))"
    using C(3) v C(4) unfolding co_without_def t by (auto split: if_splits)
  show "int (card {pk. prefix p pk \<and> live (now s') (content s) (ValueKey ?ns pk False) \<noteq> None}) \<le> n"
    "n \<le> int (card {pk. prefix p pk \<and> (content s (ValueKey ?ns pk False) \<noteq> None \<or>
      content s (MembersKey ?ns pk False) \<noteq> None)})" by (rule n)+
qed

end

end
