(* ===== verification/Redis_Sharded.thy ===== *)
theory Redis_Sharded
  imports Redis_Client
begin

text \<open>
  Sharded alias groups.  A record (value and members hash) is written by one script; its pointers are
  written and deleted one by one afterwards, so they can be stale.  What holds whatever other clients
  do in between is proved in \<open>redis_calls\<close>, the exact effect of an operation in \<open>redis_client\<close>.
\<close>

subsection \<open>The view of a group\<close>

definition sh_fields :: "string \<Rightarrow> rcontent \<Rightarrow> string \<Rightarrow> string gomap" where
  "sh_fields ns L pk = rv_fields (L (MembersKey ns pk True))"

text \<open>Where the pointer of an alias leads, and whether the record agrees.\<close>

definition sh_pointer :: "string \<Rightarrow> rcontent \<Rightarrow> AliasRef \<Rightarrow> string option" where
  "sh_pointer ns L ref = rv_text (L (PointerKey ns (Field ref) (Value ref) True))"

definition sh_claims :: "string \<Rightarrow> rcontent \<Rightarrow> string \<Rightarrow> AliasRef \<Rightarrow> bool" where
  "sh_claims ns L pk ref \<longleftrightarrow> fmlookup (sh_fields ns L pk) (Field ref) = Some (Value ref)"

definition sh_typed :: "string \<Rightarrow> rcontent \<Rightarrow> bool" where
  "sh_typed ns L \<longleftrightarrow>
     (\<forall>pk. str_or_none (L (ValueKey ns pk True))) \<and> (\<forall>f v. str_or_none (L (PointerKey ns f v True))) \<and>
     (\<forall>pk. \<not> is_str (L (MembersKey ns pk True)))"

lemma sh_typedD:
  assumes "sh_typed ns L"
  shows "str_or_none (L (ValueKey ns pk True))" "str_or_none (L (PointerKey ns f v True))"
    "\<not> is_str (L (MembersKey ns pk True))"
  using assms by (simp_all add: sh_typed_def)

lemma sh_typed_live: "sh_typed ns (live t c) \<Longrightarrow> t \<le> t' \<Longrightarrow> sh_typed ns (live t' c)"
  using live_later_eq [of t t' c] live_or [of t' "live t c"] unfolding sh_typed_def
  by (metis is_str.simps(2) str_or_none_def)

definition sh_put_live :: "string \<Rightarrow> string \<Rightarrow> AliasRef \<Rightarrow> bytes \<Rightarrow> int option \<Rightarrow> rcontent \<Rightarrow> rcontent" where
  "sh_put_live ns pk ref val d L =
     L(ValueKey ns pk True \<mapsto> RStr val d,
       MembersKey ns pk True := map_option (rv_expire d)
         (if Field ref \<noteq> '''' then hset_value (Field ref) (Value ref) (L (MembersKey ns pk True))
          else L (MembersKey ns pk True)))"

text \<open>After an eviction: the record is gone, and of the pointers it accounted for those that led to it.\<close>

definition sh_evicted :: "string \<Rightarrow> string \<Rightarrow> string gomap \<Rightarrow> rcontent \<Rightarrow> rcontent \<Rightarrow> bool" where
  "sh_evicted ns pk h L L' \<longleftrightarrow>
     L' (ValueKey ns pk True) = None \<and> L' (MembersKey ns pk True) = None \<and>
     (\<forall>k. k \<noteq> ValueKey ns pk True \<longrightarrow> k \<noteq> MembersKey ns pk True \<longrightarrow>
        L' k = (if (\<exists>f v. fmlookup h f = Some v \<and> k = PointerKey ns f v True) \<and> rv_text (L k) = Some pk then None else L k))"

lemma sh_put_live_claims:
  assumes "sh_typed ns L"
  shows "sh_claims ns (sh_put_live ns pk ref val d L) q ref' \<longleftrightarrow>
    (if q = pk \<and> Field ref \<noteq> '''' \<and> Field ref' = Field ref then Value ref' = Value ref else sh_claims ns L q ref')"
proof -
  have "MembersKey ns q True = MembersKey ns pk True \<longleftrightarrow> q = pk" by (simp add: key_defs)
  then show ?thesis
    using sh_typedD(3) [OF assms, of pk]
    by (auto simp: sh_claims_def sh_fields_def sh_put_live_def not_str_cases)
qed

context redis_server
begin

lemma run_sharded_put:
  assumes "sh_typed ns (live (now s) (content s))"
  shows "\<exists>c. runs (sharded_record_put R (ValueKey ns pk True) (MembersKey ns pk True) val ttl (Field ref) (Value ref)) s (LInt 1) c \<and>
    live (now s) c = sh_put_live ns pk ref val (deadline (now s) ttl) (live (now s) (content s)) \<and>
    (\<forall>k. k \<noteq> ValueKey ns pk True \<longrightarrow> k \<noteq> MembersKey ns pk True \<longrightarrow> c k = content s k)"
proof -
  let ?v = "ValueKey ns pk True" and ?m = "MembersKey ns pk True" and ?d = "deadline (now s) ttl"
  let ?c1 = "(content s)(?v \<mapsto> RStr val ?d)"
  let ?c2 = "if Field ref \<noteq> '''' then hset_key (now s) ?m (Field ref) (Value ref) ?c1 else ?c1"
  let ?c3 = "expire_key (now s) ?d ?m ?c2"
  have t: "\<not> is_str (live (now s) ?c1 ?m)" using sh_typedD(3) [OF assms] by simp
  have "runs (sharded_record_put R ?v ?m val ttl (Field ref) (Value ref)) s (LInt 1) ?c3"
    unfolding sharded_record_put_def
  proof (rule runs_bind [OF runs_set_ttl])
    fix s1 assume s1: "content s1 = ?c1" "now s1 = now s"
    have p: "runs (if Field ref \<noteq> '''' then rd_HSET R ?m (Field ref) (Value ref) else lua_return ()) s1 () ?c2"
      using runs_HSET [of s1 ?m "Field ref" "Value ref"] t by (auto simp: s1 intro: runs_return)
    show "runs (lua_bind (if Field ref \<noteq> '''' then rd_HSET R ?m (Field ref) (Value ref) else lua_return ())
        (\<lambda>_. lua_bind (if ttl > 0 then rd_PEXPIRE R ?m ttl else rd_PERSIST R ?m) (\<lambda>_. lua_return (LInt 1))))
      s1 (LInt 1) ?c3"
    proof (rule runs_bind [OF p])
      fix s2 assume s2: "content s2 = ?c2" "now s2 = now s1"
      have e: "runs (if ttl > 0 then rd_PEXPIRE R ?m ttl else rd_PERSIST R ?m) s2 () ?c3"
        using runs_expire [of ttl ?m s2] by (simp add: s1 s2)
      show "runs (lua_bind (if ttl > 0 then rd_PEXPIRE R ?m ttl else rd_PERSIST R ?m) (\<lambda>_. lua_return (LInt 1))) s2 (LInt 1) ?c3"
        by (rule runs_bind [OF e]) (rule runs_return)
    qed
  qed
  moreover have "live (now s) ?c3 = sh_put_live ns pk ref val ?d (live (now s) (content s))"
    by (auto simp: sh_put_live_def fun_eq_iff)
  moreover have "\<forall>k. k \<noteq> ?v \<longrightarrow> k \<noteq> ?m \<longrightarrow> ?c3 k = content s k" by simp
  ultimately show ?thesis by blast
qed

lemma run_sharded_evict:
  assumes "sh_typed ns (live (now s) (content s))"
  shows "\<exists>ps. runs (sharded_record_evict R (ValueKey ns pk True) (MembersKey ns pk True)) s (LList (flat_pairs ps))
      ((content s)(ValueKey ns pk True := None, MembersKey ns pk True := None)) \<and>
    (\<forall>f v. (f, v) \<in> set ps \<longleftrightarrow> fmlookup (sh_fields ns (live (now s) (content s)) pk) f = Some v)"
proof -
  let ?v = "ValueKey ns pk True" and ?m = "MembersKey ns pk True"
  obtain ps where ps: "runs (rd_HGETALL R ?m) s (flat_pairs ps) (content s)" "distinct (map fst ps)"
    "fmap_of_list ps = sh_fields ns (live (now s) (content s)) pk"
    using runs_HGETALL [OF ref_hash_fields [OF sh_typedD(3) [OF assms]]] unfolding sh_fields_def by blast
  have "runs (sharded_record_evict R ?v ?m) s (LList (flat_pairs ps)) ((content s)(?v := None, ?m := None))"
    unfolding sharded_record_evict_def
  proof (rule runs_bind [OF ps(1)])
    fix s1 assume s1: "content s1 = content s" "now s1 = now s"
    show "runs (lua_bind (rd_DEL R ?v) (\<lambda>_. lua_bind (rd_DEL R ?m) (\<lambda>_. lua_return (LList (flat_pairs ps))))) s1
        (LList (flat_pairs ps)) ((content s)(?v := None, ?m := None))"
    proof (rule runs_bind [OF runs_DEL_count])
      fix s2 assume s2: "content s2 = (content s1)(?v := None)" "now s2 = now s1"
      show "runs (lua_bind (rd_DEL R ?m) (\<lambda>_. lua_return (LList (flat_pairs ps)))) s2
          (LList (flat_pairs ps)) ((content s)(?v := None, ?m := None))"
        by (rule runs_bind [OF runs_DEL_count]) (auto simp: s1 s2 intro: runs_return)
    qed
  qed
  with pairs_of_fmap [OF ps(2,3)] show ?thesis by blast
qed

text \<open>Compare and delete: the pointer goes only if it leads to this record.\<close>

lemma run_cdel:
  assumes "str_or_none (live (now s) (content s) k)"
  shows "\<exists>n. runs (sharded_pointer_cdel R k pk) s (LInt n)
    (if rv_text (live (now s) (content s) k) = Some pk then (content s)(k := None) else content s)"
proof -
  let ?x = "rv_text (live (now s) (content s) k)"
  note g = runs_GET [OF ref_GET_text [OF assms]]
  show ?thesis
  proof (cases "?x = Some pk")
    case True
    let ?n = "if live (now s) (content s) k = None then 0 else 1 :: int"
    have "runs (sharded_pointer_cdel R k pk) s (LInt ?n) ((content s)(k := None))"
      unfolding sharded_pointer_cdel_def
    proof (rule runs_bind [OF g])
      fix s1 assume s1: "content s1 = content s" "now s1 = now s"
      have "runs (lua_bind (rd_DEL R k) (\<lambda>n. lua_return (LInt n))) s1 (LInt ?n) ((content s)(k := None))"
        by (rule runs_bind [OF runs_DEL_count [of k s1, unfolded s1]]) (rule runs_return)
      then show "runs (if ?x = Some pk then lua_bind (rd_DEL R k) (\<lambda>n. lua_return (LInt n)) else lua_return (LInt 0)) s1
          (LInt ?n) ((content s)(k := None))" using True by simp
    qed
    with True show ?thesis by auto
  next
    case False
    have "runs (sharded_pointer_cdel R k pk) s (LInt 0) (content s)"
      unfolding sharded_pointer_cdel_def by (rule runs_bind [OF g]) (simp add: False runs_return)
    with False show ?thesis by auto
  qed
qed

lemma run_get_validate:
  assumes "sh_typed ns (live (now s) (content s))"
  shows "runs (sharded_record_get_validate R (ValueKey ns pk True) (MembersKey ns pk True) (Field ref) (Value ref)) s
    (case rv_text (live (now s) (content s) (ValueKey ns pk True)) of
       None \<Rightarrow> LFalse
     | Some b \<Rightarrow> if sh_claims ns (live (now s) (content s)) pk ref then LStr b else LFalse) (content s)"
  unfolding sharded_record_get_validate_def
proof (rule runs_bind [OF runs_GET [OF ref_GET_text [OF sh_typedD(1) [OF assms]]]])
  let ?L = "live (now s) (content s)"
  fix s1 assume s1: "content s1 = content s" "now s1 = now s"
  have h: "runs (rd_HGET R (MembersKey ns pk True) (Field ref)) s1 (fmlookup (sh_fields ns ?L pk) (Field ref)) (content s)"
    using runs_HGET [of "Field ref" s1 "MembersKey ns pk True"] ref_HGET_fields [OF sh_typedD(3) [OF assms]]
    by (simp add: s1 sh_fields_def)
  have "runs (lua_bind (rd_HGET R (MembersKey ns pk True) (Field ref))
      (\<lambda>m. if m \<noteq> Some (Value ref) then lua_return LFalse else lua_return (LStr b))) s1
      (if sh_claims ns ?L pk ref then LStr b else LFalse) (content s)" for b
    by (rule runs_bind [OF h]) (simp add: sh_claims_def runs_return)
  then show "runs (case rv_text (?L (ValueKey ns pk True)) of None \<Rightarrow> lua_return LFalse
      | Some v \<Rightarrow> lua_bind (rd_HGET R (MembersKey ns pk True) (Field ref))
          (\<lambda>m. if m \<noteq> Some (Value ref) then lua_return LFalse else lua_return (LStr v))) s1
    (case rv_text (?L (ValueKey ns pk True)) of None \<Rightarrow> LFalse
     | Some b \<Rightarrow> if sh_claims ns ?L pk ref then LStr b else LFalse) (content s)"
    by (cases "rv_text (?L (ValueKey ns pk True))") (simp_all add: s1 runs_return)
qed

end

subsection \<open>Whatever other clients do\<close>

text \<open>
  Other clients see to it that the key \<open>k\<close> holds \<open>v\<close> from the instant \<open>T\<close> on: it does when the first
  command of ours after \<open>T\<close> arrives, and from then on they leave it alone.  Only instants from \<open>t0\<close> on
  count; when \<open>T\<close> is not after \<open>t0\<close>, all that is asked is that they leave it alone.
\<close>

definition others_hold ::
  "('s \<Rightarrow> rcontent) \<Rightarrow> ('s \<Rightarrow> int) \<Rightarrow> ('s \<Rightarrow> 's) \<Rightarrow> string \<Rightarrow> rvalue \<Rightarrow> int \<Rightarrow> int \<Rightarrow> bool" where
  "others_hold content now arrive k v t0 T \<longleftrightarrow>
     (\<forall>u. t0 \<le> now u \<longrightarrow> now u < T \<longrightarrow> T \<le> now (arrive u) \<longrightarrow> content (arrive u) k = Some v) \<and>
     (\<forall>u. T \<le> now u \<longrightarrow> content u k = Some v \<longrightarrow> content (arrive u) k = Some v)"

context redis_calls
begin

text \<open>The read is validated: at its last instant the record has the value and claims the alias.\<close>

lemma sh_read_validated:
  assumes "sh_GetByAlias o1 ref s = (Inr b, s')" "sh_conn o1 = conn"
  shows "\<exists>pk. rv_text (live (now s') (content s') (ValueKey (sh_ns o1) pk True)) = Some b \<and>
    sh_claims (sh_ns o1) (live (now s') (content s')) pk ref"
proof -
  let ?ns = "sh_ns o1"
  obtain pk s1 where p: "rc_Get conn (PointerKey ?ns (Field ref) (Value ref) True) s = (Inr pk, s1)"
    using assms by (auto simp: sh_GetByAlias_def split: prod.splits sum.splits if_splits)
  let ?V = "ValueKey ?ns pk True" and ?M = "MembersKey ?ns pk True" and ?a = "arrive s1"
  obtain r where e: "sharded_record_get_validate R ?V ?M (Field ref) (Value ref) ?a = (r, s')"
    "bytes_reply (lua_reply r) = Inr b"
    using assms by (auto simp: sh_GetByAlias_def p conn_Eval sh_record_keys_def run_script_def case_prod_unfold prod_eq_iff)
  have r: "r = Inr (LStr b)" using e(2) by (cases r rule: lua_reply.cases) (auto simp: bytes_reply_def split: if_splits)
  obtain v s2 where g: "rd_GET R ?V ?a = (Inr (Some v), s2)"
    "(case rd_HGET R ?M (Field ref) s2 of (Inl e, s3) \<Rightarrow> (Inl e, s3)
      | (Inr m, s3) \<Rightarrow> (if m \<noteq> Some (Value ref) then lua_return LFalse else lua_return (LStr v)) s3) = (Inr (LStr b), s')"
    using e(1) unfolding r sharded_record_get_validate_def
    by (auto simp: lua_bind_def lua_return_def split: prod.splits sum.splits option.splits)
  then obtain h: "rd_HGET R ?M (Field ref) s2 = (Inr (Some (Value ref)), s')" "v = b"
    by (auto simp: lua_return_def split: prod.splits sum.splits if_splits)
  have s2: "content s2 = content ?a" "now s2 = now ?a" using GET(2,3) [of ?V ?a] g(1) by simp_all
  have s': "content s' = content s2" "now s' = now s2" using HGET(2,3) [of ?M "Field ref" s2] h(1) by simp_all
  have "ref_GET (live (now ?a) (content ?a) ?V) = Inr (Some b)" using GET(1) [of ?V ?a] g(1) h(2) by simp
  moreover have "ref_HGET (Field ref) (live (now s2) (content s2) ?M) = Inr (Some (Value ref))"
    using HGET(1) [of ?M "Field ref" s2] h(1) by simp
  ultimately show ?thesis
    by (intro exI [of _ pk]) (simp add: s' s2 sh_claims_def sh_fields_def, cases "live (now ?a) (content ?a) ?V" rule: ref_GET.cases;
      cases "live (now ?a) (content ?a) ?M" rule: ref_hash.cases; simp)
qed

text \<open>An eviction never takes a pointer that leads to another record.\<close>

lemma cdel_other:
  assumes "content s k = Some (RStr q d)" "q \<noteq> pk"
  shows "content (snd (sharded_pointer_cdel R p pk s)) k = Some (RStr q d)"
proof (cases "p = k")
  case True
  obtain r s1 where g: "rd_GET R k s = (r, s1)" by force
  have "r = ref_GET (live (now s) (content s) k)" "content s1 = content s" using GET [of k s] g by simp_all
  moreover have "live (now s) (content s) k = None \<or> live (now s) (content s) k = Some (RStr q d)"
    using assms(1) live_or [of "now s" "content s" k] by auto
  ultimately have "r = Inr None \<or> r = Inr (Some q)" "content s1 k = Some (RStr q d)" using assms(1) by auto
  then show ?thesis
    using True g assms(2) by (auto simp: sharded_pointer_cdel_def lua_bind_def lua_return_def)
next
  case False
  then have "content (snd (rd_DEL R p s1)) k = content s1 k" for s1 by (simp add: DEL)
  then show ?thesis
    using GET(2) [of p s] assms(1)
    by (auto simp: sharded_pointer_cdel_def lua_bind_def lua_return_def case_prod_unfold split: sum.split)
qed

lemma evict_record_frame:
  assumes "k \<noteq> V" "k \<noteq> M"
  shows "content (snd (sharded_record_evict R V M s)) k = content s k"
proof -
  have d: "content (snd (rd_DEL R p s1)) k = content s1 k" if "p = V \<or> p = M" for p s1 using that assms by (auto simp: DEL)
  show ?thesis
    using HGETALL(2) [where s = s and k = M] d
    by (simp add: sharded_record_evict_def lua_bind_def lua_return_def case_prod_unfold split: sum.split)
qed

text \<open>The scripts run at the instant at which they arrive.\<close>

lemma cdel_now: "now (snd (sharded_pointer_cdel R p pk s)) = now s"
  using GET(3) [of p s] DEL(3)
  by (auto simp: sharded_pointer_cdel_def lua_bind_def lua_return_def case_prod_unfold split: sum.split)

lemma evict_record_now: "now (snd (sharded_record_evict R V M s)) = now s"
  using HGETALL(3) [of M s] DEL(3)
  by (auto simp: sharded_record_evict_def lua_bind_def lua_return_def case_prod_unfold split: sum.split)

definition held :: "string \<Rightarrow> rvalue \<Rightarrow> int \<Rightarrow> int \<Rightarrow> 's \<Rightarrow> bool" where
  "held k v t0 T s \<longleftrightarrow> t0 \<le> now s \<and> (T \<le> now s \<longrightarrow> content s k = Some v)"

lemma held_arrive: "others_hold content now arrive k v t0 T \<Longrightarrow> held k v t0 T s \<Longrightarrow> held k v t0 T (arrive s)"
  unfolding others_hold_def held_def using arrive_later [of s] by (meson not_le order_trans)

text \<open>A command that keeps its instant and such a value keeps it held.\<close>

lemma held_Eval:
  assumes "others_hold content now arrive k v t0 T" "held k v t0 T s"
    and "now (snd (run_script R sc KEYS ARGV (arrive s))) = now (arrive s)"
    and "content (arrive s) k = Some v \<Longrightarrow> content (snd (run_script R sc KEYS ARGV (arrive s))) k = Some v"
  shows "held k v t0 T (snd (rc_Eval conn sc KEYS ARGV s))"
  using held_arrive [OF assms(1,2)] assms(3,4) by (simp add: held_def conn_Eval)

lemma cdel_keeps:
  assumes "others_hold content now arrive k (RStr q d) t0 T" "held k (RStr q d) t0 T s" "q \<noteq> primary" "sh_conn o1 = conn"
  shows "held k (RStr q d) t0 T (cdel_loop o1 primary arr s)"
  using assms(2-4)
proof (induction o1 primary arr s rule: cdel_loop.induct)
  case (1 o1 primary a b arr s)
  let ?p = "PointerKey (sh_ns o1) (string_or_empty a) (string_or_empty b) True"
  have "held k (RStr q d) t0 T (snd (rc_Eval conn shardedPointerCDelScript [?p] [ArgText primary] s))"
    by (rule held_Eval [OF assms(1) 1(2)]) (use cdel_other [OF _ 1(3)] in \<open>simp_all add: run_script_def cdel_now\<close>)
  with 1 show ?case by simp
qed simp_all

lemma sh_evict_keeps:
  assumes "others_hold content now arrive k (RStr q d) t0 T" "held k (RStr q d) t0 T s" "q \<noteq> primary" "sh_conn o1 = conn"
    and "\<exists>f v. k = PointerKey (sh_ns o1) f v True"
  shows "held k (RStr q d) t0 T (snd (sh_EvictByPrimary o1 primary s))"
proof -
  let ?ns = "sh_ns o1"
  let ?e = "rc_Eval conn shardedEvictScript (sh_record_keys o1 primary) [] s"
  have k: "k \<noteq> ValueKey ?ns primary True" "k \<noteq> MembersKey ?ns primary True" using assms(5) by auto
  have "held k (RStr q d) t0 T (snd ?e)"
    by (rule held_Eval [OF assms(1,2)])
      (simp_all add: run_script_def sh_record_keys_def evict_record_now evict_record_frame [OF k])
  then show ?thesis
    using cdel_keeps [OF assms(1) _ assms(3,4)] assms(4)
    by (auto simp: sh_EvictByPrimary_def split: prod.splits sum.splits goany.splits)
qed

end

subsection \<open>The effect of an operation\<close>

context redis_client
begin

lemma put_eval:
  assumes "sh_typed (sh_ns o1) (live (now (arrive s)) (content s))" "sh_conn o1 = conn"
  obtains s1 where "rc_Eval conn shardedPutScript (sh_record_keys o1 pk)
      [ArgText b, ArgInt (Milliseconds ttl), ArgText (Field ref), ArgText (Value ref)] s = (Inr (GoInt 1), s1)"
    and "now s1 = now (arrive s)"
    and "live (now s1) (content s1) = sh_put_live (sh_ns o1) pk ref b (deadline (now s1) (Milliseconds ttl))
        (live (now s1) (content s))"
    and "\<And>k. k \<noteq> ValueKey (sh_ns o1) pk True \<Longrightarrow> k \<noteq> MembersKey (sh_ns o1) pk True \<Longrightarrow> content s1 k = content s k"
proof -
  have "sh_typed (sh_ns o1) (live (now (arrive s)) (content (arrive s)))" using assms(1) by (simp add: arrive)
  from run_sharded_put [OF this, of pk b "Milliseconds ttl" ref] obtain c where
    c: "runs (run_script R shardedPutScript (sh_record_keys o1 pk)
        [ArgText b, ArgInt (Milliseconds ttl), ArgText (Field ref), ArgText (Value ref)]) (arrive s) (LInt 1) c"
    "live (now (arrive s)) c = sh_put_live (sh_ns o1) pk ref b (deadline (now (arrive s)) (Milliseconds ttl))
       (live (now (arrive s)) (content s))"
    "\<forall>k. k \<noteq> ValueKey (sh_ns o1) pk True \<longrightarrow> k \<noteq> MembersKey (sh_ns o1) pk True \<longrightarrow> c k = content s k"
    by (auto simp: run_script_def sh_record_keys_def arrive)
  note e = runs_Eval [OF c(1)]
  show thesis
    by (rule that [of "snd (rc_Eval conn shardedPutScript (sh_record_keys o1 pk)
        [ArgText b, ArgInt (Milliseconds ttl), ArgText (Field ref), ArgText (Value ref)] s)"])
      (use c(2,3) e in \<open>simp_all add: prod_eq_iff\<close>)
qed

lemma sh_PutValue_result:
  assumes "sh_typed (sh_ns o1) (live (now (arrive s)) (content s))" "sh_conn o1 = conn"
  shows "fst (sh_PutValue o1 pk b ttl s) = None \<and>
    (\<exists>s1. snd (sh_PutValue o1 pk b ttl s) = s1 \<and> now s1 = now (arrive s) \<and>
       live (now s1) (content s1) = sh_put_live (sh_ns o1) pk \<lparr>Field = '''', Value = ''''\<rparr> b
         (deadline (now s1) (Milliseconds ttl)) (live (now s1) (content s)) \<and>
       (\<forall>k. k \<noteq> ValueKey (sh_ns o1) pk True \<longrightarrow> k \<noteq> MembersKey (sh_ns o1) pk True \<longrightarrow> content s1 k = content s k))"
proof -
  obtain s1 where s1: "rc_Eval conn shardedPutScript (sh_record_keys o1 pk)
      [ArgText b, ArgInt (Milliseconds ttl), ArgText '''', ArgText ''''] s = (Inr (GoInt 1), s1)"
    "now s1 = now (arrive s)"
    "live (now s1) (content s1) = sh_put_live (sh_ns o1) pk \<lparr>Field = '''', Value = ''''\<rparr> b
       (deadline (now s1) (Milliseconds ttl)) (live (now s1) (content s))"
    "\<And>k. k \<noteq> ValueKey (sh_ns o1) pk True \<Longrightarrow> k \<noteq> MembersKey (sh_ns o1) pk True \<Longrightarrow> content s1 k = content s k"
    by (rule put_eval [OF assms, of pk b ttl "\<lparr>Field = '''', Value = ''''\<rparr>"]) simp
  then show ?thesis by (simp add: sh_PutValue_def assms(2) cmd_Err_def)
qed

text \<open>Also with the TTL that go-redis reads as \<open>KeepTTL\<close>, which gives the key its old deadline.\<close>

lemma redis_Set_any:
  "\<exists>d. fst (redis_Set conn k b ttl s) = None \<and> content (snd (redis_Set conn k b ttl s)) = (content s)(k \<mapsto> RStr b d) \<and>
     now (snd (redis_Set conn k b ttl s)) = now (arrive s) \<and>
     (ttl \<noteq> -1 \<longrightarrow> d = px_deadline (now (snd (redis_Set conn k b ttl s))) (go_px ttl))"
proof (cases "ttl = -1")
  case True
  then show ?thesis using conn_Set_keep [of k b s] by (auto simp: redis_Set_def arrive(2))
next
  case False
  then show ?thesis using redis_Set_result [OF False, of k b s] by auto
qed

lemma sh_PutByAlias_result:
  assumes "sh_typed (sh_ns o1) (live (now (arrive s)) (content s))" "sh_conn o1 = conn"
  shows "fst (sh_PutByAlias o1 pk ref b ttl s) = None \<and>
    (\<exists>s1 s2 d. snd (sh_PutByAlias o1 pk ref b ttl s) = s2 \<and> now s1 = now (arrive s) \<and> now s1 \<le> now s2 \<and>
       live (now s1) (content s1) = sh_put_live (sh_ns o1) pk ref b (deadline (now s1) (Milliseconds ttl))
         (live (now s1) (content s)) \<and>
       (\<forall>k. k \<noteq> ValueKey (sh_ns o1) pk True \<longrightarrow> k \<noteq> MembersKey (sh_ns o1) pk True \<longrightarrow> content s1 k = content s k) \<and>
       content s2 = (content s1)
         (PointerKey (sh_ns o1) (Field ref) (Value ref) True \<mapsto> RStr pk d) \<and>
       (ttl \<noteq> -1 \<longrightarrow> d = px_deadline (now s2) (go_px ttl)))"
proof -
  obtain s1 where s1: "rc_Eval conn shardedPutScript (sh_record_keys o1 pk)
      [ArgText b, ArgInt (Milliseconds ttl), ArgText (Field ref), ArgText (Value ref)] s = (Inr (GoInt 1), s1)"
    "now s1 = now (arrive s)"
    "live (now s1) (content s1) = sh_put_live (sh_ns o1) pk ref b (deadline (now s1) (Milliseconds ttl))
       (live (now s1) (content s))"
    "\<And>k. k \<noteq> ValueKey (sh_ns o1) pk True \<Longrightarrow> k \<noteq> MembersKey (sh_ns o1) pk True \<Longrightarrow> content s1 k = content s k"
    using put_eval [OF assms(1,2), of pk b ttl ref] by blast
  let ?p = "PointerKey (sh_ns o1) (Field ref) (Value ref) True"
  have put: "sh_PutByAlias o1 pk ref b ttl s = redis_Set conn ?p pk ttl s1"
    by (simp add: sh_PutByAlias_def assms(2) s1(1) redis_Set_def)
  obtain d where r: "fst (redis_Set conn ?p pk ttl s1) = None"
    "content (snd (redis_Set conn ?p pk ttl s1)) = (content s1)(?p \<mapsto> RStr pk d)"
    "now (snd (redis_Set conn ?p pk ttl s1)) = now (arrive s1)"
    "ttl \<noteq> -1 \<longrightarrow> d = px_deadline (now (snd (redis_Set conn ?p pk ttl s1))) (go_px ttl)"
    using redis_Set_any [of ?p pk ttl s1] by blast
  have "now s1 \<le> now (arrive s1)" by (rule arrive)
  then show ?thesis using s1 r unfolding put
    by (intro conjI exI [of _ s1] exI [of _ "snd (redis_Set conn ?p pk ttl s1)"] exI [of _ d]) auto
qed

text \<open>The two instants of a read: that of the pointer and that of the record.\<close>

lemma sh_GetByAlias_result:
  assumes "sh_typed (sh_ns o1) (live (now (arrive s)) (content s))" "sh_conn o1 = conn"
  shows "\<exists>t1 s'. snd (sh_GetByAlias o1 ref s) = s' \<and> content s' = content s \<and> t1 = now (arrive s) \<and> t1 \<le> now s' \<and>
    fst (sh_GetByAlias o1 ref s) =
      (case sh_pointer (sh_ns o1) (live t1 (content s)) ref of
         None \<Rightarrow> Inl ErrStoreMiss
       | Some pk \<Rightarrow>
           (case rv_text (live (now s') (content s) (ValueKey (sh_ns o1) pk True)) of
              None \<Rightarrow> Inl ErrStoreMiss
            | Some b \<Rightarrow> if sh_claims (sh_ns o1) (live (now s') (content s)) pk ref then Inr b else Inl ErrStoreMiss))"
proof -
  let ?ns = "sh_ns o1" and ?t1 = "now (arrive s)"
  let ?p = "PointerKey ?ns (Field ref) (Value ref) True"
  have g: "rc_Get conn ?p s = (get_reply (Inr (sh_pointer ?ns (live ?t1 (content s)) ref)), snd (rc_Get conn ?p s))"
    using ref_GET_text [OF sh_typedD(2) [OF assms(1), of "Field ref" "Value ref"]]
    by (simp add: conn_Get GET arrive(2) sh_pointer_def)
  have s1: "content (snd (rc_Get conn ?p s)) = content s" "now (snd (rc_Get conn ?p s)) = ?t1"
    using rc_Get_result(2,3) by auto
  show ?thesis
  proof (cases "sh_pointer ?ns (live ?t1 (content s)) ref")
    case None
    define s1 where "s1 = snd (rc_Get conn ?p s)"
    have "rc_Get conn ?p s = (Inl redis_Nil, s1)" using g None by (simp add: s1_def)
    then have "sh_GetByAlias o1 ref s = (Inl ErrStoreMiss, s1)"
      by (simp add: sh_GetByAlias_def assms(2))
    with None s1 show ?thesis by (simp add: s1_def)
  next
    case (Some pk)
    define s1 where "s1 = snd (rc_Get conn ?p s)"
    have g1: "rc_Get conn ?p s = (Inr pk, s1)" using g Some by (simp add: s1_def)
    have c1: "content s1 = content s" "now s1 = ?t1" using rc_Get_result(2,3) by (auto simp: s1_def)
    let ?a = "arrive s1"
    have ca: "content ?a = content s" "?t1 \<le> now ?a" using arrive [of s1] c1 by auto
    have "sh_typed ?ns (live (now ?a) (content s))"
      using assms(1) live_later_eq [OF ca(2), of "content s"] live_or unfolding sh_typed_def
      by (metis is_str.simps(2) str_or_none_def)
    then have ty: "sh_typed ?ns (live (now ?a) (content ?a))" by (simp add: ca)
    let ?x = "case rv_text (live (now ?a) (content s) (ValueKey ?ns pk True)) of
       None \<Rightarrow> LFalse | Some b \<Rightarrow> if sh_claims ?ns (live (now ?a) (content s)) pk ref then LStr b else LFalse"
    have "runs (run_script R shardedGetValidateScript (sh_record_keys o1 pk) [ArgText (Field ref), ArgText (Value ref)])
        ?a ?x (content s)"
      using run_get_validate [OF ty, of pk ref, unfolded ca(1)] by (simp add: run_script_def sh_record_keys_def)
    note e = runs_Eval [OF this]
    let ?e = "rc_Eval conn shardedGetValidateScript (sh_record_keys o1 pk) [ArgText (Field ref), ArgText (Value ref)] s1"
    have "sh_GetByAlias o1 ref s = (bytes_reply (lua_reply (Inr ?x)), snd ?e)"
      using e(1) by (simp add: sh_GetByAlias_def assms(2) g1 case_prod_unfold Let_def)
    moreover have "bytes_reply (lua_reply (Inr ?x)) =
        (case rv_text (live (now ?a) (content s) (ValueKey ?ns pk True)) of
              None \<Rightarrow> Inl ErrStoreMiss
            | Some b \<Rightarrow> if sh_claims ?ns (live (now ?a) (content s)) pk ref then Inr b else Inl ErrStoreMiss)"
      by (simp split: option.split)
    ultimately show ?thesis using e(2,3) ca Some by (simp cong: option.case_cong)
  qed
qed

lemma cdel_loop_result:
  assumes "sh_typed (sh_ns o1) (live (now s) (content s))" "sh_conn o1 = conn"
  shows "\<exists>s'. cdel_loop o1 pk (map GoString (flat_pairs ps)) s = s' \<and> now s \<le> now s' \<and>
    (\<forall>k. k \<notin> (\<lambda>(f, v). PointerKey (sh_ns o1) f v True) ` set ps \<longrightarrow> content s' k = content s k) \<and>
    (\<forall>k. live (now s') (content s') k =
      (if k \<in> (\<lambda>(f, v). PointerKey (sh_ns o1) f v True) ` set ps \<and> rv_text (live (now s') (content s) k) = Some pk
       then None else live (now s') (content s) k))"
  using assms(1)
proof (induction ps arbitrary: s)
  case (Cons q ps)
  obtain f v where q: "q = (f, v)" by force
  let ?p = "PointerKey (sh_ns o1) f v True" and ?a = "arrive s"
  let ?P = "\<lambda>ps. (\<lambda>(f, v). PointerKey (sh_ns o1) f v True) ` set ps"
  let ?c1 = "if rv_text (live (now ?a) (content s) ?p) = Some pk then (content s)(?p := None) else content s"
  have ty: "sh_typed (sh_ns o1) (live (now ?a) (content ?a))"
    using sh_typed_live [OF Cons.prems arrive(1)] by (simp add: arrive)
  obtain n where "runs (sharded_pointer_cdel R ?p pk) ?a (LInt n) ?c1"
    using run_cdel [OF sh_typedD(2) [OF ty], of f v pk] unfolding arrive(2) by blast
  then have "runs (run_script R shardedPointerCDelScript [?p] [ArgText pk]) ?a (LInt n) ?c1"
    by (simp add: run_script_def)
  note e = runs_Eval [OF this]
  define s1 where "s1 = snd (rc_Eval conn shardedPointerCDelScript [?p] [ArgText pk] s)"
  have s1: "content s1 = ?c1" "now s1 = now ?a" using e(2,3) by (simp_all add: s1_def)
  have l1: "live t (content s1) k = (if k = ?p \<and> rv_text (live (now ?a) (content s) ?p) = Some pk then None
      else live t (content s) k)" for t k by (auto simp: s1(1) live_def)
  have ty1: "sh_typed (sh_ns o1) (live (now s1) (content s1))"
    using ty unfolding sh_typed_def l1 s1(2) by (auto simp: arrive(2))
  from Cons.IH [OF ty1] obtain s' where s': "cdel_loop o1 pk (map GoString (flat_pairs ps)) s1 = s'" "now s1 \<le> now s'"
    "\<forall>k. k \<notin> ?P ps \<longrightarrow> content s' k = content s1 k"
    "\<forall>k. live (now s') (content s') k =
      (if k \<in> ?P ps \<and> rv_text (live (now s') (content s1) k) = Some pk then None else live (now s') (content s1) k)"
    by blast
  have loop: "cdel_loop o1 pk (map GoString (flat_pairs (q # ps))) s = s'"
    using s'(1) by (simp add: q assms(2) string_or_empty_def s1_def)
  have t: "now ?a \<le> now s'" using s'(2) s1(2) by simp
  have lp: "live (now s') (content s) ?p = None \<or> live (now s') (content s) ?p = live (now ?a) (content s) ?p"
    using live_later [OF t, of "content s" ?p] by (cases "live (now s') (content s) ?p") auto
  have "live (now s') (content s') k =
      (if k \<in> ?P (q # ps) \<and> rv_text (live (now s') (content s) k) = Some pk then None else live (now s') (content s) k)" for k
  proof (cases "k = ?p")
    case True
    then show ?thesis using s'(4) [rule_format, of ?p] lp unfolding l1 by (auto simp: q)
  next
    case False
    then show ?thesis using s'(4) [rule_format, of k] unfolding l1 by (auto simp: q)
  qed
  moreover have "content s' k = content s k" if "k \<notin> ?P (q # ps)" for k
    using that s'(3) by (simp add: q s1(1))
  ultimately show ?case using loop t arrive(1) [of s] by (intro exI [of _ s']) auto
qed simp

lemma sh_EvictByPrimary_result:
  assumes "sh_typed (sh_ns o1) (live (now (arrive s)) (content s))" "sh_conn o1 = conn"
  shows "fst (sh_EvictByPrimary o1 pk s) = None \<and>
    (\<exists>s'. snd (sh_EvictByPrimary o1 pk s) = s' \<and> now (arrive s) \<le> now s' \<and>
       sh_evicted (sh_ns o1) pk (sh_fields (sh_ns o1) (live (now (arrive s)) (content s)) pk)
         (live (now s') (content s)) (live (now s') (content s')) \<and>
       (\<forall>q. content s' (ValueKey (sh_ns o1) q True) = (if q = pk then None else content s (ValueKey (sh_ns o1) q True))))"
proof -
  let ?ns = "sh_ns o1" and ?a = "arrive s"
  let ?V = "ValueKey ?ns pk True" and ?M = "MembersKey ?ns pk True"
  have ty: "sh_typed ?ns (live (now ?a) (content ?a))" using assms(1) by (simp add: arrive)
  from run_sharded_evict [OF ty, of pk] obtain ps where ps:
    "runs (run_script R shardedEvictScript (sh_record_keys o1 pk) []) ?a (LList (flat_pairs ps))
      ((content s)(?V := None, ?M := None))"
    "\<forall>f v. (f, v) \<in> set ps \<longleftrightarrow> fmlookup (sh_fields ?ns (live (now ?a) (content s)) pk) f = Some v"
    by (auto simp: run_script_def sh_record_keys_def arrive(2))
  note e = runs_Eval [OF ps(1)]
  define s1 where "s1 = snd (rc_Eval conn shardedEvictScript (sh_record_keys o1 pk) [] s)"
  have s1: "content s1 = (content s)(?V := None, ?M := None)" "now s1 = now ?a" using e(2,3) by (simp_all add: s1_def)
  have l1: "live t (content s1) k = (if k = ?V \<or> k = ?M then None else live t (content s) k)" for t k
    by (auto simp: s1(1) live_def)
  have ty1: "sh_typed ?ns (live (now s1) (content s1))"
    using assms(1) unfolding sh_typed_def l1 s1(2) by auto
  from cdel_loop_result [OF ty1 assms(2), of pk ps] obtain s' where s':
    "cdel_loop o1 pk (map GoString (flat_pairs ps)) s1 = s'" "now s1 \<le> now s'"
    "\<And>k. k \<notin> (\<lambda>(f, v). PointerKey ?ns f v True) ` set ps \<longrightarrow> content s' k = content s1 k"
    "\<And>k. live (now s') (content s') k =
      (if k \<in> (\<lambda>(f, v). PointerKey ?ns f v True) ` set ps \<and> rv_text (live (now s') (content s1) k) = Some pk
       then None else live (now s') (content s1) k)" by blast
  have "rc_Eval conn shardedEvictScript (sh_record_keys o1 pk) [] s = (Inr (GoSlice (map GoString (flat_pairs ps))), s1)"
    using e(1) by (simp add: s1_def prod_eq_iff)
  then have op: "sh_EvictByPrimary o1 pk s = (None, s')" by (simp add: sh_EvictByPrimary_def assms(2) s'(1))
  have P: "k \<in> (\<lambda>(f, v). PointerKey ?ns f v True) ` set ps \<longleftrightarrow>
      (\<exists>f v. fmlookup (sh_fields ?ns (live (now ?a) (content s)) pk) f = Some v \<and> k = PointerKey ?ns f v True)" for k
    using ps(2) by (auto simp: image_iff) force
  then have "sh_evicted ?ns pk (sh_fields ?ns (live (now ?a) (content s)) pk)
         (live (now s') (content s)) (live (now s') (content s'))"
    unfolding sh_evicted_def s'(4) l1 P by auto
  moreover have "content s' (ValueKey ?ns q True) = (if q = pk then None else content s (ValueKey ?ns q True))" for q
  proof -
    have "ValueKey ?ns q True \<notin> (\<lambda>(f, v). PointerKey ?ns f v True) ` set ps" by auto
    then have "content s' (ValueKey ?ns q True) = content s1 (ValueKey ?ns q True)" using s'(3) by blast
    moreover have "ValueKey ?ns q True = ValueKey ?ns pk True \<longleftrightarrow> q = pk" by (simp add: key_defs)
    ultimately show ?thesis by (simp add: s1(1))
  qed
  ultimately show ?thesis using op s'(2) s1(2) by simp
qed

end

subsection \<open>Runs\<close>

text \<open>The record part of the bookkeeping: keys hold what their family holds, and members expire with their value.\<close>

definition sh_inv :: "string \<Rightarrow> rcontent \<Rightarrow> bool" where
  "sh_inv ns L \<longleftrightarrow> sh_typed ns L \<and>
     (\<forall>pk h d. L (MembersKey ns pk True) = Some (RHash h d) \<longrightarrow> (\<exists>b. L (ValueKey ns pk True) = Some (RStr b d)))"

definition sh_ok :: "('s \<Rightarrow> rcontent) \<Rightarrow> ('s \<Rightarrow> int) \<Rightarrow> string \<Rightarrow> 's \<Rightarrow> bool" where
  "sh_ok content now ns s \<longleftrightarrow> sh_inv ns (live (now s) (content s))"

definition sh_others :: "('s \<Rightarrow> rcontent) \<Rightarrow> ('s \<Rightarrow> int) \<Rightarrow> string \<Rightarrow> 's \<Rightarrow> 's \<Rightarrow> bool" where
  "sh_others content now ns s s' \<longleftrightarrow> now s \<le> now s' \<and>
     (\<forall>pk. content s' (ValueKey ns pk True) = content s (ValueKey ns pk True)) \<and>
     (\<forall>pk. content s' (MembersKey ns pk True) = content s (MembersKey ns pk True)) \<and>
     (\<forall>f v. content s' (PointerKey ns f v True) = content s (PointerKey ns f v True))"

inductive sh_step ::
  "('s \<Rightarrow> rcontent) \<Rightarrow> ('s \<Rightarrow> int) \<Rightarrow> 's shardedOps \<Rightarrow> 's \<Rightarrow> 's \<Rightarrow> bool" for content now o1 where
  sh_get: "sh_step content now o1 s (snd (sh_GetValue o1 pk s))"
| sh_put_val: "sh_step content now o1 s (snd (sh_PutValue o1 pk b ttl s))"
| sh_get_alias: "sh_step content now o1 s (snd (sh_GetByAlias o1 ref s))"
| sh_put_alias: "sh_step content now o1 s (snd (sh_PutByAlias o1 pk ref b ttl s))"
| sh_evict: "sh_step content now o1 s (snd (sh_EvictByPrimary o1 pk s))"
| sh_evict_alias: "sh_step content now o1 s (snd (sh_EvictByAlias o1 ref s))"
| sh_env: "sh_others content now (sh_ns o1) s s' \<Longrightarrow> sh_step content now o1 s s'"

abbreviation sh_run ::
  "('s \<Rightarrow> rcontent) \<Rightarrow> ('s \<Rightarrow> int) \<Rightarrow> 's shardedOps \<Rightarrow> 's \<Rightarrow> 's \<Rightarrow> bool" where
  "sh_run content now o1 \<equiv> (sh_step content now o1)\<^sup>*\<^sup>*"

lemma sharded_key_eq [simp]:
  "ValueKey ns q True = ValueKey ns pk True \<longleftrightarrow> q = pk" "MembersKey ns q True = MembersKey ns pk True \<longleftrightarrow> q = pk"
  by (simp_all add: key_defs)

lemma sh_inv_typed: "sh_inv ns L \<Longrightarrow> sh_typed ns L"
  by (simp add: sh_inv_def)

lemma sh_inv_later:
  assumes "sh_inv ns (live t c)" "t \<le> t'"
  shows "sh_inv ns (live t' c)"
  unfolding sh_inv_def
proof (intro conjI allI impI)
  show "sh_typed ns (live t' c)" by (rule sh_typed_live [OF sh_inv_typed [OF assms(1)] assms(2)])
  fix pk h d assume m: "live t' c (MembersKey ns pk True) = Some (RHash h d)"
  then obtain b where "live t c (ValueKey ns pk True) = Some (RStr b d)"
    using live_later [OF assms(2) m] assms(1) unfolding sh_inv_def by blast
  with m show "\<exists>b. live t' c (ValueKey ns pk True) = Some (RStr b d)" by (auto simp: live_Some)
qed

lemma sh_inv_cong:
  assumes "sh_inv ns L" "\<And>pk. L' (ValueKey ns pk True) = L (ValueKey ns pk True)"
    and "\<And>pk. L' (MembersKey ns pk True) = L (MembersKey ns pk True)" "\<And>f v. str_or_none (L' (PointerKey ns f v True))"
  shows "sh_inv ns L'"
  using assms unfolding sh_inv_def sh_typed_def by simp

lemma rv_expire_hash: "rv_expire d v = RHash h d' \<Longrightarrow> d' = d"
  by (cases v) simp_all

lemma sh_inv_put:
  assumes "sh_inv ns L" shows "sh_inv ns (sh_put_live ns pk ref val d L)"
proof -
  define m where "m = map_option (rv_expire d) (if Field ref \<noteq> [] then hset_value (Field ref) (Value ref) (L (MembersKey ns pk True))
      else L (MembersKey ns pk True))"
  have t: "sh_typed ns L" by (rule sh_inv_typed [OF assms])
  have d: "d' = d" if "m = Some (RHash h d')" for h d' using that rv_expire_hash by (auto simp: m_def)
  have m: "\<not> is_str m" using sh_typedD(3) [OF t, of pk] by (auto simp: m_def not_str_cases)
  have v: "sh_put_live ns pk ref val d L (ValueKey ns q True) =
      (if q = pk then Some (RStr val d) else L (ValueKey ns q True))"
    "sh_put_live ns pk ref val d L (MembersKey ns q True) = (if q = pk then m else L (MembersKey ns q True))"
    "sh_put_live ns pk ref val d L (PointerKey ns f w True) = L (PointerKey ns f w True)" for q f w
    by (simp_all add: sh_put_live_def m_def)
  show ?thesis
    unfolding sh_inv_def
  proof (intro conjI allI impI)
    show "sh_typed ns (sh_put_live ns pk ref val d L)"
      using sh_typedD [OF t] m unfolding sh_typed_def v by simp
    fix q h d' assume a: "sh_put_live ns pk ref val d L (MembersKey ns q True) = Some (RHash h d')"
    show "\<exists>b. sh_put_live ns pk ref val d L (ValueKey ns q True) = Some (RStr b d')"
    proof (cases "q = pk")
      case True
      with a have "m = Some (RHash h d')" by (simp add: v)
      then have "d' = d" by (rule d)
      with True show ?thesis by (simp add: v(1))
    next
      case False
      with a assms show ?thesis unfolding v sh_inv_def by simp
    qed
  qed
qed

lemma sh_inv_evicted:
  assumes "sh_inv ns L" "sh_evicted ns pk h L L'" shows "sh_inv ns L'"
proof -
  have v: "L' (ValueKey ns q True) = (if q = pk then None else L (ValueKey ns q True))"
    "L' (MembersKey ns q True) = (if q = pk then None else L (MembersKey ns q True))" for q
    using assms(2) unfolding sh_evicted_def by auto
  have p: "L' (PointerKey ns f w True) = None \<or> L' (PointerKey ns f w True) = L (PointerKey ns f w True)" for f w
    using assms(2) unfolding sh_evicted_def by auto
  have ps: "str_or_none (L' (PointerKey ns f w True))" for f w
    using p [of f w] sh_typedD(2) [OF sh_inv_typed [OF assms(1)], of f w] by auto
  show ?thesis
    using assms(1) ps unfolding sh_inv_def sh_typed_def v by simp
qed

lemma sh_ok_others:
  assumes "sh_ok content now ns s" "sh_others content now ns s s'"
  shows "sh_ok content now ns s'"
proof -
  have i: "sh_inv ns (live (now s') (content s))"
    using assms by (auto simp: sh_ok_def sh_others_def intro: sh_inv_later)
  show ?thesis unfolding sh_ok_def
    by (rule sh_inv_cong [OF i]) (use assms(2) sh_typedD(2) [OF sh_inv_typed [OF i]] in \<open>simp_all add: sh_others_def live_def\<close>)
qed

context redis_client
begin

lemma sh_GetValue_result:
  assumes "sh_typed (sh_ns o1) (live (now (arrive s)) (content s))" "sh_conn o1 = conn"
  shows "fst (sh_GetValue o1 pk s) \<in> insert (Inl ErrStoreMiss) (range Inr)" "quiet content now s (snd (sh_GetValue o1 pk s))"
proof -
  note g = rc_Get_result [of "ValueKey (sh_ns o1) pk True" s]
  show "fst (sh_GetValue o1 pk s) \<in> insert (Inl ErrStoreMiss) (range Inr)"
    using sh_typedD(1) [OF assms(1), of pk] g(1) assms(2)
    by (auto simp: sh_GetValue_def case_prod_unfold Let_def str_or_none_cases)
  show "quiet content now s (snd (sh_GetValue o1 pk s))"
    using g(2,3) arrive(1) [of s] assms(2) by (simp add: sh_GetValue_def quiet_def case_prod_unfold Let_def)
qed

lemma sh_GetByAlias_answers:
  assumes "sh_typed (sh_ns o1) (live (now (arrive s)) (content s))" "sh_conn o1 = conn"
  shows "fst (sh_GetByAlias o1 ref s) \<in> insert (Inl ErrStoreMiss) (range Inr)"
  using sh_GetByAlias_result [OF assms, of ref] by (auto split: option.splits if_splits)

lemma sh_EvictByAlias_result:
  assumes "sh_ok content now (sh_ns o1) s" "sh_conn o1 = conn"
  shows "fst (sh_EvictByAlias o1 ref s) = None \<and>
    (case sh_pointer (sh_ns o1) (live (now (arrive s)) (content s)) ref of
       None \<Rightarrow> quiet content now s (snd (sh_EvictByAlias o1 ref s))
     | Some pk \<Rightarrow> \<exists>s1. quiet content now s s1 \<and> sh_EvictByAlias o1 ref s = sh_EvictByPrimary o1 pk s1)"
proof -
  let ?ns = "sh_ns o1" and ?p = "PointerKey (sh_ns o1) (Field ref) (Value ref) True"
  have i: "sh_inv ?ns (live (now (arrive s)) (content s))"
    using assms(1) unfolding sh_ok_def by (rule sh_inv_later [OF _ arrive(1)])
  define s1 where "s1 = snd (rc_Get conn ?p s)"
  have g: "rc_Get conn ?p s = (get_reply (Inr (sh_pointer ?ns (live (now (arrive s)) (content s)) ref)), s1)"
    using ref_GET_text [OF sh_typedD(2) [OF sh_inv_typed [OF i], of "Field ref" "Value ref"]]
    by (simp add: conn_Get GET arrive(2) sh_pointer_def s1_def)
  have q: "quiet content now s s1"
    using rc_Get_result(2,3) [of ?p s] arrive(1) [of s] by (simp add: quiet_def s1_def)
  show ?thesis
  proof (cases "sh_pointer ?ns (live (now (arrive s)) (content s)) ref")
    case None
    with g q show ?thesis by (simp add: sh_EvictByAlias_def assms(2))
  next
    case (Some pk)
    have ev: "sh_EvictByAlias o1 ref s = sh_EvictByPrimary o1 pk s1"
      using g Some by (simp add: sh_EvictByAlias_def assms(2))
    have "now s \<le> now (arrive s1)" using q arrive(1) [of s1] by (simp add: quiet_def)
    then have "sh_inv ?ns (live (now (arrive s1)) (content s1))"
      using assms(1) q sh_inv_later unfolding sh_ok_def quiet_def by metis
    from sh_EvictByPrimary_result [OF sh_inv_typed [OF this] assms(2), of pk] show ?thesis
      using ev q Some by auto
  qed
qed

lemma sh_ok_arrive: "sh_ok content now ns s \<Longrightarrow> sh_inv ns (live (now (arrive s)) (content s))"
  unfolding sh_ok_def by (rule sh_inv_later [OF _ arrive(1)])

lemma sh_ok_quiet: "sh_ok content now ns s \<Longrightarrow> quiet content now s s' \<Longrightarrow> sh_ok content now ns s'"
  unfolding sh_ok_def quiet_def using sh_inv_later by metis

lemma sh_ok_evict:
  assumes "sh_ok content now (sh_ns o1) s" "sh_conn o1 = conn"
  shows "sh_ok content now (sh_ns o1) (snd (sh_EvictByPrimary o1 pk s))"
proof -
  note i = sh_ok_arrive [OF assms(1)]
  from sh_EvictByPrimary_result [OF sh_inv_typed [OF i] assms(2), of pk] obtain s' where
    s': "snd (sh_EvictByPrimary o1 pk s) = s'" "now (arrive s) \<le> now s'"
    "sh_evicted (sh_ns o1) pk (sh_fields (sh_ns o1) (live (now (arrive s)) (content s)) pk)
       (live (now s') (content s)) (live (now s') (content s'))" by blast
  show ?thesis
    using sh_inv_evicted [OF sh_inv_later [OF i s'(2)] s'(3)] by (simp add: s'(1) sh_ok_def)
qed

lemma sh_ok_put_alias:
  assumes "sh_ok content now (sh_ns o1) s" "sh_conn o1 = conn"
  shows "sh_ok content now (sh_ns o1) (snd (sh_PutByAlias o1 pk ref b ttl s))"
proof -
  let ?ns = "sh_ns o1" and ?p = "PointerKey (sh_ns o1) (Field ref) (Value ref) True"
  note i = sh_ok_arrive [OF assms(1)]
  from sh_PutByAlias_result [OF sh_inv_typed [OF i] assms(2), of pk ref b ttl] obtain s1 s2 d where
    s: "snd (sh_PutByAlias o1 pk ref b ttl s) = s2" "now s1 = now (arrive s)" "now s1 \<le> now s2"
    "live (now s1) (content s1) = sh_put_live ?ns pk ref b (deadline (now s1) (Milliseconds ttl)) (live (now s1) (content s))"
    "content s2 = (content s1)(?p \<mapsto> RStr pk d)" by blast
  have "sh_inv ?ns (live (now s1) (content s1))" unfolding s(4) using i s(2) by (simp add: sh_inv_put)
  then have i2: "sh_inv ?ns (live (now s2) (content s1))" by (rule sh_inv_later [OF _ s(3)])
  have "sh_inv ?ns (live (now s2) (content s2))"
  proof (rule sh_inv_cong [OF i2])
    fix f v
    show "str_or_none (live (now s2) (content s2) (PointerKey ?ns f v True))"
      using sh_typedD(2) [OF sh_inv_typed [OF i2], of f v] by (auto simp: s(5) live_def)
  qed (simp_all add: s(5) live_def)
  then show ?thesis by (simp add: s(1) sh_ok_def)
qed

lemma sh_step_ok:
  assumes "sh_step content now o1 s s'" "sh_conn o1 = conn" "sh_ok content now (sh_ns o1) s"
  shows "sh_ok content now (sh_ns o1) s'"
proof -
  note i = sh_ok_arrive [OF assms(3)]
  from assms(1) show ?thesis
  proof cases
    case (sh_get pk)
    then show ?thesis
      using sh_ok_quiet [OF assms(3) sh_GetValue_result(2) [OF sh_inv_typed [OF i] assms(2)]] by simp
  next
    case (sh_put_val pk b ttl)
    then show ?thesis
      using sh_PutValue_result [OF sh_inv_typed [OF i] assms(2), of pk b ttl] sh_inv_put [OF i]
      by (auto simp: sh_ok_def)
  next
    case (sh_get_alias ref)
    have "quiet content now s s'"
      using sh_GetByAlias_result [OF sh_inv_typed [OF i] assms(2), of ref] arrive(1) [of s]
      by (auto simp: sh_get_alias quiet_def)
    then show ?thesis by (rule sh_ok_quiet [OF assms(3)])
  next
    case (sh_put_alias pk ref b ttl)
    then show ?thesis using sh_ok_put_alias [OF assms(3,2)] by simp
  next
    case (sh_evict pk)
    then show ?thesis using sh_ok_evict [OF assms(3,2)] by simp
  next
    case (sh_evict_alias ref)
    then show ?thesis
      using sh_EvictByAlias_result [OF assms(3,2), of ref] sh_ok_quiet [OF assms(3)] sh_ok_evict [OF _ assms(2)]
      by (auto split: option.splits)
  next
    case sh_env
    then show ?thesis by (rule sh_ok_others [OF assms(3)])
  qed
qed

lemma sh_run_ok:
  assumes "sh_run content now o1 s s'" "sh_conn o1 = conn" "sh_ok content now (sh_ns o1) s"
  shows "sh_ok content now (sh_ns o1) s'"
  using assms(1,3) by induction (auto intro: sh_step_ok [OF _ assms(2)])

text \<open>A write is read back until the deadline of the record; an alias that it replaced misses.\<close>

lemma sh_put_get:
  assumes "sh_conn o1 = conn" "sh_ok content now (sh_ns o1) s" "Field ref \<noteq> ''''" "1000000 \<le> ttl"
    and "sh_PutByAlias o1 pk ref b ttl s = (e, s1)" "sh_others content now (sh_ns o1) s1 s2"
  shows "now (snd (sh_GetByAlias o1 ref s2)) \<le> now (arrive s) + Milliseconds ttl \<Longrightarrow> fst (sh_GetByAlias o1 ref s2) = Inr b"
    and "Field old = Field ref \<Longrightarrow> old \<noteq> ref \<Longrightarrow>
      sh_pointer (sh_ns o1) (live (now (arrive s2)) (content s2)) old = Some pk \<Longrightarrow> fst (sh_GetByAlias o1 old s2) = Inl ErrStoreMiss"
proof -
  let ?ns = "sh_ns o1" and ?ms = "Milliseconds ttl" and ?t = "now (arrive s)"
  let ?P = "PointerKey (sh_ns o1) (Field ref) (Value ref) True" and ?V = "ValueKey (sh_ns o1) pk True"
    and ?M = "MembersKey (sh_ns o1) pk True"
  have ms: "0 < ?ms" "?ms = ttl div 1000000" "go_px ttl = Some ?ms"
    using assms(4) Milliseconds_pos [of ttl] Milliseconds_nonneg [of ttl] by (simp_all add: go_px_def max_def)
  note i = sh_inv_typed [OF sh_ok_arrive [OF assms(2)]]
  have ttl: "ttl \<noteq> -1" using assms(4) by simp
  from sh_PutByAlias_result [OF i assms(1), of pk ref b ttl] assms(5) ttl obtain m where
    m: "now m = ?t" "now m \<le> now s1"
    "live (now m) (content m) = sh_put_live ?ns pk ref b (deadline (now m) ?ms) (live (now m) (content s))"
    "content s1 = (content m)(?P \<mapsto> RStr pk (px_deadline (now s1) (go_px ttl)))" by auto
  define h where "h = rv_fields (hset_value (Field ref) (Value ref) (live ?t (content s) ?M))"
  have h: "fmlookup h (Field ref) = Some (Value ref)"
    "map_option (rv_expire d) (hset_value (Field ref) (Value ref) (live ?t (content s) ?M)) = Some (RHash h d)" for d
    using sh_typedD(3) [OF i, of pk] by (auto simp: h_def not_str_cases)
  have "live ?t (content m) ?V = Some (RStr b (Some (?t + ?ms)))" "live ?t (content m) ?M = Some (RHash h (Some (?t + ?ms)))"
    using m(3) assms(3) ms(1) h(2) by (simp_all add: m(1) sh_put_live_def deadline_pos)
  then have "content m ?V = Some (RStr b (Some (?t + ?ms)))" "content m ?M = Some (RHash h (Some (?t + ?ms)))"
    by (simp_all add: live_Some)
  then have c: "content s2 ?V = Some (RStr b (Some (?t + ?ms)))" "content s2 ?M = Some (RHash h (Some (?t + ?ms)))"
    "content s2 ?P = Some (RStr pk (Some (now s1 + ?ms)))"
    using assms(6) m(4) ms(3) by (simp_all add: sh_others_def px_deadline_def)
  have "sh_ok content now ?ns s1" using sh_ok_put_alias [OF assms(2,1), of pk ref b ttl] assms(5) by simp
  then have "sh_ok content now ?ns s2" by (rule sh_ok_others [OF _ assms(6)])
  note ty = sh_inv_typed [OF sh_ok_arrive [OF this]]
  show "fst (sh_GetByAlias o1 ref s2) = Inr b" if le: "now (snd (sh_GetByAlias o1 ref s2)) \<le> ?t + ?ms"
  proof -
    from sh_GetByAlias_result [OF ty assms(1), of ref] obtain t1 s3 where
      g: "snd (sh_GetByAlias o1 ref s2) = s3" "t1 \<le> now s3"
      "fst (sh_GetByAlias o1 ref s2) = (case sh_pointer ?ns (live t1 (content s2)) ref of
         None \<Rightarrow> Inl ErrStoreMiss
       | Some pk \<Rightarrow>
           (case rv_text (live (now s3) (content s2) (ValueKey ?ns pk True)) of
              None \<Rightarrow> Inl ErrStoreMiss
            | Some b \<Rightarrow> if sh_claims ?ns (live (now s3) (content s2)) pk ref then Inr b else Inl ErrStoreMiss))" by blast
    have "now s3 \<le> ?t + ?ms" using le g(1) by simp
    moreover have "t1 \<le> now s1 + ?ms" using calculation g(2) m(1,2) by simp
    ultimately show ?thesis
      unfolding g(3) by (simp add: sh_pointer_def sh_claims_def sh_fields_def live_def c h(1))
  qed
  show "fst (sh_GetByAlias o1 old s2) = Inl ErrStoreMiss"
    if old: "Field old = Field ref" "old \<noteq> ref" "sh_pointer ?ns (live (now (arrive s2)) (content s2)) old = Some pk"
  proof -
    from sh_GetByAlias_result [OF ty assms(1), of old] obtain s3 where
      g: "fst (sh_GetByAlias o1 old s2) = (case sh_pointer ?ns (live (now (arrive s2)) (content s2)) old of
         None \<Rightarrow> Inl ErrStoreMiss
       | Some pk \<Rightarrow>
           (case rv_text (live (now s3) (content s2) (ValueKey ?ns pk True)) of
              None \<Rightarrow> Inl ErrStoreMiss
            | Some b \<Rightarrow> if sh_claims ?ns (live (now s3) (content s2)) pk old then Inr b else Inl ErrStoreMiss))" by blast
    have "Value old \<noteq> Value ref" using old(1,2) by (auto intro: AliasRef.equality)
    then have "\<not> sh_claims ?ns (live (now s3) (content s2)) pk old"
      using h(1) old(1) by (simp add: sh_claims_def sh_fields_def live_def c(2))
    then show ?thesis unfolding g old(3) by (simp split: option.split)
  qed
qed

end

end
