(* ===== verification/Redis_Reference.thy ===== *)
theory Redis_Reference
  imports Redis_Prefix Redis_Sharded
begin

text \<open>
  An executable server that keeps every contract above: the commands by their documented effect on
  the key they name, a clock that moves by a fixed lag with every call, \<open>SCAN\<close> in four slots by the
  length of the key, the pattern language of the documentation.  The interpretations show that the
  contracts can be kept, and the witnesses of the properties run on it.
\<close>

record refserver =
  rs_keys :: "rvalue gomap"
  rs_now :: int
  rs_lag :: nat

definition rs_content :: "refserver \<Rightarrow> rcontent" where
  "rs_content s = fmlookup (rs_keys s)"

definition rs_arrive :: "refserver \<Rightarrow> refserver" where
  "rs_arrive s = s\<lparr>rs_now := rs_now s + int (rs_lag s)\<rparr>"

definition rs_live :: "refserver \<Rightarrow> string \<Rightarrow> rvalue option" where
  "rs_live s = live (rs_now s) (rs_content s)"

definition rs_put :: "string \<Rightarrow> rvalue option \<Rightarrow> refserver \<Rightarrow> refserver" where
  "rs_put k v s = s\<lparr>rs_keys := (case v of None \<Rightarrow> fmdrop k (rs_keys s) | Some x \<Rightarrow> fmupd k x (rs_keys s))\<rparr>"

definition rs_at :: "string \<Rightarrow> (rvalue option \<Rightarrow> rvalue option) \<Rightarrow> refserver \<Rightarrow> refserver" where
  "rs_at k f s = (let v = rs_live s k in if f v = v then s else rs_put k (f v) s)"

definition rs_cmds :: "refserver redis_cmds" where
  "rs_cmds = \<lparr>
     rd_GET = (\<lambda>k s. (ref_GET (rs_live s k), s)),
     rd_SET = (\<lambda>k v px s.
       if px = None \<or> 0 < the px then (Inr (), rs_put k (Some (RStr v (px_deadline (rs_now s) px))) s)
       else (Inl (OtherErr ''ERR invalid expire time''), s)),
     rd_DEL = (\<lambda>k s. (Inr (if rs_live s k = None then 0 else 1), rs_put k None s)),
     rd_HGET = (\<lambda>k f s. (ref_HGET f (rs_live s k), s)),
     rd_HSET = (\<lambda>k f v s. (hash_reply (rs_live s k), rs_at k (hset_value f v) s)),
     rd_HDEL = (\<lambda>k f s. (hash_reply (rs_live s k), rs_at k (hdel_value f) s)),
     rd_HGETALL = (\<lambda>k s.
       (case ref_hash (rs_live s k) of
          Inl e \<Rightarrow> Inl e
        | Inr h \<Rightarrow> Inr (flat_pairs (map (\<lambda>f. (f, the (fmlookup h f))) (sorted_list_of_fset (fmdom h)))), s)),
     rd_PEXPIRE = (\<lambda>k ms s.
       (Inr (), if 0 < ms then rs_at k (map_option (rv_expire (Some (rs_now s + ms)))) s else rs_put k None s)),
     rd_PERSIST = (\<lambda>k s. (Inr (), rs_at k (map_option (rv_expire None)) s))\<rparr>"

subsection \<open>Patterns\<close>

text \<open>A bracket expression up to its closing bracket: does it contain the character, and what follows.\<close>

function glob_class :: "string \<Rightarrow> char \<Rightarrow> bool \<times> string" where
  "glob_class [] x = (False, [])"
| "glob_class (c # p) x =
     (if c = CHR '']'' then (False, p)
      else if c = CHR 0x5C \<and> p \<noteq> [] then (let (r, q) = glob_class (tl p) x in (x = hd p \<or> r, q))
      else if 2 \<le> length p \<and> hd p = CHR ''-'' then
        (let (r, q) = glob_class (drop 2 p) x in ((min c (p ! 1) \<le> x \<and> x \<le> max c (p ! 1)) \<or> r, q))
      else (let (r, q) = glob_class p x in (x = c \<or> r, q)))"
  by pat_completeness auto

termination by (relation "measure (\<lambda>(p, x). length p)") auto

lemma glob_class_shorter: "length (snd (glob_class p x)) \<le> length p"
proof (induction p x rule: glob_class.induct)
  case (2 c p x)
  then show ?case by (auto simp: Let_def split: prod.splits)
qed simp

function ref_glob :: "string \<Rightarrow> string \<Rightarrow> bool" where
  "ref_glob [] k = (k = [])"
| "ref_glob (c # p) k =
     (if c = CHR ''*'' then (if k = [] then ref_glob p k else ref_glob p k \<or> ref_glob (c # p) (tl k))
      else if k = [] then False
      else if c = CHR ''?'' then ref_glob p (tl k)
      else if c = CHR 0x5C \<and> p \<noteq> [] then hd p = hd k \<and> ref_glob (tl p) (tl k)
      else if c = CHR ''['' then
        (if p \<noteq> [] \<and> hd p = CHR ''^''
         then \<not> fst (glob_class (tl p) (hd k)) \<and> ref_glob (snd (glob_class (tl p) (hd k))) (tl k)
         else fst (glob_class p (hd k)) \<and> ref_glob (snd (glob_class p (hd k))) (tl k))
      else c = hd k \<and> ref_glob p (tl k))"
  by pat_completeness auto

termination
proof (relation "measure (\<lambda>(p, k). length p + length k)", goal_cases)
  case (6 c p k)
  then show ?case using glob_class_shorter [of "tl p" "hd k"] glob_class_shorter [of p "hd k"] by (cases k; cases p) auto
next
  case (7 c p k)
  then show ?case using glob_class_shorter [of "tl p" "hd k"] glob_class_shorter [of p "hd k"] by (cases k; cases p) auto
next
  case (8 c p k)
  then show ?case using glob_class_shorter [of p "hd k"] by (cases k; cases p) auto
qed auto

lemma meta_chars:
  "of_char c \<notin> glob_meta \<Longrightarrow> c \<noteq> CHR ''*'' \<and> c \<noteq> CHR ''?'' \<and> c \<noteq> CHR ''['' \<and> c \<noteq> CHR 0x5C"
  by (auto simp: glob_meta_def)

lemma ref_glob_simps:
  "ref_glob [] k \<longleftrightarrow> k = []"
  "of_char c \<notin> glob_meta \<Longrightarrow> ref_glob (c # p) k \<longleftrightarrow> k \<noteq> [] \<and> c = hd k \<and> ref_glob p (tl k)"
  "ref_glob (CHR 0x5C # c # p) k \<longleftrightarrow> k \<noteq> [] \<and> c = hd k \<and> ref_glob p (tl k)"
  "ref_glob (CHR ''*'' # p) [] \<longleftrightarrow> ref_glob p []"
  "ref_glob (CHR ''*'' # p) (x # k) \<longleftrightarrow> ref_glob p (x # k) \<or> ref_glob (CHR ''*'' # p) k"
proof -
  show "ref_glob (c # p) k \<longleftrightarrow> k \<noteq> [] \<and> c = hd k \<and> ref_glob p (tl k)" if "of_char c \<notin> glob_meta"
    using meta_chars [OF that] by (subst ref_glob.simps(2)) simp
  show "ref_glob (CHR 0x5C # c # p) k \<longleftrightarrow> k \<noteq> [] \<and> c = hd k \<and> ref_glob p (tl k)"
    by (subst ref_glob.simps(2)) simp
  show "ref_glob (CHR ''*'' # p) [] \<longleftrightarrow> ref_glob p []" by (subst ref_glob.simps(2)) simp
  show "ref_glob (CHR ''*'' # p) (x # k) \<longleftrightarrow> ref_glob p (x # k) \<or> ref_glob (CHR ''*'' # p) k"
    by (subst ref_glob.simps(2)) simp
qed simp

declare ref_glob.simps [simp del]

interpretation ref_glob: glob_syntax ref_glob
proof unfold_locales
  fix c p k assume "of_char c \<notin> glob_meta"
  then show "ref_glob (c # p) k = (\<exists>k'. k = c # k' \<and> ref_glob p k')" by (cases k) (auto simp: ref_glob_simps(2))
next
  fix c p k show "ref_glob (CHR 0x5C # c # p) k = (\<exists>k'. k = c # k' \<and> ref_glob p k')"
    by (cases k) (auto simp: ref_glob_simps(3))
next
  fix p k show "ref_glob (CHR ''*'' # p) k = (\<exists>a b. k = a @ b \<and> ref_glob p b)"
  proof (induction k)
    case (Cons x k)
    have "(\<exists>a b. x # k = a @ b \<and> ref_glob p b) \<longleftrightarrow> ref_glob p (x # k) \<or> (\<exists>a b. k = a @ b \<and> ref_glob p b)"
      by (metis append_Cons append_Nil list.inject neq_Nil_conv)
    with Cons.IH show ?case by (simp add: ref_glob_simps(5))
  qed (simp add: ref_glob_simps(4))
qed (simp add: ref_glob_simps(1))

subsection \<open>Commands\<close>

lemma rs_content_put [simp]: "rs_content (rs_put k v s) = (rs_content s)(k := v)" "rs_now (rs_put k v s) = rs_now s"
  by (auto simp: rs_content_def rs_put_def fun_eq_iff split: option.splits)

lemma rs_content_at [simp]: "rs_content (rs_at k f s) = at_key (rs_now s) k f (rs_content s)" "rs_now (rs_at k f s) = rs_now s"
  by (auto simp: rs_at_def at_key_def rs_live_def Let_def fun_eq_iff)

lemma sorted_pairs:
  fixes h :: "string gomap"
  defines "ps \<equiv> map (\<lambda>f. (f, the (fmlookup h f))) (sorted_list_of_fset (fmdom h))"
  shows "distinct (map fst ps)" "fmap_of_list ps = h"
proof -
  have d: "distinct (sorted_list_of_fset (fmdom h))" "set (sorted_list_of_fset (fmdom h)) = fset (fmdom h)"
    using range_ok_sorted by simp_all
  have f: "map fst ps = sorted_list_of_fset (fmdom h)" by (simp add: ps_def comp_def)
  show "distinct (map fst ps)" using d by (simp add: f)
  show "fmap_of_list ps = h"
  proof (rule fmap_eqI)
    fix k
    have "map_of ps k = fmlookup h k"
      using d by (simp add: ps_def map_of_map_restrict restrict_map_def) (metis fmdomE fmdom_notI fmlookup_dom_iff option.collapse)
    then show "fmlookup (fmap_of_list ps) k = fmlookup h k" by (simp add: fmlookup_of_list)
  qed
qed

interpretation ref_server: redis_server rs_cmds rs_content rs_now
proof unfold_locales
  fix k s
  show "case ref_hash (live (rs_now s) (rs_content s) k) of
      Inl e \<Rightarrow> fst (rd_HGETALL rs_cmds k s) = Inl e
    | Inr h \<Rightarrow> \<exists>ps. fst (rd_HGETALL rs_cmds k s) = Inr (flat_pairs ps) \<and> distinct (map fst ps) \<and> fmap_of_list ps = h"
    using sorted_pairs by (auto simp: rs_cmds_def rs_live_def split: sum.splits)
qed (auto simp: rs_cmds_def rs_live_def)

subsection \<open>Scanning\<close>

definition rs_slot :: "string \<Rightarrow> nat" where
  "rs_slot k = length k mod 4"

definition rs_page :: "nat \<Rightarrow> string \<Rightarrow> refserver \<Rightarrow> string list" where
  "rs_page q m s = filter (\<lambda>k. ref_glob m k \<and> rs_slot k = q \<and> rs_live s k \<noteq> None) (sorted_list_of_fset (fmdom (rs_keys s)))"

definition rs_Scan :: "refserver node_scanner" where
  "rs_Scan c m n s = (Inr (rs_page (c mod 4) m (rs_arrive s), (c mod 4 + 1) mod 4), rs_arrive s)"

lemma rs_page_iff: "k \<in> set (rs_page q m s) \<longleftrightarrow> ref_glob m k \<and> rs_slot k = q \<and> rs_live s k \<noteq> None"
proof -
  have "set (sorted_list_of_fset (fmdom (rs_keys s))) = fset (fmdom (rs_keys s))" using range_ok_sorted by simp
  moreover have "k |\<in>| fmdom (rs_keys s)" if "rs_live s k \<noteq> None"
    using that live_None [of "rs_content s" k "rs_now s"]
    by (cases "fmlookup (rs_keys s) k") (auto simp: rs_live_def rs_content_def fmlookup_dom_iff)
  ultimately show ?thesis by (auto simp: rs_page_def)
qed

lemma rs_scan_slots:
  assumes "scan_chain rs_Scan m n c ps" "c < 4"
  shows "length ps \<le> 4 - c \<and> (ps \<noteq> [] \<longrightarrow> snd (snd (last ps)) = 0 \<longrightarrow>
    (\<forall>q. c \<le> q \<longrightarrow> q < 4 \<longrightarrow> (\<exists>(s', ks, c') \<in> set ps. ks = rs_page q m s')))"
  using assms
proof (induction ps arbitrary: c)
  case (Cons p ps)
  obtain s' ks c' where p: "p = (s', ks, c')" by (cases p)
  have st: "ks = rs_page c m s'" "c' = (c + 1) mod 4" "c' = 0 \<longrightarrow> ps = []" "scan_chain rs_Scan m n c' ps"
    using Cons.prems unfolding p scan_chain.simps rs_Scan_def [of c] by auto
  have c': "c' = (if c = 3 then 0 else c + 1)" using st(2) Cons.prems(2) by (auto simp: mod_Suc)
  then have "c' < 4" using Cons.prems(2) by auto
  note IH = Cons.IH [OF st(4) this]
  have "\<exists>(s', ks, c') \<in> set (p # ps). ks = rs_page q m s'"
    if "snd (snd (last (p # ps))) = 0" "c \<le> q" "q < 4" for q
  proof (cases "q = c")
    case True
    then show ?thesis using st(1) by (auto simp: p)
  next
    case False
    then have "c \<noteq> 3" "c' \<le> q" using that c' by auto
    moreover have "ps \<noteq> []" using that(1) c' \<open>c \<noteq> 3\<close> by (auto simp: p)
    ultimately show ?thesis using IH that by auto
  qed
  moreover have "length (p # ps) \<le> 4 - c" using IH st(3) c' Cons.prems(2) by (cases "c = 3") auto
  ultimately show ?case by blast
qed simp

interpretation ref_scan: redis_scan ref_glob rs_content rs_now rs_Scan
proof unfold_locales
  fix c m n s
  show "\<exists>ks c'. fst (rs_Scan c m n s) = Inr (ks, c')" "rs_content (snd (rs_Scan c m n s)) = rs_content s"
    "rs_now s \<le> rs_now (snd (rs_Scan c m n s))"
    by (simp_all add: rs_Scan_def rs_arrive_def rs_content_def)
next
  fix c m n s ks c' k assume "fst (rs_Scan c m n s) = Inr (ks, c')" "k \<in> set ks"
  then have "ref_glob m k" "rs_live (rs_arrive s) k \<noteq> None" by (auto simp: rs_Scan_def rs_page_iff)
  then show "ref_glob m k \<and> rs_content s k \<noteq> None"
    by (auto simp: rs_live_def live_Some rs_arrive_def rs_content_def)
next
  fix m n ps k
  assume a: "full_iteration rs_Scan m n ps" "ref_glob m k" "\<forall>(s', ks, c') \<in> set ps. live (rs_now s') (rs_content s') k \<noteq> None"
  have "\<exists>(s', ks, c') \<in> set ps. ks = rs_page (rs_slot k) m s'"
    using rs_scan_slots [of m n 0 ps] a(1) by (auto simp: full_iteration_def rs_slot_def)
  then obtain s' c' where p: "(s', rs_page (rs_slot k) m s', c') \<in> set ps" by auto
  with a(3) have "rs_live s' k \<noteq> None" by (auto simp: rs_live_def)
  with a(2) have "k \<in> set (rs_page (rs_slot k) m s')" by (simp add: rs_page_iff)
  with p show "\<exists>(s', ks, c') \<in> set ps. k \<in> set ks" by blast
next
  fix m n b
  show "\<exists>N. \<forall>ps. scan_chain rs_Scan m n 0 ps \<longrightarrow> (\<forall>(s', ks, c') \<in> set ps. small rs_content b s') \<longrightarrow> length ps \<le> N"
    using rs_scan_slots [of m n 0] by (intro exI [of _ 4]) auto
qed

subsection \<open>The connection\<close>

text \<open>A connection to it, by what \<open>arr\<close> says happens before a command of ours arrives.\<close>

definition rs_conn_by :: "(refserver \<Rightarrow> refserver) \<Rightarrow> refserver RedisConn" where
  "rs_conn_by arr = \<lparr>
     rc_Get = (\<lambda>k s. let (r, s1) = rd_GET rs_cmds k (arr s) in (get_reply r, s1)),
     rc_Set = (\<lambda>k v ttl s. let a = arr s in
       if ttl = -1 then (None, rs_put k (Some (RStr v (Option.bind (rs_live a k) rv_deadline))) a)
       else (None, snd (rd_SET rs_cmds k v (go_px ttl) a))),
     rc_Del = (\<lambda>ks s. let a = arr s in
       (Inr (int (length (filter (\<lambda>k. rs_live a k \<noteq> None) (remdups ks)))), fold (\<lambda>k. rs_put k None) ks a)),
     rc_Exists = (\<lambda>ks s. let a = arr s in (Inr (int (length (filter (\<lambda>k. rs_live a k \<noteq> None) ks))), a)),
     rc_MGet = (\<lambda>ks s. let a = arr s in (Inr (map (\<lambda>k. mget_reply (rs_live a k)) ks), a)),
     rc_Eval = (\<lambda>sc ks args s. let (r, s1) = run_script rs_cmds sc ks args (arr s) in (lua_reply r, s1)),
     rc_ScanKeys = Some (ScanKeys_all rs_Scan)\<rparr>"

lemma rs_put_keys: "fmlookup (rs_keys (rs_put k v s)) = (fmlookup (rs_keys s))(k := v)"
  using rs_content_put(1) [of k v s] by (simp add: rs_content_def)

text \<open>Whatever other clients do before a command arrives, as long as time does not run backwards.\<close>

lemma rs_conn_by_calls:
  assumes "\<And>s. rs_now s \<le> rs_now (arr s)"
  shows "redis_calls rs_cmds rs_content rs_now (rs_conn_by arr) arr"
  by unfold_locales
    (use assms in \<open>auto simp: rs_conn_by_def rs_cmds_def rs_live_def rs_content_def rs_put_keys case_prod_unfold Let_def\<close>)

text \<open>Nothing but the lag.\<close>

definition rs_conn :: "refserver RedisConn" where
  "rs_conn = rs_conn_by rs_arrive"

interpretation ref_client: redis_client rs_cmds rs_content rs_now rs_conn rs_arrive
proof (rule redis_client.intro)
  show "redis_calls rs_cmds rs_content rs_now rs_conn rs_arrive"
    unfolding rs_conn_def by (rule rs_conn_by_calls) (simp add: rs_arrive_def)
  show "redis_client_axioms rs_content rs_arrive"
    by unfold_locales (simp add: rs_arrive_def rs_content_def)
qed

interpretation ref_prefix: redis_prefix rs_cmds rs_content rs_now rs_conn rs_arrive ref_glob "ScanKeys_all rs_Scan"
  by unfold_locales (simp add: rs_conn_def rs_conn_by_def)

text \<open>A client that writes \<open>v\<close> under \<open>k\<close> at the instant \<open>T\<close>.\<close>

definition rs_thief :: "string \<Rightarrow> rvalue \<Rightarrow> int \<Rightarrow> refserver \<Rightarrow> refserver" where
  "rs_thief k v T s =
     (let a = rs_arrive s in if rs_now s < T \<and> T \<le> rs_now a then rs_put k (Some v) a else a)"

lemma rs_thief_calls: "redis_calls rs_cmds rs_content rs_now (rs_conn_by (rs_thief k v T)) (rs_thief k v T)"
  by (rule rs_conn_by_calls) (simp add: rs_thief_def rs_arrive_def Let_def)

lemma rs_thief_holds: "others_hold rs_content rs_now (rs_thief k v T) k v t0 T"
  by (auto simp: others_hold_def rs_thief_def rs_arrive_def rs_content_def Let_def rs_put_keys)

text \<open>An empty server one millisecond away.\<close>

definition demo_server :: refserver where
  "demo_server = \<lparr>rs_keys = fmempty, rs_now = 0, rs_lag = 1\<rparr>"

lemma demo_server_content [simp]: "rs_content demo_server k = None" "live t (rs_content demo_server) k = None"
  by (simp_all add: demo_server_def rs_content_def live_def)

lemma demo_group_content [simp]: "co_ok rs_content rs_now ns demo_server" "sh_ok rs_content rs_now ns demo_server"
  by (simp_all add: co_ok_def sh_ok_def sh_inv_def sh_typed_def co_inv_empty)

lemma rs_content_finite [simp]: "finite (dom (rs_content s))"
  by (simp add: rs_content_def)

end
