(* ===== verification/Redis_Cache.thy ===== *)
theory Redis_Cache
  imports Redis_Client Cache_Run
begin

text \<open>
  Caches on the Redis store.  \<open>on_redis conn c\<close> is the cache \<open>c\<close> bound to it as \<open>Register\<close> binds it.  It
  meets the client contract with the server's clock, whose grain is a millisecond, so that every lemma
  of \<open>Cache_Client\<close> and \<open>Cache_Run\<close> holds of it.
\<close>

definition on_redis :: "'s RedisConn \<Rightarrow> ('v, 's, 'x) Cache \<Rightarrow> ('v, 's, 'x) Cache" where
  "on_redis conn c = c\<lparr>c_store := redis_store conn, c_batch := Some (redis_GetMany conn),
     c_prefixStore := Some (redis_DeleteByPrefix conn), c_prefixAlias := None, c_aliasOps := None\<rparr>"

lemma on_redis_simps [simp]:
  "c_opts (on_redis conn c) = c_opts c" "c_codec (on_redis conn c) = c_codec c"
  "c_aliasOps (on_redis conn c) = None" "fullKey (on_redis conn c) k = fullKey c k"
  "solo_flight (on_redis conn c) = solo_flight c" "config_ok (on_redis conn c) = config_ok c"
  "finite_ttl (on_redis conn c) = finite_ttl c" "max_ttl (on_redis conn c) = max_ttl c"
  "codec_ok (on_redis conn c) v b = codec_ok c v b" "cached_answer (on_redis conn c) got = cached_answer c got"
  "within_ttl (on_redis conn c) d t t' = within_ttl c d t t'"
  by (simp_all add: on_redis_def fullKey_def solo_flight_def config_ok_def finite_ttl_def
      max_ttl_def codec_ok_def cached_answer_def within_ttl_def split: sum.splits)

text \<open>The content of the store in nanoseconds, and the instant at which the next command is served.\<close>

definition redis_entry :: "rvalue option \<Rightarrow> (bytes \<times> int option) option" where
  "redis_entry v = (case v of Some (RStr b d) \<Rightarrow> Some (b, map_option ((*) 1000000) d) | _ \<Rightarrow> None)"

definition redis_entries :: "('s \<Rightarrow> rcontent) \<Rightarrow> 's \<Rightarrow> string \<Rightarrow> (bytes \<times> int option) option" where
  "redis_entries content s key = redis_entry (content s key)"

definition served :: "('s \<Rightarrow> int) \<Rightarrow> ('s \<Rightarrow> 's) \<Rightarrow> 's \<Rightarrow> int" where
  "served now arrive s = 1000000 * now (arrive s)"

definition redis_expiry :: "int \<Rightarrow> int \<Rightarrow> int option" where
  "redis_expiry t ttl = (if 0 < ttl then Some (t + 1000000 * max 1 (ttl div 1000000)) else None)"

text \<open>No key of the cache holds a hash.\<close>

definition plain_ok :: "('s \<Rightarrow> rcontent) \<Rightarrow> ('v, 's, 'x) Cache \<Rightarrow> 's \<Rightarrow> bool" where
  "plain_ok content c s \<longleftrightarrow> (\<forall>k. str_or_none (content s (fullKey c k)))"

lemma redis_entry_simps [simp]:
  "redis_entry None = None" "redis_entry (Some (RStr b d)) = Some (b, map_option ((*) 1000000) d)"
  by (simp_all add: redis_entry_def)

lemma expired_ns: "expired_at (map_option ((*) 1000000) d) (1000000 * t) = expired_at d t"
  by (cases d) simp_all

lemma expiry_px: "map_option ((*) 1000000) (px_deadline t (go_px ttl)) = redis_expiry (1000000 * t) ttl"
  by (simp add: px_deadline_def go_px_def redis_expiry_def distrib_left)

lemma entry_live:
  assumes "str_or_none (live t (content s) k)"
  shows "(case redis_entries content s k of
       None \<Rightarrow> Inl ErrStoreMiss | Some (b, d) \<Rightarrow> if expired_at d (1000000 * t) then Inl ErrStoreMiss else Inr b) =
    (case live t (content s) k of
       None \<Rightarrow> Inl ErrStoreMiss | Some (RStr b d) \<Rightarrow> Inr b | Some (RHash h d) \<Rightarrow> Inl wrong_type)"
proof (cases "content s k")
  case (Some v)
  then show ?thesis
    using assms by (cases v) (auto simp: redis_entries_def redis_entry_def expired_ns live_def)
qed (simp add: redis_entries_def live_def)

lemma redis_expiry_close:
  "1 \<le> ttl \<Longrightarrow> \<exists>d. redis_expiry t ttl = Some d \<and> t + ttl < d + 1000000 \<and> d < t + ttl + 1000000"
proof -
  assume "1 \<le> ttl"
  moreover have "ttl < 1000000 * (ttl div 1000000) + 1000000" "1000000 * (ttl div 1000000) \<le> ttl" by presburger+
  ultimately show ?thesis by (auto simp: redis_expiry_def max_def)
qed

context redis_client
begin

lemma Get_entry:
  assumes "str_or_none (live (now (arrive s)) (content s) k)"
  shows "fst (redis_Get conn k s) =
    (case redis_entries content s k of
       None \<Rightarrow> Inl ErrStoreMiss
     | Some (b, d) \<Rightarrow> if expired_at d (served now arrive s) then Inl ErrStoreMiss else Inr b)"
  unfolding served_def redis_Get_result(1) by (rule entry_live [symmetric], rule assms)

lemma Set_all:
  shows "fst (redis_Set conn k b ttl s) = None" "now (snd (redis_Set conn k b ttl s)) = now (arrive s)"
    and "\<exists>d. content (snd (redis_Set conn k b ttl s)) = (content s)(k \<mapsto> RStr b d) \<and>
      (0 < ttl \<longrightarrow> d = px_deadline (now (arrive s)) (go_px ttl))"
  using redis_Set_result [of ttl k b s] conn_Set_keep [of k b s]
  by (cases "ttl = -1"; auto simp: redis_Set_def arrive)+

end

sublocale redis_client \<subseteq> rplain: value_client
  "\<lambda>k. redis_Get conn (fullKey c k)" "\<lambda>k. redis_Set conn (fullKey c k)" "\<lambda>k. redis_Delete conn (fullKey c k)"
  "\<lambda>s k. redis_entries content s (fullKey c k)" "served now arrive" "plain_ok content c" redis_expiry 1000000 1
  "on_redis conn c"
  for c :: "('v, 's, 'x) Cache"
proof unfold_locales
  fix s k k' b d and ttl t :: int
  show "1 \<le> ttl \<Longrightarrow> \<exists>d. redis_expiry t ttl = Some d \<and> t + ttl < d + 1000000 \<and> d < t + ttl + 1000000"
    by (rule redis_expiry_close)
  show "getValue (on_redis conn c) k = on_store (redis_Get conn (fullKey c k))"
    "setValue (on_redis conn c) k b ttl = on_store (redis_Set conn (fullKey c k) b ttl)"
    "deleteValue (on_redis conn c) k = on_store (redis_Delete conn (fullKey c k))"
    by (simp_all add: getValue_def setValue_def deleteValue_def on_redis_def redis_store_def fullKey_def fun_eq_iff)
  assume ok: "plain_ok content c s"
  note g = redis_Get_result(2,3) [of "fullKey c k" s] and se = Set_all [of "fullKey c k" b ttl s]
    and dl = redis_Delete_result [of "fullKey c k" s]
  show "fst (redis_Get conn (fullKey c k) s) =
      (case redis_entries content s (fullKey c k) of
         None \<Rightarrow> Inl ErrStoreMiss
       | Some (b, d) \<Rightarrow> if expired_at d (served now arrive s) then Inl ErrStoreMiss else Inr b)"
    using ok live_or [of "now (arrive s)" "content s" "fullKey c k"]
    by (intro Get_entry) (auto simp: plain_ok_def)
  show "k' \<noteq> k \<Longrightarrow> redis_entries content (snd (redis_Get conn (fullKey c k) s)) (fullKey c k') =
      redis_entries content s (fullKey c k')"
    "redis_entries content s (fullKey c k) = Some (b, d) \<Longrightarrow> \<not> expired_at d (served now arrive s) \<Longrightarrow>
      redis_entries content (snd (redis_Get conn (fullKey c k) s)) (fullKey c k) = Some (b, d)"
    "redis_entries content (snd (redis_Get conn (fullKey c k) s)) (fullKey c k) = None \<or>
      redis_entries content (snd (redis_Get conn (fullKey c k) s)) (fullKey c k) = redis_entries content s (fullKey c k)"
    by (simp_all add: redis_entries_def g)
  show "fst (redis_Set conn (fullKey c k) b ttl s) = None" "fst (redis_Delete conn (fullKey c k) s) = None"
    using se(1) dl(1) by simp_all
  show "1 \<le> ttl \<Longrightarrow> redis_entries content (snd (redis_Set conn (fullKey c k) b ttl s)) (fullKey c k) =
      Some (b, redis_expiry (served now arrive s) ttl)"
    "k' \<noteq> k \<Longrightarrow> redis_entries content (snd (redis_Set conn (fullKey c k) b ttl s)) (fullKey c k') =
      redis_entries content s (fullKey c k')"
    using se(3) by (auto simp: redis_entries_def served_def expiry_px)
  show "(\<lambda>k'. redis_entries content (snd (redis_Delete conn (fullKey c k) s)) (fullKey c k')) =
      (\<lambda>k. redis_entries content s (fullKey c k))(k := None)"
    by (auto simp: redis_entries_def dl fun_eq_iff)
  have "now (arrive s) \<le> now (arrive s')" if "now s' = now (arrive s)" for s'
    using that arrive(1) [of s'] by simp
  note t = this
  show "plain_ok content c (snd (redis_Get conn (fullKey c k) s)) \<and>
      served now arrive s \<le> served now arrive (snd (redis_Get conn (fullKey c k) s))"
    "plain_ok content c (snd (redis_Delete conn (fullKey c k) s)) \<and>
      served now arrive s \<le> served now arrive (snd (redis_Delete conn (fullKey c k) s))"
    using ok t [OF g(2)] t [OF dl(3)] by (simp_all add: plain_ok_def served_def g dl)
  show "plain_ok content c (snd (redis_Set conn (fullKey c k) b ttl s)) \<and>
      served now arrive s \<le> served now arrive (snd (redis_Set conn (fullKey c k) b ttl s))"
    using ok t [OF se(2)] se(3) by (auto simp: plain_ok_def served_def)
qed

context redis_client
begin

text \<open>One round trip answers a batch read, and changes nothing.\<close>

lemma redis_batch:
  assumes "plain_ok content c (w_store w)"
  shows "\<exists>s'. snd (readManyRaw (on_redis conn c) ks w) = w\<lparr>w_store := s'\<rparr> \<and>
    value_client.only_read (\<lambda>s k. redis_entries content s (fullKey c k)) (served now arrive) (plain_ok content c) (set ks) (w_store w) s'"
proof -
  define s' where "s' = snd (redis_GetMany conn (map (fullKey c) ks) (w_store w))"
  note m = redis_GetMany_result [where ks = "map (fullKey c) ks" and s = "w_store w"]
  have s: "content s' = content (w_store w)" using m(2) by (simp add: s'_def)
  have t: "now (arrive (w_store w)) \<le> now (arrive s')"
    using m(5) arrive(1) [of s'] unfolding s'_def [symmetric] by auto
  have fk: "fst (full_keys (on_redis conn c) ks [] fmempty) = map (fullKey c) ks"
    using full_keys_spec(1) [of "on_redis conn c" ks "[]" fmempty] by simp
  have "snd (readManyRaw (on_redis conn c) ks w) = w\<lparr>w_store := s'\<rparr>"
    using m(1) fk
    by (auto simp: readManyRaw_def c_isAliasGroup_def on_redis_def on_store_def s'_def case_prod_unfold Let_def split: sum.splits)
  moreover have "value_client.only_read (\<lambda>s k. redis_entries content s (fullKey c k)) (served now arrive) (plain_ok content c)
      (set ks) (w_store w) s'"
    unfolding rplain.only_read_def using assms s t by (simp add: plain_ok_def redis_entries_def served_def)
  ultimately show ?thesis by blast
qed

lemma entry_readable:
  assumes "str_or_none (live t (content s) k)"
  shows "readable_at (1000000 * t) (redis_entries content s k) = rv_text (live t (content s) k)"
  using entry_live [where t = t and content = content and s = s and k = k] assms
  by (auto simp: readable_at_def split: option.splits if_splits rvalue.splits)

lemma redis_batch_answers:
  assumes "plain_ok content c (w_store w)" "range_ok (w_range w)" "k \<in> set ks"
  shows "\<exists>t. served now arrive (w_store w) \<le> t \<and>
    t \<le> served now arrive (w_store (snd (readManyRaw (on_redis conn c) ks w))) \<and>
    fmlookup (fst (readManyRaw (on_redis conn c) ks w)) k =
      readable_at t (redis_entries content (w_store w) (fullKey c k))"
proof -
  let ?s = "w_store w" and ?ks = "map (fullKey c) ks"
  let ?L = "live (now (arrive ?s)) (content ?s)"
  obtain m where m: "fst (redis_GetMany conn ?ks ?s) = Inr m"
    "\<And>x. fmlookup m x = (if x \<in> set ?ks then rv_text (?L x) else None)"
    using redis_GetMany_result(1) [of ?ks ?s] by blast
  note fk = full_keys_spec [of "on_redis conn c" ks "[]" fmempty, simplified]
  have full: "fullKey (on_redis conn c) = fullKey c" by (simp add: fun_eq_iff)
  have batch: "c_batch (on_redis conn c) = Some (redis_GetMany conn)" by (simp add: on_redis_def)
  have "fmlookup (logical_loop (snd (full_keys (on_redis conn c) ks [] fmempty)) m (w_range w (fmdom m)) fmempty) k =
      fmlookup m (fullKey c k)"
  proof (subst logical_loop_spec [of _ "on_redis conn c"])
    fix x assume "x \<in> set (w_range w (fmdom m))"
    then have "fmlookup m x \<noteq> None" using assms(2) by (auto simp: fmlookup_dom_iff)
    then have "x \<in> fullKey c ` set ks" using m(2) [of x] by (auto split: if_splits)
    then show "\<exists>k. x = fullKey (on_redis conn c) k \<and>
        fmlookup (snd (full_keys (on_redis conn c) ks [] fmempty)) x = Some k"
      using fk(2) by auto
  qed (use assms(2) in \<open>auto simp: fmlookup_dom_iff\<close>)
  then have "fmlookup (fst (readManyRaw (on_redis conn c) ks w)) k = rv_text (?L (fullKey c k))"
    using m assms(3) fk(1) batch full
    by (simp add: readManyRaw_def c_isAliasGroup_def on_store_def case_prod_unfold Let_def)
  moreover have "str_or_none (?L (fullKey c k))"
    using assms(1) live_or [of "now (arrive ?s)" "content ?s" "fullKey c k"] by (auto simp: plain_ok_def)
  moreover obtain s' where "snd (readManyRaw (on_redis conn c) ks w) = w\<lparr>w_store := s'\<rparr>"
    "served now arrive ?s \<le> served now arrive s'"
    using redis_batch [OF assms(1), of ks] by (auto simp: rplain.only_read_def)
  ultimately show ?thesis
    by (intro exI [of _ "served now arrive ?s"]) (simp add: served_def entry_readable)
qed

end

sublocale redis_client \<subseteq> rplain: cache_client
  "\<lambda>k. redis_Get conn (fullKey c k)" "\<lambda>k. redis_Set conn (fullKey c k)" "\<lambda>k. redis_Delete conn (fullKey c k)"
  "\<lambda>s k. redis_entries content s (fullKey c k)" "served now arrive" "plain_ok content c" redis_expiry 1000000 1
  "on_redis conn c"
  for c :: "('v, 's, 'x) Cache"
  by unfold_locales (rule redis_batch, assumption, rule redis_batch_answers)

context redis_client
begin

lemma redis_storable [simp]:
  "cache_client.storable 1 (on_redis conn c) base" "cache_client.ttls_ok 1 (on_redis conn c) \<longleftrightarrow> finite_ttl c"
  by (simp_all add: rplain.storable_def rplain.ttls_ok_def)

end

end
