(* ===== verification/Redis_Group_Cache.thy ===== *)
theory Redis_Group_Cache
  imports Redis_Cache Redis_Sharded
begin

text \<open>
  Caches of alias groups on Redis, \<open>on_redis_group\<close>, as \<open>RegisterAliasGroup\<close> binds them.  Under both
  strategies the values of the group meet the client contract for lifetimes of at least a millisecond;
  the scripts take whole milliseconds and read less than one as no expiry at all.
\<close>

definition on_redis_group :: "'s RedisConn \<Rightarrow> string \<Rightarrow> AliasMode \<Rightarrow> ('v, 's, 'x) Cache \<Rightarrow> ('v, 's, 'x) Cache" where
  "on_redis_group conn ns mode c = c\<lparr>c_store := redis_store conn, c_batch := Some (redis_GetMany conn),
     c_prefixStore := Some (redis_DeleteByPrefix conn), c_aliasOps := Some (redis_AliasGroup conn ns mode),
     c_prefixAlias := ao_EvictByPrimaryPrefix (redis_AliasGroup conn ns mode)\<rparr>"

lemma on_redis_group_simps [simp]:
  "c_opts (on_redis_group conn ns mode c) = c_opts c" "c_codec (on_redis_group conn ns mode c) = c_codec c"
  "c_aliasOps (on_redis_group conn ns mode c) = Some (redis_AliasGroup conn ns mode)"
  "solo_flight (on_redis_group conn ns mode c) = solo_flight c" "config_ok (on_redis_group conn ns mode c) = config_ok c"
  "finite_ttl (on_redis_group conn ns mode c) = finite_ttl c" "max_ttl (on_redis_group conn ns mode c) = max_ttl c"
  "codec_ok (on_redis_group conn ns mode c) v b = codec_ok c v b"
  "cached_answer (on_redis_group conn ns mode c) got = cached_answer c got"
  "within_ttl (on_redis_group conn ns mode c) d t t' = within_ttl c d t t'"
  by (simp_all add: on_redis_group_def solo_flight_def config_ok_def finite_ttl_def
      max_ttl_def codec_ok_def cached_answer_def within_ttl_def split: sum.splits)

lemma expiry_ms: "1000000 \<le> ttl \<Longrightarrow> map_option ((*) 1000000) (deadline t (Milliseconds ttl)) = redis_expiry (1000000 * t) ttl"
proof -
  assume a: "1000000 \<le> ttl"
  then have "Milliseconds ttl = ttl div 1000000" "1 \<le> ttl div 1000000"
    using Milliseconds_pos [of ttl] by (simp_all add: Milliseconds_nonneg)
  with a show ?thesis by (simp add: deadline_def redis_expiry_def distrib_left)
qed

lemma entry_set:
  "live t m k = Some (RStr b d) \<Longrightarrow> redis_entry (m k) = Some (b, map_option ((*) 1000000) d)"
  by (simp add: live_Some)

text \<open>Both strategies read a value with one \<open>GET\<close>.\<close>

context redis_client
begin

lemma read_value:
  assumes "str_or_none (live (now (arrive s)) (content s) k)"
  shows "fst (redis_Get conn k s) =
      (case redis_entries content s k of
         None \<Rightarrow> Inl ErrStoreMiss
       | Some (b, d) \<Rightarrow> if expired_at d (served now arrive s) then Inl ErrStoreMiss else Inr b)"
    and "redis_entries content (snd (redis_Get conn k s)) = redis_entries content s"
    and "quiet content now s (snd (redis_Get conn k s))"
    and "served now arrive s \<le> served now arrive (snd (redis_Get conn k s))"
  using Get_entry [OF assms] redis_Get_result(2,3) [of k s] arrive(1) [of s] arrive(1) [of "snd (redis_Get conn k s)"]
  by (simp_all add: redis_entries_def quiet_def served_def fun_eq_iff)

lemma served_later: "now (arrive s) \<le> now s' \<Longrightarrow> served now arrive s \<le> served now arrive s'"
  using arrive(1) [of s'] by (simp add: served_def)

lemma co_ok_quiet: "co_ok content now ns s \<Longrightarrow> quiet content now s s' \<Longrightarrow> co_ok content now ns s'"
  unfolding co_ok_def quiet_def using co_inv_later by metis

end

sublocale redis_client \<subseteq> rco: value_client
  "co_GetValue (co_of conn ns)" "co_PutValue (co_of conn ns)" "co_EvictByPrimary (co_of conn ns)"
  "\<lambda>s pk. redis_entries content s (ValueKey ns pk False)" "served now arrive" "co_ok content now ns"
  redis_expiry 1000000 1000000 "on_redis_group conn ns AliasColocated c"
  for ns :: string and c :: "('v, 's, 'x) Cache"
proof unfold_locales
  fix s k k' b d and ttl t :: int
  let ?V = "\<lambda>k. ValueKey ns k False" and ?o = "co_of conn ns"
  show "1000000 \<le> ttl \<Longrightarrow> \<exists>d. redis_expiry t ttl = Some d \<and> t + ttl < d + 1000000 \<and> d < t + ttl + 1000000"
    by (rule redis_expiry_close) simp
  show "getValue (on_redis_group conn ns AliasColocated c) k = on_store (co_GetValue ?o k)"
    "setValue (on_redis_group conn ns AliasColocated c) k b ttl = on_store (co_PutValue ?o k b ttl)"
    "deleteValue (on_redis_group conn ns AliasColocated c) k = on_store (co_EvictByPrimary ?o k)"
    by (simp_all add: getValue_def setValue_def deleteValue_def redis_AliasGroup_def co_alias_ops_def fun_eq_iff)
  assume ok: "co_ok content now ns s"
  note i = co_typed_arrive [OF ok]
  note t = co_invD(1) [OF i]
  have get: "co_GetValue ?o k = redis_Get conn (?V k)"
    by (simp add: co_GetValue_def redis_Get_def fun_eq_iff)
  note r = read_value [OF co_typedD(1) [OF t], of k, folded get]
  have vk: "?V k' = ?V k \<longleftrightarrow> k' = k" for k k' by (simp add: key_defs)
  have other: "k' \<noteq> k \<Longrightarrow> co_frame ns k (content s) c' \<Longrightarrow> c' (?V k') = content s (?V k')" for k k' c'
    by (simp add: co_frame_def vk)
  have t': "co_typed (co_ns ?o) (live (now (arrive s)) (content s))" and cc: "co_conn ?o = conn" using t by simp_all
  note p = co_put_result [OF t' cc, where pk = k and ref = "\<lparr>Field = [], Value = []\<rparr>" and b = b and ttl = ttl, simplified]
  note e = co_EvictByPrimary_result [OF t' cc, where pk = k, simplified]
  show "fst (co_GetValue ?o k s) =
      (case redis_entries content s (?V k) of
         None \<Rightarrow> Inl ErrStoreMiss
       | Some (b, d) \<Rightarrow> if expired_at d (served now arrive s) then Inl ErrStoreMiss else Inr b)"
    by (rule r(1))
  show "k' \<noteq> k \<Longrightarrow> redis_entries content (snd (co_GetValue ?o k s)) (?V k') = redis_entries content s (?V k')"
    "redis_entries content s (?V k) = Some (b, d) \<Longrightarrow> \<not> expired_at d (served now arrive s) \<Longrightarrow>
      redis_entries content (snd (co_GetValue ?o k s)) (?V k) = Some (b, d)"
    "redis_entries content (snd (co_GetValue ?o k s)) (?V k) = None \<or>
      redis_entries content (snd (co_GetValue ?o k s)) (?V k) = redis_entries content s (?V k)"
    by (simp_all add: r(2))
  show "fst (co_PutValue ?o k b ttl s) = None" using p(1) by (simp add: co_PutValue_def)
  have "live (now (arrive s)) (content (snd (co_PutValue ?o k b ttl s))) (?V k) =
      Some (RStr b (deadline (now (arrive s)) (Milliseconds ttl)))"
    using put_value_live(1) [OF i, where pk = k and q = k and val = b and d = "deadline (now (arrive s)) (Milliseconds ttl)"] p(3)
    by (simp add: co_PutValue_def)
  from entry_set [OF this] show "1000000 \<le> ttl \<Longrightarrow> redis_entries content (snd (co_PutValue ?o k b ttl s)) (?V k) =
      Some (b, redis_expiry (served now arrive s) ttl)"
    by (simp add: redis_entries_def served_def expiry_ms)
  show "k' \<noteq> k \<Longrightarrow> redis_entries content (snd (co_PutValue ?o k b ttl s)) (?V k') = redis_entries content s (?V k')"
    using other [OF _ p(4)] by (simp add: redis_entries_def co_PutValue_def)
  show "fst (co_EvictByPrimary ?o k s) = None" by (rule e(1))
  show "(\<lambda>k'. redis_entries content (snd (co_EvictByPrimary ?o k s)) (?V k')) =
      (\<lambda>k. redis_entries content s (?V k))(k := None)"
    using other [OF _ e(4)] e(5) by (auto simp: redis_entries_def fun_eq_iff)
  show "co_ok content now ns (snd (co_GetValue ?o k s)) \<and> served now arrive s \<le> served now arrive (snd (co_GetValue ?o k s))"
    using co_ok_quiet [OF ok r(3)] r(4) by simp
  show "co_ok content now ns (snd (co_PutValue ?o k b ttl s)) \<and>
      served now arrive s \<le> served now arrive (snd (co_PutValue ?o k b ttl s))"
    using co_step_ok [OF co_put_val, of ?o s k b ttl] ok p(2) served_later by (simp add: co_PutValue_def)
  show "co_ok content now ns (snd (co_EvictByPrimary ?o k s)) \<and>
      served now arrive s \<le> served now arrive (snd (co_EvictByPrimary ?o k s))"
    using co_step_ok [OF co_evict, of ?o s k] ok e(2) served_later by simp
qed

sublocale redis_client \<subseteq> rsh: value_client
  "sh_GetValue (sh_of conn ns)" "sh_PutValue (sh_of conn ns)" "sh_EvictByPrimary (sh_of conn ns)"
  "\<lambda>s pk. redis_entries content s (ValueKey ns pk True)" "served now arrive" "sh_ok content now ns"
  redis_expiry 1000000 1000000 "on_redis_group conn ns AliasSharded c"
  for ns :: string and c :: "('v, 's, 'x) Cache"
proof unfold_locales
  fix s k k' b d and ttl t :: int
  let ?V = "\<lambda>k. ValueKey ns k True" and ?o = "sh_of conn ns"
  show "1000000 \<le> ttl \<Longrightarrow> \<exists>d. redis_expiry t ttl = Some d \<and> t + ttl < d + 1000000 \<and> d < t + ttl + 1000000"
    by (rule redis_expiry_close) simp
  show "getValue (on_redis_group conn ns AliasSharded c) k = on_store (sh_GetValue ?o k)"
    "setValue (on_redis_group conn ns AliasSharded c) k b ttl = on_store (sh_PutValue ?o k b ttl)"
    "deleteValue (on_redis_group conn ns AliasSharded c) k = on_store (sh_EvictByPrimary ?o k)"
    by (simp_all add: getValue_def setValue_def deleteValue_def redis_AliasGroup_def sh_alias_ops_def fun_eq_iff)
  assume ok: "sh_ok content now ns s"
  note t = sh_inv_typed [OF sh_ok_arrive [OF ok]]
  have get: "sh_GetValue ?o k = redis_Get conn (?V k)"
    by (simp add: sh_GetValue_def redis_Get_def fun_eq_iff)
  note r = read_value [OF sh_typedD(1) [OF t], of k, folded get]
  have t': "sh_typed (sh_ns ?o) (live (now (arrive s)) (content s))" and cc: "sh_conn ?o = conn" using t by simp_all
  from sh_PutValue_result [OF t' cc, where pk = k and b = b and ttl = ttl] obtain s1 where
    p: "fst (sh_PutValue ?o k b ttl s) = None" "snd (sh_PutValue ?o k b ttl s) = s1" "now s1 = now (arrive s)"
    "live (now s1) (content s1) = sh_put_live ns k \<lparr>Field = [], Value = []\<rparr> b
       (deadline (now s1) (Milliseconds ttl)) (live (now s1) (content s))"
    "\<forall>q. q \<noteq> ?V k \<longrightarrow> q \<noteq> MembersKey ns k True \<longrightarrow> content s1 q = content s q" by auto
  from sh_EvictByPrimary_result [OF t' cc, where pk = k] obtain s2 where
    e: "fst (sh_EvictByPrimary ?o k s) = None" "snd (sh_EvictByPrimary ?o k s) = s2" "now (arrive s) \<le> now s2"
    "\<forall>q. content s2 (?V q) = (if q = k then None else content s (?V q))" by auto
  show "fst (sh_GetValue ?o k s) =
      (case redis_entries content s (?V k) of
         None \<Rightarrow> Inl ErrStoreMiss
       | Some (b, d) \<Rightarrow> if expired_at d (served now arrive s) then Inl ErrStoreMiss else Inr b)"
    by (rule r(1))
  show "k' \<noteq> k \<Longrightarrow> redis_entries content (snd (sh_GetValue ?o k s)) (?V k') = redis_entries content s (?V k')"
    "redis_entries content s (?V k) = Some (b, d) \<Longrightarrow> \<not> expired_at d (served now arrive s) \<Longrightarrow>
      redis_entries content (snd (sh_GetValue ?o k s)) (?V k) = Some (b, d)"
    "redis_entries content (snd (sh_GetValue ?o k s)) (?V k) = None \<or>
      redis_entries content (snd (sh_GetValue ?o k s)) (?V k) = redis_entries content s (?V k)"
    by (simp_all add: r(2))
  show "fst (sh_PutValue ?o k b ttl s) = None" by (rule p(1))
  have "live (now s1) (content s1) (?V k) = Some (RStr b (deadline (now s1) (Milliseconds ttl)))"
    by (simp add: p(4) sh_put_live_def)
  from entry_set [OF this] show "1000000 \<le> ttl \<Longrightarrow> redis_entries content (snd (sh_PutValue ?o k b ttl s)) (?V k) =
      Some (b, redis_expiry (served now arrive s) ttl)"
    by (simp add: redis_entries_def served_def expiry_ms p(2,3))
  show "k' \<noteq> k \<Longrightarrow> redis_entries content (snd (sh_PutValue ?o k b ttl s)) (?V k') = redis_entries content s (?V k')"
    using p(5) by (simp add: redis_entries_def p(2))
  show "fst (sh_EvictByPrimary ?o k s) = None" by (rule e(1))
  show "(\<lambda>k'. redis_entries content (snd (sh_EvictByPrimary ?o k s)) (?V k')) =
      (\<lambda>k. redis_entries content s (?V k))(k := None)"
    using e(4) by (auto simp: redis_entries_def e(2) fun_eq_iff)
  show "sh_ok content now ns (snd (sh_GetValue ?o k s)) \<and> served now arrive s \<le> served now arrive (snd (sh_GetValue ?o k s))"
    using sh_ok_quiet [OF ok r(3)] r(4) by simp
  show "sh_ok content now ns (snd (sh_PutValue ?o k b ttl s)) \<and>
      served now arrive s \<le> served now arrive (snd (sh_PutValue ?o k b ttl s))"
    using sh_step_ok [OF sh_put_val, of ?o s k b ttl] ok p(2,3) served_later by simp
  show "sh_ok content now ns (snd (sh_EvictByPrimary ?o k s)) \<and>
      served now arrive s \<le> served now arrive (snd (sh_EvictByPrimary ?o k s))"
    using sh_step_ok [OF sh_evict, of ?o s k] ok e(2,3) served_later by simp
qed

text \<open>A batch of a group is read one by one.\<close>

lemma group_batch: "readManyRaw (on_redis_group conn ns mode c) ks w = read_each_loop (on_redis_group conn ns mode c) ks fmempty w"
  by (simp add: readManyRaw_def c_isAliasGroup_def)

sublocale redis_client \<subseteq> rco: cache_client
  "co_GetValue (co_of conn ns)" "co_PutValue (co_of conn ns)" "co_EvictByPrimary (co_of conn ns)"
  "\<lambda>s pk. redis_entries content s (ValueKey ns pk False)" "served now arrive" "co_ok content now ns"
  redis_expiry 1000000 1000000 "on_redis_group conn ns AliasColocated c"
  for ns :: string and c :: "('v, 's, 'x) Cache"
  by unfold_locales (simp_all add: group_batch rco.read_each_only_reads rco.read_each_batch)

sublocale redis_client \<subseteq> rsh: cache_client
  "sh_GetValue (sh_of conn ns)" "sh_PutValue (sh_of conn ns)" "sh_EvictByPrimary (sh_of conn ns)"
  "\<lambda>s pk. redis_entries content s (ValueKey ns pk True)" "served now arrive" "sh_ok content now ns"
  redis_expiry 1000000 1000000 "on_redis_group conn ns AliasSharded c"
  for ns :: string and c :: "('v, 's, 'x) Cache"
  by unfold_locales (simp_all add: group_batch rsh.read_each_only_reads rsh.read_each_batch)

end
