(* ===== verification/Redis_Cache_Props.thy ===== *)
theory Redis_Cache_Props
  imports Fixtures Redis_Reference Redis_Group_Cache
begin

text \<open>
  The properties of caches on Redis, plain and of alias groups.  The server and the connection are any
  that keep the contract of \<open>redis_client\<close>; the witnesses run on the reference server.
\<close>

subsection \<open>The rest of the world\<close>

text \<open>
  Between two operations of a cache anything may happen on the server to other keys; the next command of
  the cache is served no earlier for it.
\<close>

definition later_redis :: "('s \<Rightarrow> int) \<Rightarrow> ('s \<Rightarrow> 's) \<Rightarrow> 's \<Rightarrow> 's \<Rightarrow> bool" where
  "later_redis now arrive s s' \<longleftrightarrow> now s \<le> now s' \<and> now (arrive s) \<le> now (arrive s')"

definition others_redis ::
  "('s \<Rightarrow> rcontent) \<Rightarrow> ('s \<Rightarrow> int) \<Rightarrow> ('s \<Rightarrow> 's) \<Rightarrow> ('v, 's, 'x) Cache \<Rightarrow> 's \<Rightarrow> 's \<Rightarrow> bool" where
  "others_redis content now arrive c s s' \<longleftrightarrow>
     later_redis now arrive s s' \<and> (\<forall>k. content s' (fullKey c k) = content s (fullKey c k))"

definition group_ok :: "('s \<Rightarrow> rcontent) \<Rightarrow> ('s \<Rightarrow> int) \<Rightarrow> string \<Rightarrow> AliasMode \<Rightarrow> 's \<Rightarrow> bool" where
  "group_ok content now ns mode s \<longleftrightarrow>
     (case mode of AliasSharded \<Rightarrow> sh_ok content now ns s | AliasColocated \<Rightarrow> co_ok content now ns s)"

definition others_redis_group ::
  "('s \<Rightarrow> rcontent) \<Rightarrow> ('s \<Rightarrow> int) \<Rightarrow> ('s \<Rightarrow> 's) \<Rightarrow> string \<Rightarrow> AliasMode \<Rightarrow> 's \<Rightarrow> 's \<Rightarrow> bool" where
  "others_redis_group content now arrive ns mode s s' \<longleftrightarrow> later_redis now arrive s s' \<and>
     (case mode of AliasSharded \<Rightarrow> sh_others content now ns s s' | AliasColocated \<Rightarrow> co_others content now ns s s')"

context redis_client
begin

lemma others_redis_ok [simp]:
  "timed_store.env_ok (\<lambda>s k. redis_entries content s (fullKey c k)) (served now arrive) (plain_ok content c)
     (others_redis content now arrive c)"
  unfolding rplain.env_ok_def
  by (simp add: others_redis_def later_redis_def served_def plain_ok_def redis_entries_def)

lemma others_redis_group_ok [simp]:
  "timed_store.env_ok (\<lambda>s k. redis_entries content s (ValueKey ns k False)) (served now arrive) (co_ok content now ns)
     (others_redis_group content now arrive ns AliasColocated)"
  "timed_store.env_ok (\<lambda>s k. redis_entries content s (ValueKey ns k True)) (served now arrive) (sh_ok content now ns)
     (others_redis_group content now arrive ns AliasSharded)"
  unfolding rco.env_ok_def rsh.env_ok_def
  by (auto simp: others_redis_group_def later_redis_def served_def redis_entries_def sh_others_def co_others_def
      intro: co_ok_others sh_ok_others)

lemma plain_put_run_get:
  assumes "finite_ttl c" "solo_flight c"
    and "plain_ok content c (w_store w)" "rand_ok (w_rand w)" "range_ok (w_range w)" "codec_ok c v b"
    and "writer (w_app w) = ((Some v, None), x)" "PutByKey (on_redis conn c) k writer w = (r, w1)"
    and "cache_run (others_redis content now arrive c) (on_redis conn c) K w1 w2" "k \<notin> K"
    and "within_ttl c (o_TTL (c_opts c)) (served now arrive (w_store w)) (served now arrive (w_store w2) + 999999)"
  shows "r = (Some v, Written, None)" "fst (GetByKey (on_redis conn c) k loader w2) = Ret (Some v, Hit, None)"
    and "w_app (snd (GetByKey (on_redis conn c) k loader w2)) = w_app w2"
  using rplain.put_run_get(1) [of c "others_redis content now arrive c" w v b writer x k r w1 K w2]
    rplain.put_run_get(2,3) [of c "others_redis content now arrive c" w v b writer x k r w1 K w2 loader] assms by simp_all

lemma group_put_run_get:
  assumes "finite_ttl c" "solo_flight c"
    and "group_ok content now ns mode (w_store w)" "rand_ok (w_rand w)" "range_ok (w_range w)" "codec_ok c v b"
    and "writer (w_app w) = ((Some v, None), x)" "PutByKey (on_redis_group conn ns mode c) k writer w = (r, w1)"
    and "cache_run (others_redis_group content now arrive ns mode) (on_redis_group conn ns mode c) K w1 w2" "k \<notin> K"
    and "within_ttl c (o_TTL (c_opts c)) (served now arrive (w_store w)) (served now arrive (w_store w2) + 999999)"
    and "within_ttl c (o_TTL (c_opts c)) 0 1000000"
  shows "r = (Some v, Written, None)" "fst (GetByKey (on_redis_group conn ns mode c) k loader w2) = Ret (Some v, Hit, None)"
    and "w_app (snd (GetByKey (on_redis_group conn ns mode c) k loader w2)) = w_app w2"
  using rco.put_run_get(1) [of ns c "others_redis_group content now arrive ns mode" w v b writer x k r w1 K w2]
    rco.put_run_get(2,3) [of ns c "others_redis_group content now arrive ns mode" w v b writer x k r w1 K w2 loader]
    rsh.put_run_get(1) [of ns c "others_redis_group content now arrive ns mode" w v b writer x k r w1 K w2]
    rsh.put_run_get(2,3) [of ns c "others_redis_group content now arrive ns mode" w v b writer x k r w1 K w2 loader] assms
  by (cases mode; simp add: group_ok_def rco.storable_def rsh.storable_def)+

lemma group_evict_run_get:
  assumes "solo_flight c" "group_ok content now ns mode (w_store w)" "range_ok (w_range w)"
    and "EvictByKey (on_redis_group conn ns mode c) k w = (err, w1)"
    and "cache_run (others_redis_group content now arrive ns mode) (on_redis_group conn ns mode c) K w1 w2" "k \<notin> K"
  shows "err = None"
    and "\<exists>p. fst (GetByKey (on_redis_group conn ns mode c) k loader w2) = Ret (load_answer (fst (loader (w_app w2))) p)"
    and "w_app (snd (GetByKey (on_redis_group conn ns mode c) k loader w2)) = snd (loader (w_app w2))"
  using rco.evict_run_get(1) [of ns c "others_redis_group content now arrive ns mode" w k err w1 K w2]
    rco.evict_run_get(2,3) [of ns c "others_redis_group content now arrive ns mode" w k err w1 K w2 loader]
    rsh.evict_run_get(1) [of ns c "others_redis_group content now arrive ns mode" w k err w1 K w2]
    rsh.evict_run_get(2,3) [of ns c "others_redis_group content now arrive ns mode" w k err w1 K w2 loader] assms
  by (cases mode; simp add: group_ok_def)+

lemma plain_stale_run:
  fixes c :: "('v, 's, 'x) Cache"
  assumes "finite_ttl c" "solo_flight c" "rand_ok (w_rand w0)" "range_ok (w_range w0)"
    and "\<And>k. content (w_store w0) (fullKey c k) = None"
    and "cache_run (others_redis content now arrive c) (on_redis conn c) K w0 w1" "others_redis content now arrive c (w_store w1) s"
    and "served now arrive (w_store w1) + max_ttl c + 999999 < served now arrive s"
  shows "\<exists>p. fst (GetByKey (on_redis conn c) k loader (w1\<lparr>w_store := s\<rparr>)) = Ret (load_answer (fst (loader (w_app w1))) p)"
    and "w_app (snd (GetByKey (on_redis conn c) k loader (w1\<lparr>w_store := s\<rparr>))) = snd (loader (w_app w1))"
proof -
  have "rplain.bounded TYPE('v) c w0"
    unfolding rplain.bounded_def using assms(3-5) by (simp add: plain_ok_def redis_entries_def)
  note st = rplain.stale_run_get [where env = "others_redis content now arrive c", OF _ _ _ this assms(6,7)]
  have "plain_ok content c s" "rplain.cached TYPE('x) c s k = None"
    using st assms(1,2,8) by simp_all
  then show "\<exists>p. fst (GetByKey (on_redis conn c) k loader (w1\<lparr>w_store := s\<rparr>)) = Ret (load_answer (fst (loader (w_app w1))) p)"
    "w_app (snd (GetByKey (on_redis conn c) k loader (w1\<lparr>w_store := s\<rparr>))) = snd (loader (w_app w1))"
    using rplain.GetByKey_uncached [where k = k and loader = loader, of c "w1\<lparr>w_store := s\<rparr>"] assms(2) by simp_all
qed

end


subsection \<open>Fixtures\<close>

text \<open>Caches with a TTL of a second on an empty server one millisecond away.\<close>

definition redis_demo :: "(string, refserver, nat) Cache" where
  "redis_demo = \<lparr>c_type = demo_type, c_store = redis_store rs_conn, c_batch = None, c_prefixStore = None,
     c_prefixAlias = None,
     c_opts = \<lparr>o_Prefix = ''user'', o_TTL = 1000000000, o_AllowInfinite = False, o_NegativeTTL = 0,
               o_Codec = demo_codec, o_DisableSingleflight = True\<rparr>,
     c_codec = demo_codec, c_group = None, c_jitterFraction = Fin 0, c_metrics = Some demo_metrics,
     c_aliasOps = None\<rparr>"

definition redis_world :: "(refserver, nat) world" where
  "redis_world = \<lparr>w_store = demo_server, w_app = 0, w_rand = (\<lambda>_. Fin 0),
     w_elapsed = (\<lambda>_. Fin 0), w_metrics = [], w_range = sorted_list_of_fset, w_cvt = (\<lambda>_. 0)\<rparr>"

lemma redis_demo_ok [simp]:
  "finite_ttl redis_demo" "solo_flight redis_demo" "o_TTL (c_opts redis_demo) = 1000000000"
  "codec_ok redis_demo v (CHR ''q'' # v)"
  "rand_ok (w_rand redis_world)" "range_ok (w_range redis_world)" "w_app redis_world = 0"
  "w_store redis_world = demo_server"
  by (simp_all add: redis_demo_def redis_world_def finite_ttl_def config_ok_def solo_flight_def codec_ok_def
      demo_codec_def negativeMarker_def rand_ok_def range_ok_sorted)

lemma redis_demo_within [simp]:
  "within_ttl redis_demo 1000000000 t0 t \<longleftrightarrow> t - t0 \<le> 1000000000"
  using of_int_le_iff [of "t - t0" 1000000000, where 'a = rat] by (simp add: within_ttl_def redis_demo_def)

lemma demo_server_ok [simp]:
  "plain_ok rs_content c demo_server"
  by (simp_all add: plain_ok_def)

text \<open>The demonstration write takes two milliseconds of the server's time, or one per round trip.\<close>

lemma redis_demo_put:
  "w_store (snd (PutByKey (on_redis rs_conn redis_demo) k demo_load redis_world)) =
     snd (redis_Set rs_conn (fullKey redis_demo k) ''qann'' 1000000000 demo_server)"
  "w_store (snd (PutByKey (on_redis_group rs_conn ns mode redis_demo) k demo_load redis_world)) =
     snd (ao_PutValue (redis_AliasGroup rs_conn ns mode) k ''qann'' 1000000000 demo_server)"
  "w_app (snd (PutByKey (on_redis_group rs_conn ns mode redis_demo) k demo_load redis_world)) = 1"
  "w_app (snd (PutByKey (on_redis rs_conn redis_demo) k demo_load redis_world)) = 1"
proof -
  have a: "on_app demo_load redis_world = ((Some ''ann'', None), redis_world\<lparr>w_app := 1\<rparr>)"
    by (simp add: on_app_def)
  have t: "positiveTTL c w = (1000000000, w)" if "c_opts c = c_opts redis_demo" "c_jitterFraction c = Fin 0"
    for c :: "(string, refserver, nat) Cache" and w :: "(refserver, nat) world"
    using that by (simp add: positiveTTL_def jittered_def applyJitter_def f64_le_def)
  have j: "c_jitterFraction redis_demo = Fin 0" by (simp add: redis_demo_def)
  have c: "c_codec redis_demo = demo_codec" by (simp add: redis_demo_def)
  show "w_store (snd (PutByKey (on_redis rs_conn redis_demo) k demo_load redis_world)) =
      snd (redis_Set rs_conn (fullKey redis_demo k) ''qann'' 1000000000 demo_server)"
    by (simp add: PutByKey_eq a store_value_def setValue_def on_redis_def redis_store_def fullKey_def t j c
        case_prod_unfold Let_def on_store_def)
  show "w_store (snd (PutByKey (on_redis_group rs_conn ns mode redis_demo) k demo_load redis_world)) =
      snd (ao_PutValue (redis_AliasGroup rs_conn ns mode) k ''qann'' 1000000000 demo_server)"
    "w_app (snd (PutByKey (on_redis_group rs_conn ns mode redis_demo) k demo_load redis_world)) = 1"
    by (simp_all add: PutByKey_eq a store_value_def setValue_def t j c on_redis_group_def case_prod_unfold Let_def on_store_def)
  show "w_app (snd (PutByKey (on_redis rs_conn redis_demo) k demo_load redis_world)) = 1"
    by (simp add: PutByKey_eq a store_value_def setValue_def on_redis_def t j c case_prod_unfold Let_def on_store_def)
qed

lemma rs_served [simp]: "served rs_now rs_arrive s = 1000000 * (rs_now s + int (rs_lag s))"
  by (simp add: served_def rs_arrive_def)

lemma rs_lag_run [simp]: "rs_lag (rs_put k v s) = rs_lag s" "rs_lag (rs_at k f s) = rs_lag s" "rs_lag (rs_arrive s) = rs_lag s"
  by (simp_all add: rs_put_def rs_at_def rs_arrive_def Let_def)

lemma rs_now_arrive [simp]: "rs_now (rs_arrive s) = rs_now s + int (rs_lag s)"
  by (simp add: rs_arrive_def)

lemma rs_Set_clock:
  "rs_now (snd (redis_Set rs_conn k b 1000000000 demo_server)) = 1" "rs_lag (snd (redis_Set rs_conn k b 1000000000 demo_server)) = 1"
  by (simp_all add: redis_Set_def rs_conn_def rs_conn_by_def rs_cmds_def go_px_def Let_def demo_server_def)

lemma rs_PutValue_clock:
  "rs_now (snd (ao_PutValue (redis_AliasGroup rs_conn ns mode) k b 1000000000 demo_server)) = 1"
  "rs_lag (snd (ao_PutValue (redis_AliasGroup rs_conn ns mode) k b 1000000000 demo_server)) = 1"
proof -
  have g: "ref_hash (rs_live (rs_at m f (rs_put v x (rs_arrive demo_server))) m) = Inr fmempty" if "m \<noteq> v" "f = map_option g" for m v f g x
    using that by (simp add: rs_live_def live_def at_key_def) (simp add: rs_arrive_def demo_server_def rs_content_def live_def)
  have e: "sorted_list_of_fset ({||} :: string fset) = []"
  proof -
    have "set (sorted_list_of_fset ({||} :: string fset)) = {}" using range_ok_sorted by simp
    then show ?thesis by (simp only: set_empty)
  qed
  have d: "rs_now demo_server = 0" "rs_lag demo_server = 1" by (simp_all add: demo_server_def)
  show "rs_now (snd (ao_PutValue (redis_AliasGroup rs_conn ns mode) k b 1000000000 demo_server)) = 1"
    by (cases mode; simp add: redis_AliasGroup_def co_alias_ops_def sh_alias_ops_def co_PutValue_def sh_PutValue_def
       co_put_def sh_record_keys_def rs_conn_def rs_conn_by_def run_script_def colocated_put_def sharded_record_put_def set_ttl_def
       lua_bind_def lua_return_def colocated_refresh_def Milliseconds_nonneg Let_def rs_cmds_def g e d case_prod_unfold flat_pairs_def)
  show "rs_lag (snd (ao_PutValue (redis_AliasGroup rs_conn ns mode) k b 1000000000 demo_server)) = 1"
    by (cases mode; simp add: redis_AliasGroup_def co_alias_ops_def sh_alias_ops_def co_PutValue_def sh_PutValue_def
       co_put_def sh_record_keys_def rs_conn_def rs_conn_by_def run_script_def colocated_put_def sharded_record_put_def set_ttl_def
       lua_bind_def lua_return_def colocated_refresh_def Milliseconds_nonneg Let_def rs_cmds_def g e d case_prod_unfold flat_pairs_def)
qed

subsection \<open>Properties\<close>

text \<open>C19: Read your write on Redis.  After a \<open>PutByKey\<close> whose writer returned a value, and any run that
  does not name its key, a read within the shortest jittered TTL is a hit with that value and runs no
  loader.  Deadlines on Redis are whole milliseconds, so the last one before the TTL is not counted on.\<close>

theorem redis_read_your_write:
  assumes "redis_client R content now conn arrive" "finite_ttl c" "solo_flight c"
    and "plain_ok content c (w_store w)" "rand_ok (w_rand w)" "range_ok (w_range w)" "codec_ok c v b"
    and "writer (w_app w) = ((Some v, None), x)" "PutByKey (on_redis conn c) k writer w = (r, w1)"
    and "cache_run (others_redis content now arrive c) (on_redis conn c) K w1 w2" "k \<notin> K"
    and "within_ttl c (o_TTL (c_opts c)) (served now arrive (w_store w)) (served now arrive (w_store w2) + 999999)"
  shows "r = (Some v, Written, None) \<and>
    fst (GetByKey (on_redis conn c) k loader w2) = Ret (Some v, Hit, None) \<and>
    w_app (snd (GetByKey (on_redis conn c) k loader w2)) = w_app w2"
  using redis_client.plain_put_run_get [OF assms] by simp

theorem redis_read_your_write_witness:
  "fst (GetByKey (on_redis rs_conn redis_demo) ''k'' demo_absent
     (snd (PutByKey (on_redis rs_conn redis_demo) ''k'' demo_load redis_world))) = Ret (Some ''ann'', Hit, None)"
proof -
  let ?w1 = "snd (PutByKey (on_redis rs_conn redis_demo) ''k'' demo_load redis_world)"
  have p: "PutByKey (on_redis rs_conn redis_demo) ''k'' demo_load redis_world =
      (fst (PutByKey (on_redis rs_conn redis_demo) ''k'' demo_load redis_world), ?w1)" by simp
  have t: "within_ttl redis_demo 1000000000 (served rs_now rs_arrive demo_server)
      (served rs_now rs_arrive (w_store ?w1) + 999999)"
    by (simp add: redis_demo_put rs_Set_clock) (simp add: demo_server_def)
  show ?thesis
    using redis_read_your_write [OF ref_client.redis_client_axioms _ _ _ _ _ _ _ p run_nil,
      where v = "''ann''" and b = "''qann''" and x = 1 and loader = demo_absent] t by simp
qed

text \<open>C20: Read your write in an alias group on Redis, under both strategies.  The scripts count whole
  milliseconds, so the shortest jittered TTL has to reach one; the group's keys have to be as its own
  operations leave them.\<close>

theorem redis_group_read_your_write:
  assumes "redis_client R content now conn arrive" "finite_ttl c" "solo_flight c"
    and "group_ok content now ns mode (w_store w)" "rand_ok (w_rand w)" "range_ok (w_range w)" "codec_ok c v b"
    and "writer (w_app w) = ((Some v, None), x)" "PutByKey (on_redis_group conn ns mode c) k writer w = (r, w1)"
    and "cache_run (others_redis_group content now arrive ns mode) (on_redis_group conn ns mode c) K w1 w2" "k \<notin> K"
    and "within_ttl c (o_TTL (c_opts c)) (served now arrive (w_store w)) (served now arrive (w_store w2) + 999999)"
    and "within_ttl c (o_TTL (c_opts c)) 0 1000000"
  shows "r = (Some v, Written, None) \<and>
    fst (GetByKey (on_redis_group conn ns mode c) k loader w2) = Ret (Some v, Hit, None) \<and>
    w_app (snd (GetByKey (on_redis_group conn ns mode c) k loader w2)) = w_app w2"
  using redis_client.group_put_run_get [OF assms] by simp

lemma demo_group_ok [simp]: "group_ok rs_content rs_now ns mode demo_server"
  by (cases mode) (simp_all add: group_ok_def)

theorem redis_group_read_your_write_witness:
  "\<forall>mode. fst (GetByKey (on_redis_group rs_conn ''user'' mode redis_demo) ''k'' demo_absent
     (snd (PutByKey (on_redis_group rs_conn ''user'' mode redis_demo) ''k'' demo_load redis_world))) =
     Ret (Some ''ann'', Hit, None)"
proof
  fix mode
  let ?c = "on_redis_group rs_conn ''user'' mode redis_demo"
  let ?w1 = "snd (PutByKey ?c ''k'' demo_load redis_world)"
  have p: "PutByKey ?c ''k'' demo_load redis_world = (fst (PutByKey ?c ''k'' demo_load redis_world), ?w1)" by simp
  have t: "within_ttl redis_demo 1000000000 (served rs_now rs_arrive demo_server)
      (served rs_now rs_arrive (w_store ?w1) + 999999)"
    by (simp add: redis_demo_put rs_PutValue_clock) (simp add: demo_server_def)
  show "fst (GetByKey ?c ''k'' demo_absent ?w1) = Ret (Some ''ann'', Hit, None)"
    using redis_group_read_your_write [OF ref_client.redis_client_axioms _ _ _ _ _ _ _ p run_nil,
      where v = "''ann''" and b = "''qann''" and x = 1 and loader = demo_absent] t by simp
qed

text \<open>C21: Delete on write in an alias group on Redis, under both strategies: after \<open>EvictByKey\<close> and any run
  that does not name the key, a read runs the loader once and returns its answer.\<close>

theorem redis_group_evict_then_read:
  assumes "redis_client R content now conn arrive" "solo_flight c"
    and "group_ok content now ns mode (w_store w)" "range_ok (w_range w)"
    and "EvictByKey (on_redis_group conn ns mode c) k w = (err, w1)"
    and "cache_run (others_redis_group content now arrive ns mode) (on_redis_group conn ns mode c) K w1 w2" "k \<notin> K"
  shows "err = None \<and>
    (\<exists>p. fst (GetByKey (on_redis_group conn ns mode c) k loader w2) = Ret (load_answer (fst (loader (w_app w2))) p)) \<and>
    w_app (snd (GetByKey (on_redis_group conn ns mode c) k loader w2)) = snd (loader (w_app w2))"
  using redis_client.group_evict_run_get [OF assms] by simp

theorem redis_group_evict_then_read_witness:
  "\<forall>mode. w_app (snd (GetByKey (on_redis_group rs_conn ''user'' mode redis_demo) ''k'' demo_load
     (snd (EvictByKey (on_redis_group rs_conn ''user'' mode redis_demo) ''k''
       (snd (PutByKey (on_redis_group rs_conn ''user'' mode redis_demo) ''k'' demo_load redis_world)))))) = 2"
proof
  fix mode
  let ?c = "on_redis_group rs_conn ''user'' mode redis_demo"
  let ?w = "snd (PutByKey ?c ''k'' demo_load redis_world)"
  let ?w1 = "snd (EvictByKey ?c ''k'' ?w)"
  have p: "EvictByKey ?c ''k'' ?w = (fst (EvictByKey ?c ''k'' ?w), ?w1)" by simp
  have g: "group_ok rs_content rs_now ''user'' mode (w_store ?w)"
    using ref_client.co_step_ok [OF co_put_val [of rs_content rs_now "co_of rs_conn ''user''" demo_server]]
      ref_client.sh_step_ok [OF sh_put_val [of rs_content rs_now "sh_of rs_conn ''user''" demo_server]]
    by (cases mode) (simp_all add: group_ok_def redis_demo_put redis_AliasGroup_def co_alias_ops_def sh_alias_ops_def)
  have r: "range_ok (w_range ?w)" using PutByKey_range [of ?c "''k''" demo_load redis_world] by simp
  have "w_app ?w1 = 1" by (simp add: EvictByKey_def redis_demo_put)
  then show "w_app (snd (GetByKey ?c ''k'' demo_load ?w1)) = 2"
    using redis_group_evict_then_read [OF ref_client.redis_client_axioms _ g r p run_nil, of demo_load] by simp
qed

text \<open>C25: The TTL backstop on Redis.  Start from a server without entries of the cache and run it in any way,
  for as long as only its own operations write its keys.  Once the longer of its two TTLs and a
  millisecond have passed, every read asks the source of truth: it runs its loader once and returns its answer.\<close>

theorem redis_ttl_backstop:
  assumes "redis_client R content now conn arrive" "finite_ttl c" "solo_flight c"
    and "rand_ok (w_rand w0)" "range_ok (w_range w0)" "\<And>k. content (w_store w0) (fullKey c k) = None"
    and "cache_run (others_redis content now arrive c) (on_redis conn c) K w0 w1"
    and "others_redis content now arrive c (w_store w1) s"
    and "served now arrive (w_store w1) + max_ttl c + 999999 < served now arrive s"
  shows "(\<exists>p. fst (GetByKey (on_redis conn c) k loader (w1\<lparr>w_store := s\<rparr>)) =
       Ret (load_answer (fst (loader (w_app w1))) p)) \<and>
    w_app (snd (GetByKey (on_redis conn c) k loader (w1\<lparr>w_store := s\<rparr>))) = snd (loader (w_app w1))"
  using redis_client.plain_stale_run [OF assms] by simp

theorem redis_ttl_backstop_witness:
  "w_app (snd (GetByKey (on_redis rs_conn redis_demo) ''k'' demo_absent
     ((snd (PutByKey (on_redis rs_conn redis_demo) ''k'' demo_load redis_world))
        \<lparr>w_store := (snd (redis_Set rs_conn (fullKey redis_demo ''k'') ''qann'' 1000000000 demo_server))\<lparr>rs_now := 3000\<rparr>\<rparr>))) = 2"
proof -
  let ?w1 = "snd (PutByKey (on_redis rs_conn redis_demo) ''k'' demo_load redis_world)"
  let ?s = "(w_store ?w1)\<lparr>rs_now := 3000\<rparr>"
  have "cache_step (others_redis rs_content rs_now rs_arrive redis_demo) (on_redis rs_conn redis_demo) {''k''} redis_world ?w1"
    by (rule s_put)
  from run_step [OF run_nil this]
  have run: "cache_run (others_redis rs_content rs_now rs_arrive redis_demo) (on_redis rs_conn redis_demo) {''k''} redis_world ?w1"
    by simp
  have o: "others_redis rs_content rs_now rs_arrive redis_demo (w_store ?w1) ?s"
    by (simp add: others_redis_def later_redis_def redis_demo_put rs_Set_clock) (simp add: rs_content_def)
  have m: "max_ttl redis_demo = 1000000000" by (simp add: max_ttl_def redis_demo_def)
  have t: "served rs_now rs_arrive (w_store ?w1) + max_ttl redis_demo + 999999 < served rs_now rs_arrive ?s"
    by (simp add: m redis_demo_put rs_Set_clock)
  have a: "w_app ?w1 = 1" by (rule redis_demo_put(4))
  show ?thesis
    using redis_ttl_backstop [OF ref_client.redis_client_axioms _ _ _ _ _ run o t, of "''k''" demo_absent]
    by (simp add: a redis_demo_put(1))
qed

end
