(* ===== verification/Redis_Table.thy ===== *)
theory Redis_Table
  imports Redis_Client Alias_Table
begin

text \<open>
  A colocated group on Redis implements the table of \<open>Alias_Table\<close> exactly: \<open>co_table\<close> reads the table
  off the live content at an instant, and each operation is the table's operation at the instant at
  which the server runs it.
\<close>

text \<open>The table of a colocated group: the values and owners of its live content.\<close>

definition co_table :: "string \<Rightarrow> rcontent \<Rightarrow> alias_table" where
  "co_table ns L =
     \<lparr>at_value = (\<lambda>pk. rv_text (L (ValueKey ns pk False))),
      at_owner = (\<lambda>ref. if plain_field ref then co_owner ns L ref else None)\<rparr>"

lemma co_table_put_value:
  assumes "co_inv ns L"
  shows "co_table ns (co_put_live ns pk \<lparr>Field = '''', Value = v0\<rparr> b d L) = table_put pk b (co_table ns L)"
  using put_value_live(1,3) [OF assms, of pk v0 b d]
  by (auto simp: co_table_def table_put_def co_owner_def fun_eq_iff)

lemma co_table_put_alias:
  assumes "co_inv ns L" "Field ref \<noteq> ''''" "plain_field ref"
  shows "co_table ns (co_put_live ns pk ref b d L) = table_put_alias pk ref b (co_table ns L)"
proof -
  have c: "CHR '':'' \<notin> set (Field ref)" using assms(3) by (simp add: plain_field_def)
  have "at_owner (co_table ns (co_put_live ns pk ref b d L)) r = at_owner (table_put_alias pk ref b (co_table ns L)) r" for r
    using put_alias_co_owner [OF assms(1,2) c, of r pk b d] c
    by (auto simp: co_table_def table_put_alias_def plain_field_def)
  moreover have "at_value (co_table ns (co_put_live ns pk ref b d L)) q = at_value (table_put_alias pk ref b (co_table ns L)) q" for q
    using put_alias_live(1) [OF assms(1,2) c, of pk b d q] by (simp add: co_table_def table_put_alias_def)
  ultimately show ?thesis by (auto intro!: alias_table.equality)
qed

lemma co_table_evict:
  assumes "co_inv ns L"
  shows "co_table ns (co_evict_live ns pk L) = table_evict pk (co_table ns L)"
  using evict_live(1) [OF assms, of pk] evict_co_owner [OF assms, of pk]
  by (auto simp: co_table_def table_evict_def fun_eq_iff)

subsection \<open>Sequences of calls\<close>

fun co_call :: "'s colocatedOps \<Rightarrow> alias_call \<Rightarrow> (alias_answer, 's) op" where
  "co_call o1 (CGet pk) s = apfst read_answer (co_GetValue o1 pk s)"
| "co_call o1 (CGetAlias ref) s = apfst read_answer (co_GetByAlias o1 ref s)"
| "co_call o1 (CPut pk b ttl) s = apfst write_answer (co_PutValue o1 pk b ttl s)"
| "co_call o1 (CPutAlias pk ref b ttl) s = apfst write_answer (co_PutByAlias o1 pk ref b ttl s)"
| "co_call o1 (CEvict pk) s = apfst write_answer (co_EvictByPrimary o1 pk s)"
| "co_call o1 (CEvictAlias ref) s = apfst write_answer (co_EvictByAlias o1 ref s)"

abbreviation co_trace ::
  "('s \<Rightarrow> rcontent) \<Rightarrow> ('s \<Rightarrow> int) \<Rightarrow> 's colocatedOps \<Rightarrow> 's \<Rightarrow> (alias_call \<times> alias_answer) list \<Rightarrow> 's \<Rightarrow> bool" where
  "co_trace content now o1 \<equiv> group_trace (co_call o1) (co_others content now (co_ns o1))"

lemma co_table_later:
  assumes "co_inv ns (live t c)" "t \<le> t'"
  shows "co_table ns (live t' c) =
    table_without {pk. live t' c (ValueKey ns pk False) = None} (co_table ns (live t c))"
proof -
  have v: "rv_text (live t' c (ValueKey ns pk False)) =
      (if live t' c (ValueKey ns pk False) = None then None else rv_text (live t c (ValueKey ns pk False)))" for pk
    using live_later [OF assms(2)] by (auto split: if_splits)
  have o: "co_owner ns (live t' c) r =
      (if co_owner ns (live t c) r \<in> Some ` {pk. live t' c (ValueKey ns pk False) = None} then None
       else co_owner ns (live t c) r)" for r
  proof (cases "co_owner ns (live t c) r")
    case None
    then have "co_owner ns (live t' c) r = None"
      using live_later [OF assms(2)] by (auto simp: co_owner_def rv_text_Some) (metis rv_text_Some not_Some_eq)
    with None show ?thesis by simp
  next
    case (Some pk)
    then obtain b d where "live t c (ValueKey ns pk False) = Some (RStr b d)"
      "live t c (tail_key ns (alias_tail (Field r) (Value r)) False) = Some (RStr pk d)"
      using co_owner_value [OF assms(1)] by blast
    then have "live t' c (ValueKey ns pk False) = (if expired_at d t' then None else Some (RStr b d))"
      "live t' c (tail_key ns (alias_tail (Field r) (Value r)) False) = (if expired_at d t' then None else Some (RStr pk d))"
      by (auto simp: live_def split: option.splits if_splits)
    then show ?thesis using Some by (auto simp: co_owner_def)
  qed
  show ?thesis
    using v o by (auto simp: co_table_def table_without_def fun_eq_iff)
qed

text \<open>The table stays while its values do.\<close>

lemma co_table_steady:
  assumes "co_inv ns (live t c)" "t \<le> t'"
    and "\<And>q v. live t c (ValueKey ns q False) = Some v \<Longrightarrow> \<not> expired_at (rv_deadline v) t'"
  shows "co_table ns (live t' c) = co_table ns (live t c)"
proof -
  let ?P = "{pk. live t' c (ValueKey ns pk False) = None}"
  have gone: "live t c (ValueKey ns q False) = None" if "q \<in> ?P" for q
    using assms(3) [of q] that by (auto simp: live_def split: option.splits if_splits)
  have "co_owner ns (live t c) r \<noteq> Some q" if "q \<in> ?P" for q r
    using co_owner_value [OF assms(1)] gone [OF that] by fastforce
  then have "table_without ?P (co_table ns (live t c)) = co_table ns (live t c)"
    using gone by (auto simp: table_without_def co_table_def fun_eq_iff image_iff)
  then show ?thesis using co_table_later [OF assms(1,2)] by simp
qed

text \<open>The table of the group in \<open>s\<close> at the instant of \<open>t\<close>.\<close>

definition table_at :: "('s \<Rightarrow> rcontent) \<Rightarrow> ('s \<Rightarrow> int) \<Rightarrow> 's colocatedOps \<Rightarrow> 's \<Rightarrow> 's \<Rightarrow> alias_table" where
  "table_at content now o1 t s = co_table (co_ns o1) (live (now t) (content s))"

context redis_client
begin

lemma table_ops:
  assumes "co_ok content now (co_ns o1) s" "co_conn o1 = conn"
  shows "(case co_GetValue o1 pk s of (r, s') \<Rightarrow> r = table_get pk (table_at content now o1 s' s) \<and> table_at content now o1 s' s' = table_at content now o1 s' s)"
    and "(case co_PutValue o1 pk b ttl s of (e, s') \<Rightarrow> e = None \<and> table_at content now o1 s' s' = table_put pk b (table_at content now o1 s' s))"
    and "(case co_EvictByPrimary o1 pk s of (e, s') \<Rightarrow> e = None \<and> table_at content now o1 s' s' = table_evict pk (table_at content now o1 s' s))"
    and "plain_field ref \<Longrightarrow> (case co_GetByAlias o1 ref s of (r, s') \<Rightarrow>
      r = table_get_alias ref (table_at content now o1 s' s) \<and> table_at content now o1 s' s' = table_at content now o1 s' s)"
    and "plain_field ref \<Longrightarrow> Field ref \<noteq> '''' \<Longrightarrow> (case co_PutByAlias o1 pk ref b ttl s of (e, s') \<Rightarrow>
      e = None \<and> table_at content now o1 s' s' = table_put_alias pk ref b (table_at content now o1 s' s))"
    and "plain_field ref \<Longrightarrow> (case co_EvictByAlias o1 ref s of (e, s') \<Rightarrow>
      e = None \<and> table_at content now o1 s' s' = table_evict_alias ref (table_at content now o1 s' s))"
proof -
  let ?L = "live (now (arrive s)) (content s)"
  note i = co_typed_arrive [OF assms(1)]
  note t = co_invD(1) [OF i]
  have v: "str_or_none (?L (ValueKey (co_ns o1) pk False))" for pk by (rule co_typedD(1) [OF t])
  note p = co_put_result [OF t assms(2)]
  show "case co_GetValue o1 pk s of (r, s') \<Rightarrow> r = table_get pk (table_at content now o1 s' s) \<and> table_at content now o1 s' s' = table_at content now o1 s' s"
    using co_GetValue_result [OF assms(2), of pk s] v [of pk]
    by (auto simp: table_at_def co_table_def table_get_def case_prod_unfold str_or_none_cases)
  show "case co_PutValue o1 pk b ttl s of (e, s') \<Rightarrow> e = None \<and> table_at content now o1 s' s' = table_put pk b (table_at content now o1 s' s)"
    using p by (simp add: co_PutValue_def table_at_def case_prod_unfold co_table_put_value [OF i])
  show "case co_EvictByPrimary o1 pk s of (e, s') \<Rightarrow> e = None \<and> table_at content now o1 s' s' = table_evict pk (table_at content now o1 s' s)"
    using co_EvictByPrimary_result [OF t assms(2)]
    by (simp add: table_at_def case_prod_unfold co_table_evict [OF i])
  show "case co_GetByAlias o1 ref s of (r, s') \<Rightarrow>
      r = table_get_alias ref (table_at content now o1 s' s) \<and> table_at content now o1 s' s' = table_at content now o1 s' s" if "plain_field ref"
    using co_GetByAlias_result [OF t assms(2), of ref] that
    by (simp add: table_at_def case_prod_unfold table_get_alias_def table_get_def co_table_def [of _ ?L] cong: option.case_cong)
  show "case co_PutByAlias o1 pk ref b ttl s of (e, s') \<Rightarrow>
      e = None \<and> table_at content now o1 s' s' = table_put_alias pk ref b (table_at content now o1 s' s)" if "plain_field ref" "Field ref \<noteq> ''''"
    using p by (simp add: co_PutByAlias_def table_at_def case_prod_unfold co_table_put_alias [OF i that(2,1)])
  show "case co_EvictByAlias o1 ref s of (e, s') \<Rightarrow>
      e = None \<and> table_at content now o1 s' s' = table_evict_alias ref (table_at content now o1 s' s)" if "plain_field ref"
    using co_EvictByAlias_result [OF t assms(2), of ref] that
    by (auto simp: table_at_def case_prod_unfold table_evict_alias_def co_table_evict [OF i] co_table_def [of _ ?L]
        split: option.splits)
qed

text \<open>One call: a step of the group, and the table's call at the instant at which it runs.\<close>

lemma co_call_result:
  assumes "co_ok content now (co_ns o1) s" "co_conn o1 = conn" "plain_call c" "co_call o1 c s = (a, s1)"
  shows "co_ok content now (co_ns o1) s1" "now s1 = now (arrive s)"
    and "table_call c (table_at content now o1 s1 s) = (a, table_at content now o1 s1 s1)"
proof -
  note i = co_typed_arrive [OF assms(1)]
  note t = co_invD(1) [OF i]
  have step: "co_step content now o1 s s1"
    using assms(3,4) by (cases c) (auto simp: plain_field_def apfst_def map_prod_def case_prod_unfold intro: co_step.intros)
  show "co_ok content now (co_ns o1) s1" by (rule co_step_ok [OF step assms(2,1)])
  show "now s1 = now (arrive s)"
    using assms(4) co_GetValue_result(3) [OF assms(2)] co_GetByAlias_result(3) [OF t assms(2)] co_put_result(2) [OF t assms(2)]
      co_EvictByPrimary_result(2) [OF t assms(2)] co_EvictByAlias_result(2) [OF t assms(2)]
    by (cases c) (auto simp: apfst_def map_prod_def case_prod_unfold co_PutValue_def co_PutByAlias_def)
  show "table_call c (table_at content now o1 s1 s) = (a, table_at content now o1 s1 s1)"
    using assms(3,4) table_ops [OF assms(1,2)]
    by (cases c) (auto simp: apfst_def map_prod_def case_prod_unfold write_answer_def)
qed

text \<open>A value that is there after a call was there before, or has the deadline that the call gave it.\<close>

lemma co_call_value:
  assumes "co_ok content now (co_ns o1) s" "co_conn o1 = conn" "plain_call c" "co_call o1 c s = (a, s1)"
    and "live (now s1) (content s1) (ValueKey (co_ns o1) q False) = Some v" "lasts Milliseconds (now s1) t' c"
  shows "live (now s1) (content s) (ValueKey (co_ns o1) q False) = Some v \<or> \<not> expired_at (rv_deadline v) t'"
proof -
  note n = co_call_result(2) [OF assms(1-4)]
  note i = co_typed_arrive [OF assms(1)]
  note t = co_invD(1) [OF i]
  note p = co_put_result(3) [OF t assms(2)] and e = co_EvictByPrimary_result(3) [OF t assms(2)]
    co_EvictByAlias_result(3) [OF t assms(2)]
  show ?thesis
    using assms(3-6)
    by (cases c) (auto simp: n apfst_def map_prod_def case_prod_unfold co_GetValue_result [OF assms(2)]
        co_GetByAlias_result [OF t assms(2)] co_PutValue_def co_PutByAlias_def p e put_value_live(1) [OF i]
        put_alias_live(1) [OF i] plain_field_def evict_live(1) [OF i] split: if_splits option.splits)
qed

lemma co_call_lasts:
  assumes "co_ok content now (co_ns o1) s" "co_conn o1 = conn" "plain_call c" "co_call o1 c s = (a, s1)"
    and "now s1 \<le> t'" "lasts Milliseconds (now s1) t' c"
    and same: "co_table (co_ns o1) (live t' (content s)) = co_table (co_ns o1) (live (now s1) (content s))"
  shows "co_table (co_ns o1) (live t' (content s1)) = co_table (co_ns o1) (live (now s1) (content s1))"
proof (rule co_table_steady [OF _ assms(5)])
  note r = co_call_result [OF assms(1-4)]
  show "co_inv (co_ns o1) (live (now s1) (content s1))" using r(1) by (simp add: co_ok_def)
  have t: "co_typed (co_ns o1) (live (now s1) (content s))"
    unfolding r(2) by (rule co_invD(1) [OF co_typed_arrive [OF assms(1)]])
  fix q v
  assume v: "live (now s1) (content s1) (ValueKey (co_ns o1) q False) = Some v"
  then consider "live (now s1) (content s) (ValueKey (co_ns o1) q False) = Some v" | "\<not> expired_at (rv_deadline v) t'"
    using co_call_value [OF assms(1-4) _ assms(6)] by blast
  then show "\<not> expired_at (rv_deadline v) t'"
  proof cases
    case 1
    then obtain b d where b: "live (now s1) (content s) (ValueKey (co_ns o1) q False) = Some (RStr b d)"
      using co_typedD(1) [OF t, of q] by (cases v) (auto simp: str_or_none_cases)
    then have "rv_text (live t' (content s) (ValueKey (co_ns o1) q False)) = Some b"
      using arg_cong [OF same, of "\<lambda>T. at_value T q"] by (simp add: co_table_def)
    with b 1 show ?thesis by (auto simp: live_def split: option.splits if_splits)
  qed
qed

end

sublocale redis_client \<subseteq> co_group: alias_group
  "co_call (o1\<lparr>co_conn := conn\<rparr>)" "co_others content now (co_ns o1)" "\<lambda>t s. co_table (co_ns o1) (live t (content s))"
  now "co_ok content now (co_ns o1)" table_without Milliseconds
  for o1 :: "'s colocatedOps"
proof unfold_locales
  let ?o = "o1\<lparr>co_conn := conn\<rparr>"
  fix c s
  assume c: "plain_call c" and s: "co_ok content now (co_ns o1) s"
  obtain a s1 where a: "co_call ?o c s = (a, s1)" by (cases "co_call ?o c s")
  note r = co_call_result [of ?o s c a s1, simplified, OF s c a]
  show "co_ok content now (co_ns o1) (snd (co_call ?o c s))" using r(1) by (simp add: a)
  show "\<exists>t. now s \<le> t \<and> t \<le> now (snd (co_call ?o c s)) \<and>
      table_call c (co_table (co_ns o1) (live t (content s))) =
        (fst (co_call ?o c s), co_table (co_ns o1) (live t (content (snd (co_call ?o c s))))) \<and>
      (\<exists>pks. co_table (co_ns o1) (live (now (snd (co_call ?o c s))) (content (snd (co_call ?o c s)))) =
         table_without pks (co_table (co_ns o1) (live t (content (snd (co_call ?o c s)))))) \<and>
      (\<forall>t'. t \<le> t' \<longrightarrow>
         co_table (co_ns o1) (live t' (content s)) = co_table (co_ns o1) (live t (content s)) \<longrightarrow>
         lasts Milliseconds t t' c \<longrightarrow>
         co_table (co_ns o1) (live t' (content (snd (co_call ?o c s)))) =
           co_table (co_ns o1) (live t (content (snd (co_call ?o c s)))))"
    using r arrive(1) [of s] co_call_lasts [of ?o s c a s1, simplified, OF s c a]
    by (intro exI [of _ "now s1"] conjI exI [of _ "{}"]) (simp_all add: a table_at_def)
next
  fix s s' t
  assume o: "co_others content now (co_ns o1) s s'"
  then show "co_table (co_ns o1) (live t (content s')) = co_table (co_ns o1) (live t (content s))" "now s \<le> now s'"
    by (simp_all add: co_table_def co_owner_def co_others_def live_def fun_eq_iff)
  show "co_ok content now (co_ns o1) s \<Longrightarrow> co_ok content now (co_ns o1) s'" by (rule co_ok_others [OF _ o])
next
  fix s t
  assume "co_ok content now (co_ns o1) s" "now s \<le> t"
  then show "\<exists>pks. co_table (co_ns o1) (live t (content s)) = table_without pks (co_table (co_ns o1) (live (now s) (content s)))"
    using co_table_later [of "co_ns o1" "now s" "content s" t] by (auto simp: co_ok_def)
qed

text \<open>A server without keys of the group.\<close>

definition co_group_empty :: "('s \<Rightarrow> rcontent) \<Rightarrow> string \<Rightarrow> 's \<Rightarrow> bool" where
  "co_group_empty content ns s \<longleftrightarrow> (\<forall>pk. content s (ValueKey ns pk False) = None) \<and>
     (\<forall>pk. content s (MembersKey ns pk False) = None) \<and> (\<forall>t. content s (tail_key ns t False) = None)"

lemma co_group_emptyD:
  assumes "co_group_empty content ns s"
  shows "live t (content s) (ValueKey ns pk False) = None" "live t (content s) (MembersKey ns pk False) = None"
    "live t (content s) (tail_key ns x False) = None"
  using assms by (simp_all add: co_group_empty_def live_def)

lemma co_group_empty_ok: "co_group_empty content ns s \<Longrightarrow> co_ok content now ns s"
  by (simp add: co_ok_def co_inv_def co_typed_def co_group_emptyD)

lemma co_table_empty: "co_group_empty content ns s \<Longrightarrow> co_table ns (live t (content s)) = empty_table"
  by (auto simp: co_table_def empty_table_def co_owner_def co_group_emptyD)

lemma outlasts_Milliseconds:
  assumes "outlasts d c" "t' - t \<le> d div 1000000" shows "lasts Milliseconds t t' c"
proof -
  have "\<not> expired_at (deadline t (Milliseconds ttl)) t'" if "ttl \<le> 0 \<or> d \<le> ttl" for ttl
  proof (cases "1000000 \<le> ttl")
    case True
    with that have "d div 1000000 \<le> Milliseconds ttl" by (simp add: Milliseconds_nonneg zdiv_mono1)
    with assms(2) show ?thesis by (simp add: deadline_def)
  next
    case False
    with Milliseconds_pos [of ttl] show ?thesis by (simp add: deadline_def)
  qed
  with assms(1) show ?thesis by (cases c) simp_all
qed

context redis_client
begin

text \<open>The facts of the contract, for a group on this connection.\<close>

lemma co_trace_table:
  assumes "co_trace content now o1 s tr s'" "co_conn o1 = conn" "co_ok content now (co_ns o1) s"
  shows "lapse_trace table_without (table_at content now o1 s s) tr (table_at content now o1 s' s')"
proof -
  have o1: "o1\<lparr>co_conn := conn\<rparr> = o1" using assms(2) by (cases o1) simp
  show ?thesis
    using co_group.trace_simulated [of o1, unfolded o1, OF assms(1,3)] by (simp add: table_at_def)
qed

lemma co_trace_answers:
  assumes "co_trace content now o1 s tr s'" "co_conn o1 = conn" "co_ok content now (co_ns o1) s"
    and "\<And>q v. live (now s) (content s) (ValueKey (co_ns o1) q False) = Some v \<Longrightarrow> \<not> expired_at (rv_deadline v) (now s')"
    and "\<And>c. c \<in> set (map fst tr) \<Longrightarrow> lasts Milliseconds (now s) (now s') c"
  shows "table_calls (map fst tr) (table_at content now o1 s s) = (map snd tr, table_at content now o1 s' s')"
proof -
  have o1: "o1\<lparr>co_conn := conn\<rparr> = o1" using assms(2) by (cases o1) simp
  have "co_group.steady o1 (now s') s"
    unfolding co_group.steady_def
  proof (intro allI impI)
    fix t
    assume "now s \<le> t" "t \<le> now s'"
    with assms(3,4) show "co_table (co_ns o1) (live t (content s)) = co_table (co_ns o1) (live (now s) (content s))"
      by (intro co_table_steady) (auto simp: co_ok_def dest: expired_at_mono)
  qed
  note st = this
  show ?thesis
    using co_group.steady_trace [of o1, unfolded o1, OF assms(1,3) st order_refl assms(5)] by (simp add: table_at_def)
qed

lemma co_trace_answers_empty:
  assumes "co_trace content now o1 s tr s'" "co_conn o1 = conn" "co_group_empty content (co_ns o1) s"
    and "now s' - now s \<le> d div 1000000" "\<And>c. c \<in> set (map fst tr) \<Longrightarrow> outlasts d c"
  shows "table_calls (map fst tr) empty_table = (map snd tr, table_at content now o1 s' s')"
proof -
  have ok: "co_ok content now (co_ns o1) s" by (rule co_group_empty_ok [OF assms(3)])
  note l = outlasts_Milliseconds [OF assms(5) assms(4)]
  have T: "table_at content now o1 s s = empty_table" by (simp add: table_at_def co_table_empty [OF assms(3)])
  show ?thesis
    using co_trace_answers [OF assms(1,2) ok _ l] co_group_emptyD [OF assms(3)] by (simp add: T)
qed

end

end
