(* ===== verification/Redis_Alias_Props.thy ===== *)
theory Redis_Alias_Props
  imports Redis_Cache_Props Redis_Table
begin

text \<open>
  Reads and writes by alias through caches of alias groups on Redis, under both strategies.
\<close>

subsection \<open>Through the cache\<close>

lemma GetByAlias_hit:
  assumes "c_aliasOps c = Some ao" "solo_flight c" "fst (ao_GetByAlias ao alias (w_store w)) = Inr b" "codec_ok c v b"
  shows "fst (GetByAlias c alias loader w) = Ret (Some v, Hit, None)" "w_app (snd (GetByAlias c alias loader w)) = w_app w"
proof -
  have "cached_answer c (Inr b) = Some (Some v, Hit, None)" using assms(4) by (simp add: cached_answer_def codec_ok_def)
  then show "fst (GetByAlias c alias loader w) = Ret (Some v, Hit, None)" "w_app (snd (GetByAlias c alias loader w)) = w_app w"
    using assms(1-3) by (simp_all add: GetByAlias_eq on_store_def case_prod_unfold Let_def)
qed

lemma PutAliased_written:
  assumes "c_aliasOps c = Some ao" "codec_ok c v b" "writer (w_app w) = ((Some v, None), x)"
    and "fst (ao_PutByAlias ao pk alias b (fst (positiveTTL c (snd (on_app writer w)))) (w_store w)) = None"
    and "PutAliased c pk alias writer w = (r, w1)"
  shows "r = (Some v, Written, None)" "w_app w1 = x"
    and "w_store w1 = snd (ao_PutByAlias ao pk alias b (fst (positiveTTL c (snd (on_app writer w)))) (w_store w))"
proof -
  have o1: "on_app writer w = ((Some v, None), w\<lparr>w_app := x\<rparr>)" using assms(3) by (simp add: on_app_def)
  have m: "cd_Marshal (c_codec c) (Some v) = Inr b" using assms(2) by (simp add: codec_ok_def)
  show "r = (Some v, Written, None)" "w_app w1 = x"
    "w_store w1 = snd (ao_PutByAlias ao pk alias b (fst (positiveTTL c (snd (on_app writer w)))) (w_store w))"
    using assms(1,4,5) m by (auto simp: PutAliased_def o1 on_store_def prod_eq_iff case_prod_unfold Let_def split: if_splits)
qed

subsection \<open>Through the store\<close>

context redis_client
begin

lemma co_put_get:
  assumes "co_ok content now (co_ns o1) s" "co_conn o1 = conn" "plain_field ref" "Field ref \<noteq> ''''" "1000000 \<le> ttl"
    and "co_PutByAlias o1 pk ref b ttl s = (e, s1)" "co_others content now (co_ns o1) s1 s2"
    and "now (snd (co_GetByAlias o1 ref s2)) \<le> now (arrive s) + Milliseconds ttl"
  shows "e = None" "fst (co_GetByAlias o1 ref s2) = Inr b"
proof -
  let ?ns = "co_ns o1" and ?t = "now (arrive s)" and ?ms = "Milliseconds ttl"
  let ?d = "deadline ?t ?ms"
  have ms: "0 < ?ms" using assms(5) by (simp add: Milliseconds_pos)
  have c: "CHR '':'' \<notin> set (Field ref)" using assms(3) by (simp add: plain_field_def)
  note i = co_typed_arrive [OF assms(1)]
  note p = co_put_result [OF co_invD(1) [OF i] assms(2), of pk ref b ttl, folded co_PutByAlias_def]
  have s1: "now s1 = ?t" "live ?t (content s1) = co_put_live ?ns pk ref b ?d (live ?t (content s))"
    and e: "e = None" using p(1-3) assms(6) by simp_all
  have ok1: "co_ok content now ?ns s1"
    using co_step_ok [OF co_put_alias [OF c, of content now o1 s pk b ttl] assms(2,1)] assms(6) by simp
  have ok2: "co_ok content now ?ns s2" by (rule co_ok_others [OF ok1 assms(7)])
  note i2 = co_typed_arrive [OF ok2]
  note g = co_GetByAlias_result [OF co_invD(1) [OF i2] assms(2), of ref]
  have t2: "now (arrive s2) \<le> ?t + ?ms" using assms(8) g(3) by simp
  have "live ?t (content s1) (ValueKey ?ns pk False) = Some (RStr b ?d)" "co_owner ?ns (live ?t (content s1)) ref = Some pk"
    unfolding s1(2) using put_alias_live(1) [OF i assms(4) c, of pk b ?d pk] put_alias_co_owner [OF i assms(4) c c, of pk b ?d] by simp_all
  moreover have "co_inv ?ns (live ?t (content s1))" using ok1 s1(1) by (simp add: co_ok_def)
  ultimately have "live ?t (content s1) (tail_key ?ns (alias_tail (Field ref) (Value ref)) False) = Some (RStr pk ?d)"
    "live ?t (content s1) (ValueKey ?ns pk False) = Some (RStr b ?d)"
    using co_owner_value by fastforce+
  then have "content s2 (tail_key ?ns (alias_tail (Field ref) (Value ref)) False) = Some (RStr pk ?d)"
    "content s2 (ValueKey ?ns pk False) = Some (RStr b ?d)"
    using assms(7) by (simp_all add: live_Some co_others_def)
  moreover have "\<not> expired_at ?d (now (arrive s2))" using t2 ms by (simp add: deadline_pos)
  ultimately show "fst (co_GetByAlias o1 ref s2) = Inr b"
    unfolding g(1) by (simp add: co_owner_def live_def)
  show "e = None" by (rule e)
qed

lemma group_alias_put:
  assumes "group_ok content now ns mode s" "ttl \<noteq> -1"
  shows "fst (ao_PutByAlias (redis_AliasGroup conn ns mode) pk ref b ttl s) = None"
proof (cases mode)
  case AliasColocated
  then have "co_ok content now (co_ns (co_of conn ns)) s" using assms(1) by (simp add: group_ok_def)
  note co_put_result(1) [OF co_invD(1) [OF co_typed_arrive [OF this]]]
  then show ?thesis using AliasColocated by (simp add: redis_AliasGroup_def co_alias_ops_def co_PutByAlias_def)
next
  case AliasSharded
  then have "sh_ok content now (sh_ns (sh_of conn ns)) s" using assms(1) by (simp add: group_ok_def)
  note sh_PutByAlias_result [OF sh_inv_typed [OF sh_ok_arrive [OF this]], THEN conjunct1]
  then show ?thesis using AliasSharded by (simp add: redis_AliasGroup_def sh_alias_ops_def)
qed

lemma group_alias_put_get:
  assumes "group_ok content now ns mode s" "plain_field ref" "Field ref \<noteq> ''''" "1000000 \<le> ttl"
    and "s1 = snd (ao_PutByAlias (redis_AliasGroup conn ns mode) pk ref b ttl s)"
    and "others_redis_group content now arrive ns mode s1 s2"
    and "now (snd (ao_GetByAlias (redis_AliasGroup conn ns mode) ref s2)) \<le> now (arrive s) + Milliseconds ttl"
  shows "fst (ao_GetByAlias (redis_AliasGroup conn ns mode) ref s2) = Inr b"
proof (cases mode)
  case AliasColocated
  let ?p = "co_PutByAlias (co_of conn ns) pk ref b ttl s"
  have p: "?p = (fst ?p, snd ?p)" by simp
  show ?thesis
    using co_put_get(2) [OF _ _ assms(2-4) p, of s2] assms(1,5-7) AliasColocated
    by (simp add: group_ok_def redis_AliasGroup_def co_alias_ops_def others_redis_group_def)
next
  case AliasSharded
  let ?p = "sh_PutByAlias (sh_of conn ns) pk ref b ttl s"
  have p: "?p = (fst ?p, snd ?p)" by simp
  show ?thesis
    using sh_put_get(1) [OF _ _ assms(3,4) p, of s2] assms(1,5-7) AliasSharded
    by (simp add: group_ok_def redis_AliasGroup_def sh_alias_ops_def others_redis_group_def)
qed

end

subsection \<open>Property\<close>

text \<open>C22: An aliased write is read back on Redis, under both strategies.  After \<open>PutAliased\<close> of a value the
  writer returned, and anything on other keys, a read by the alias within the shortest jittered TTL (a
  millisecond at least, less the last one) is a hit with that value and runs no loader.\<close>

theorem redis_aliased_write_read:
  assumes "redis_client R content now conn arrive" "finite_ttl c" "solo_flight c"
    and "group_ok content now ns mode (w_store w)" "plain_field alias" "Field alias \<noteq> ''''"
    and "rand_ok (w_rand w)" "codec_ok c v b" "writer (w_app w) = ((Some v, None), x)"
    and "PutAliased (on_redis_group conn ns mode c) pk alias writer w = (r, w1)"
    and "others_redis_group content now arrive ns mode (w_store w1) s" "w2 = w1\<lparr>w_store := s\<rparr>"
    and "within_ttl c (o_TTL (c_opts c)) 0 1000000"
    and "within_ttl c (o_TTL (c_opts c)) (served now arrive (w_store w))
      (1000000 * now (snd (ao_GetByAlias (redis_AliasGroup conn ns mode) alias s)) + 999999)"
  shows "r = (Some v, Written, None) \<and> w_app w1 = x \<and>
    fst (GetByAlias (on_redis_group conn ns mode c) alias loader w2) = Ret (Some v, Hit, None) \<and>
    w_app (snd (GetByAlias (on_redis_group conn ns mode c) alias loader w2)) = x"
proof -
  let ?c = "on_redis_group conn ns mode c" and ?ao = "redis_AliasGroup conn ns mode"
  let ?wa = "snd (on_app writer w)"
  define ttl where "ttl = fst (positiveTTL ?c ?wa)"
  have rd: "rand_ok (w_rand ?wa)" using assms(7) by simp
  have ttl: "1000000 \<le> ttl"
    "1000000 * now (snd (ao_GetByAlias ?ao alias s)) + 999999 - 1000000 * now (arrive (w_store w)) \<le> ttl"
    using positiveTTL_reach [of ?c ?wa 0 1000000] positiveTTL_reach [of ?c ?wa "served now arrive (w_store w)"
      "1000000 * now (snd (ao_GetByAlias ?ao alias s)) + 999999"] rd assms(2,13,14)
    by (simp_all add: ttl_def served_def)
  have co: "codec_ok ?c v b" "solo_flight ?c" "c_aliasOps ?c = Some ?ao" using assms(3,8) by simp_all
  have "fst (ao_PutByAlias ?ao pk alias b ttl (w_store w)) = None"
    using redis_client.group_alias_put [OF assms(1,4)] ttl(1) by simp
  note P = PutAliased_written [OF co(3,1) assms(9) this [unfolded ttl_def] assms(10), folded ttl_def]
  have "now (snd (ao_GetByAlias ?ao alias s)) \<le> now (arrive (w_store w)) + Milliseconds ttl"
    using ttl by (simp add: Milliseconds_nonneg)
  from redis_client.group_alias_put_get [OF assms(1,4-6) ttl(1) P(3) assms(11) this]
  have "fst (ao_GetByAlias ?ao alias (w_store w2)) = Inr b" by (simp add: assms(12))
  from GetByAlias_hit [OF co(3,2) this co(1), of loader] P(1,2) show ?thesis by (simp add: assms(12))
qed

theorem redis_aliased_write_read_witness:
  "\<forall>mode. fst (GetByAlias (on_redis_group rs_conn ''user'' mode redis_demo) \<lparr>Field = ''email'', Value = ''a''\<rparr> demo_absent
     (snd (PutAliased (on_redis_group rs_conn ''user'' mode redis_demo) ''7'' \<lparr>Field = ''email'', Value = ''a''\<rparr>
        demo_load redis_world))) = Ret (Some ''ann'', Hit, None)"
proof
  fix mode
  let ?c = "on_redis_group rs_conn ''user'' mode redis_demo" and ?a = "\<lparr>Field = ''email'', Value = ''a''\<rparr>"
  let ?ao = "redis_AliasGroup rs_conn ''user'' mode"
  let ?w1 = "snd (PutAliased ?c ''7'' ?a demo_load redis_world)"
  have p: "PutAliased ?c ''7'' ?a demo_load redis_world = (fst (PutAliased ?c ''7'' ?a demo_load redis_world), ?w1)" by simp
  have t: "positiveTTL ?c w = (1000000000, w)" for w :: "(refserver, nat) world"
    by (simp add: positiveTTL_def jittered_def applyJitter_def f64_le_def on_redis_group_def redis_demo_def)
  have s: "w_store ?w1 = snd (ao_PutByAlias ?ao ''7'' ?a ''qann'' 1000000000 demo_server)"
    by (rule trans [OF PutAliased_written(3) [OF _ _ _ _ p]]) (simp_all add: t ref_client.group_alias_put)
  have n: "rs_now (snd (ao_GetByAlias ?ao ?a (snd (ao_PutByAlias ?ao ''7'' ?a ''qann'' 1000000000 demo_server)))) \<le> 4"
    by (cases mode) (simp_all only:, code_simp+)
  have o: "others_redis_group rs_content rs_now rs_arrive ''user'' mode (w_store ?w1) (w_store ?w1)"
    by (cases mode) (simp_all add: others_redis_group_def later_redis_def co_others_def sh_others_def)
  have e: "?w1 = ?w1\<lparr>w_store := w_store ?w1\<rparr>" by simp
  have d: "rs_now demo_server = 0" "rs_lag demo_server = 1" by (simp_all add: demo_server_def)
  show "fst (GetByAlias ?c ?a demo_absent ?w1) = Ret (Some ''ann'', Hit, None)"
    using redis_aliased_write_read [OF ref_client.redis_client_axioms _ _ _ _ _ _ _ _ p o e,
      where v = "''ann''" and b = "''qann''" and x = 1 and loader = demo_absent] n by (simp add: s d plain_field_def)
qed

end
