(* ===== verification/Redis_Sharded_Prefix.thy ===== *)
theory Redis_Sharded_Prefix
  imports Redis_Prefix Redis_Sharded
begin

text \<open>
  Prefix eviction of a sharded group: the records go one by one, each with the pointers that it
  accounts for and that still lead to it.
\<close>

text \<open>What is left when the records \<open>pks\<close> were evicted: no pointer goes but one that led to such a record.\<close>

definition sh_without :: "string \<Rightarrow> string set \<Rightarrow> rcontent \<Rightarrow> rcontent \<Rightarrow> bool" where
  "sh_without ns pks L L' \<longleftrightarrow>
     (\<forall>q. L' (ValueKey ns q True) = (if q \<in> pks then None else L (ValueKey ns q True)) \<and>
        L' (MembersKey ns q True) = (if q \<in> pks then None else L (MembersKey ns q True))) \<and>
     (\<forall>f v. L' (PointerKey ns f v True) = L (PointerKey ns f v True) \<or>
        L' (PointerKey ns f v True) = None \<and> rv_text (L (PointerKey ns f v True)) \<in> Some ` pks)"

lemma sh_without_empty: "sh_without ns {} L L"
  by (simp add: sh_without_def)

lemma sh_without_insert:
  assumes "sh_without ns {pk} L L1" "sh_without ns pks L1 L2"
  shows "sh_without ns (insert pk pks) L L2"
proof -
  have "L2 (PointerKey ns f v True) = L (PointerKey ns f v True) \<or>
      L2 (PointerKey ns f v True) = None \<and> rv_text (L (PointerKey ns f v True)) \<in> Some ` insert pk pks" for f v
  proof -
    have "L1 (PointerKey ns f v True) = L (PointerKey ns f v True) \<or>
        L1 (PointerKey ns f v True) = None \<and> rv_text (L (PointerKey ns f v True)) = Some pk"
      "L2 (PointerKey ns f v True) = L1 (PointerKey ns f v True) \<or>
        L2 (PointerKey ns f v True) = None \<and> rv_text (L1 (PointerKey ns f v True)) \<in> Some ` pks"
      using assms by (simp_all add: sh_without_def)
    then show ?thesis by (elim disjE conjE) simp_all
  qed
  then show ?thesis using assms by (simp add: sh_without_def)
qed

lemma sh_without_live:
  assumes "sh_without ns pks L L'" shows "sh_without ns pks (live t L) (live t L')"
proof -
  have "live t L' (PointerKey ns f v True) = live t L (PointerKey ns f v True) \<or>
      live t L' (PointerKey ns f v True) = None \<and> rv_text (live t L (PointerKey ns f v True)) \<in> Some ` pks" for f v
  proof -
    let ?k = "PointerKey ns f v True"
    have "L' ?k = L ?k \<or> L' ?k = None \<and> rv_text (L ?k) \<in> Some ` pks" using assms by (simp add: sh_without_def)
    moreover have "live t L ?k = None \<or> live t L ?k = L ?k" by (rule live_or)
    ultimately show ?thesis using live_at_eq [of L' ?k L t] live_None [of L' ?k t] by auto
  qed
  then show ?thesis using assms by (simp add: sh_without_def live_def)
qed

lemma sh_evicted_without: "sh_evicted ns pk h L L' \<Longrightarrow> sh_without ns {pk} L L'"
  by (auto simp: sh_evicted_def sh_without_def)

text \<open>Prefix eviction keeps the record part of the bookkeeping.\<close>

lemma sh_inv_without:
  assumes "sh_inv ns L" "sh_without ns pks L L'" shows "sh_inv ns L'"
proof -
  note t = sh_inv_typed [OF assms(1)]
  have v: "L' (ValueKey ns q True) = (if q \<in> pks then None else L (ValueKey ns q True))"
    "L' (MembersKey ns q True) = (if q \<in> pks then None else L (MembersKey ns q True))" for q
    using assms(2) by (simp_all add: sh_without_def)
  have "str_or_none (L' (PointerKey ns f w True))" for f w
  proof -
    have "L' (PointerKey ns f w True) = L (PointerKey ns f w True) \<or> L' (PointerKey ns f w True) = None"
      using assms(2) [unfolded sh_without_def, THEN conjunct2, rule_format, of f w] by auto
    then show ?thesis using sh_typedD(2) [OF t, of f w] by auto
  qed
  then show ?thesis using assms(1) unfolding sh_inv_def sh_typed_def v by simp
qed

text \<open>Runs of every operation of a sharded group.\<close>

inductive sh_group_step ::
  "('s \<Rightarrow> rcontent) \<Rightarrow> ('s \<Rightarrow> int) \<Rightarrow> 's shardedOps \<Rightarrow> 's \<Rightarrow> 's \<Rightarrow> bool" for content now o1 where
  sg_step: "sh_step content now o1 s s' \<Longrightarrow> sh_group_step content now o1 s s'"
| sg_evict_prefix: "valid_utf8 p \<Longrightarrow> sh_group_step content now o1 s (snd (sh_EvictByPrimaryPrefix o1 p s))"

abbreviation sh_group_run ::
  "('s \<Rightarrow> rcontent) \<Rightarrow> ('s \<Rightarrow> int) \<Rightarrow> 's shardedOps \<Rightarrow> 's \<Rightarrow> 's \<Rightarrow> bool" where
  "sh_group_run content now o1 \<equiv> (sh_group_step content now o1)\<^sup>*\<^sup>*"

context redis_client
begin

lemma evict_sorted_sh:
  assumes "sh_ok content now (sh_ns o1) s" "sh_conn o1 = conn"
  shows "\<exists>s'. evict_sorted (sh_EvictByPrimary o1) pks n errs s = ((n + int (length pks), errs), s') \<and>
    now s \<le> now s' \<and> sh_without (sh_ns o1) (set pks) (live (now s') (content s)) (live (now s') (content s'))"
  using assms(1)
proof (induction pks arbitrary: n s)
  case (Cons pk pks)
  let ?ns = "sh_ns o1"
  note ty = sh_inv_typed [OF sh_ok_arrive [OF Cons.prems]]
  from sh_EvictByPrimary_result [OF ty assms(2), of pk] obtain s1 where
    "fst (sh_EvictByPrimary o1 pk s) = None" "snd (sh_EvictByPrimary o1 pk s) = s1"
    and t1: "now (arrive s) \<le> now s1"
    and "sh_evicted ?ns pk (sh_fields ?ns (live (now (arrive s)) (content s)) pk)
      (live (now s1) (content s)) (live (now s1) (content s1))" by blast
  then have s1: "sh_EvictByPrimary o1 pk s = (None, s1)"
    and e1: "sh_without ?ns {pk} (live (now s1) (content s)) (live (now s1) (content s1))"
    by (auto simp: prod_eq_iff intro: sh_evicted_without)
  have "sh_ok content now ?ns s1" using sh_ok_evict [OF Cons.prems assms(2), of pk] s1 by simp
  from Cons.IH [OF this, of "n + 1"] obtain s' where s': "evict_sorted (sh_EvictByPrimary o1) pks (n + 1) errs s1 =
      ((n + 1 + int (length pks), errs), s')" "now s1 \<le> now s'"
    "sh_without ?ns (set pks) (live (now s') (content s1)) (live (now s') (content s'))" by blast
  from sh_without_live [OF e1, of "now s'"]
  have "sh_without ?ns {pk} (live (now s') (content s)) (live (now s') (content s1))"
    by (simp add: live_later_eq s'(2))
  from sh_without_insert [OF this s'(3)] s' t1 arrive(1) [of s] s1 show ?case by auto
qed (simp add: sh_without_empty)

end

context redis_prefix
begin

lemma sh_EvictByPrimaryPrefix_result:
  assumes "finite (dom (content s))" "valid_utf8 (sh_ns o1)" "valid_utf8 p" "sh_ok content now (sh_ns o1) s"
    and "sh_conn o1 = conn" "sh_EvictByPrimaryPrefix o1 p s = ((n, err), s')"
  shows "err = None" "now s \<le> now s'"
    and "sh_without (sh_ns o1) {pk. prefix p pk} (live (now s') (content s)) (live (now s') (content s'))"
    and "int (card {pk. prefix p pk \<and> live (now s') (content s) (ValueKey (sh_ns o1) pk True) \<noteq> None}) \<le> n"
    and "n \<le> int (card {pk. prefix p pk \<and> (content s (ValueKey (sh_ns o1) pk True) \<noteq> None \<or>
      content s (MembersKey (sh_ns o1) pk True) \<noteq> None)})"
proof -
  let ?ns = "sh_ns o1"
  have run: "evictByPrimaryPrefix conn ?ns True p (sh_EvictByPrimary o1) s = ((n, err), s')"
    using assms(5,6) by (simp add: sh_EvictByPrimaryPrefix_def)
  have ev: "\<exists>s'. evict_sorted (sh_EvictByPrimary o1) pks 0 [] s = ((int (length pks), []), s') \<and> now s \<le> now s' \<and>
      sh_without ?ns (set pks) (live (now s') (content s)) (live (now s') (content s'))"
    if "sh_ok content now ?ns s" for s pks
    using evict_sorted_sh [OF that assms(5), of pks 0 "[]"] by auto
  from evictByPrimaryPrefix_run [where ok = "sh_ok content now ?ns" and without = "sh_without ?ns",
      OF assms(1-4) sh_ok_quiet [OF assms(4)] ev run] obtain C where
    C: "err = None" "now s \<le> now s'" "sh_without ?ns C (live (now s') (content s)) (live (now s') (content s'))"
    "\<And>pk. pk \<in> C \<Longrightarrow> prefix p pk"
    "\<And>pk. prefix p pk \<Longrightarrow> live (now s') (content s) (ValueKey ?ns pk True) \<noteq> None \<or>
      live (now s') (content s) (MembersKey ?ns pk True) \<noteq> None \<Longrightarrow> pk \<in> C"
    and n: "int (card {pk. prefix p pk \<and> live (now s') (content s) (ValueKey ?ns pk True) \<noteq> None}) \<le> n"
    "n \<le> int (card {pk. prefix p pk \<and> (content s (ValueKey ?ns pk True) \<noteq> None \<or>
      content s (MembersKey ?ns pk True) \<noteq> None)})" by blast
  show "err = None" "now s \<le> now s'" by (rule C)+
  have v: "q \<notin> C \<Longrightarrow> prefix p q \<Longrightarrow> live (now s') (content s) (ValueKey ?ns q True) = None \<and>
      live (now s') (content s) (MembersKey ?ns q True) = None" for q using C(5) [of q] by blast
  have m: "x \<in> Some ` C \<Longrightarrow> x \<in> Some ` {pk. prefix p pk}" for x using C(4) by auto
  show "sh_without ?ns {pk. prefix p pk} (live (now s') (content s)) (live (now s') (content s'))"
    unfolding sh_without_def
  proof (intro conjI allI)
    fix q
    show "live (now s') (content s') (ValueKey ?ns q True) =
        (if q \<in> {pk. prefix p pk} then None else live (now s') (content s) (ValueKey ?ns q True))"
      "live (now s') (content s') (MembersKey ?ns q True) =
        (if q \<in> {pk. prefix p pk} then None else live (now s') (content s) (MembersKey ?ns q True))"
      using C(3) C(4) [of q] v [of q] unfolding sh_without_def by auto
  next
    fix f w
    show "live (now s') (content s') (PointerKey ?ns f w True) = live (now s') (content s) (PointerKey ?ns f w True) \<or>
        live (now s') (content s') (PointerKey ?ns f w True) = None \<and>
        rv_text (live (now s') (content s) (PointerKey ?ns f w True)) \<in> Some ` {pk. prefix p pk}"
      using C(3) m unfolding sh_without_def by blast
  qed
  show "int (card {pk. prefix p pk \<and> live (now s') (content s) (ValueKey ?ns pk True) \<noteq> None}) \<le> n"
    "n \<le> int (card {pk. prefix p pk \<and> (content s (ValueKey ?ns pk True) \<noteq> None \<or>
      content s (MembersKey ?ns pk True) \<noteq> None)})" by (rule n)+
qed

lemma sh_ok_evict_prefix:
  assumes "finite (dom (content s))" "valid_utf8 (sh_ns o1)" "valid_utf8 p" "sh_ok content now (sh_ns o1) s" "sh_conn o1 = conn"
  shows "sh_ok content now (sh_ns o1) (snd (sh_EvictByPrimaryPrefix o1 p s))"
    and "snd (fst (sh_EvictByPrimaryPrefix o1 p s)) = None"
proof -
  obtain n err s' where e: "sh_EvictByPrimaryPrefix o1 p s = ((n, err), s')" by (metis prod.exhaust)
  note r = sh_EvictByPrimaryPrefix_result [OF assms e]
  have "sh_inv (sh_ns o1) (live (now s') (content s))"
    using assms(4) r(2) unfolding sh_ok_def by (rule sh_inv_later)
  from sh_inv_without [OF this r(3)] show "sh_ok content now (sh_ns o1) (snd (sh_EvictByPrimaryPrefix o1 p s))"
    by (simp add: e sh_ok_def)
  show "snd (fst (sh_EvictByPrimaryPrefix o1 p s)) = None" using r(1) by (simp add: e)
qed

lemma sh_group_run_ok:
  assumes "sh_group_run content now o1 s s'" "\<And>s. finite (dom (content s))" "valid_utf8 (sh_ns o1)"
    and "sh_conn o1 = conn" "sh_ok content now (sh_ns o1) s"
  shows "sh_ok content now (sh_ns o1) s'"
  using assms(1,5)
proof induction
  case (step t u)
  from step.hyps(2) step.IH [OF step.prems] show ?case
    by cases (auto intro: sh_step_ok [OF _ assms(4)] sh_ok_evict_prefix(1) [OF assms(2,3) _ _ assms(4)])
qed

end

end
