(* ===== verification/Redis_Props.thy ===== *)
theory Redis_Props
  imports Redis_Reference Redis_Table Redis_Sharded_Prefix
begin

text \<open>
  The properties of the Redis backend itself: the two alias strategies, prefix eviction and scanning,
  over any server and connection that keep the documented contract.
\<close>

text \<open>A group in both modes on the reference server, and an alias, for the witnesses.\<close>

abbreviation demo_co :: "refserver colocatedOps" where "demo_co \<equiv> co_of rs_conn ''user''"

abbreviation demo_sh :: "refserver shardedOps" where "demo_sh \<equiv> sh_of rs_conn ''user''"

abbreviation demo_alias :: AliasRef where "demo_alias \<equiv> \<lparr>Field = ''email'', Value = ''a''\<rparr>"

subsection \<open>Colocated groups\<close>

text \<open>C3: The bookkeeping of a colocated group.  In every run of its operations by any number of clients,
  interleaved with anything on other keys, the live content stays consistent: each pointer leads to a
  record whose members hash accounts for it, each field of a members hash has its pointer, a members hash
  has its value, and all of them have the deadline of the record.  (Alias fields are free of colons.)\<close>

theorem colocated_bookkeeping:
  assumes "redis_client R content now conn arrive" "co_conn o1 = conn"
    and "co_run content now o1 s s'" "co_inv (co_ns o1) (live (now s) (content s))"
  shows "co_inv (co_ns o1) (live (now s') (content s'))"
  using redis_client.co_run_ok [OF assms(1,3,2)] assms(4) by (simp add: co_ok_def)

theorem colocated_bookkeeping_witness:
  "co_inv ''user'' (live 1 (rs_content (snd (co_PutByAlias demo_co ''7'' demo_alias ''x'' 1000000000 demo_server))))"
proof -
  let ?s = "snd (co_PutByAlias demo_co ''7'' demo_alias ''x'' 1000000000 demo_server)"
  have "co_step rs_content rs_now demo_co demo_server ?s" by (rule co_put_alias) simp
  then have r: "co_run rs_content rs_now demo_co demo_server ?s" by simp
  have i: "co_inv (co_ns demo_co) (live (rs_now demo_server) (rs_content demo_server))"
    using demo_group_content(1) [of "''user''"] by (simp add: co_ok_def)
  have t: "rs_now ?s = 1" by code_simp
  show ?thesis using colocated_bookkeeping [OF ref_client.redis_client_axioms _ r i] by (simp add: t)
qed

text \<open>C7: A colocated group implements the alias table: each operation, at the instant at which the server
  runs it, answers and changes the table as the table's own operation does, stealing, replacement and the
  cascade included, and no operation fails.\<close>

theorem colocated_refines:
  assumes "redis_client R content now conn arrive" "co_conn o1 = conn" "co_ok content now (co_ns o1) s"
    and "plain_field ref" "Field ref \<noteq> ''''"
  shows "(case co_GetValue o1 pk s of (r, s') \<Rightarrow>
      r = table_get pk (table_at content now o1 s' s) \<and> table_at content now o1 s' s' = table_at content now o1 s' s) \<and>
    (case co_GetByAlias o1 ref s of (r, s') \<Rightarrow>
      r = table_get_alias ref (table_at content now o1 s' s) \<and>
      table_at content now o1 s' s' = table_at content now o1 s' s) \<and>
    (case co_PutValue o1 pk b ttl s of (e, s') \<Rightarrow>
      e = None \<and> table_at content now o1 s' s' = table_put pk b (table_at content now o1 s' s)) \<and>
    (case co_PutByAlias o1 pk ref b ttl s of (e, s') \<Rightarrow>
      e = None \<and> table_at content now o1 s' s' = table_put_alias pk ref b (table_at content now o1 s' s)) \<and>
    (case co_EvictByPrimary o1 pk s of (e, s') \<Rightarrow>
      e = None \<and> table_at content now o1 s' s' = table_evict pk (table_at content now o1 s' s)) \<and>
    (case co_EvictByAlias o1 ref s of (e, s') \<Rightarrow>
      e = None \<and> table_at content now o1 s' s' = table_evict_alias ref (table_at content now o1 s' s))"
  using redis_client.table_ops [OF assms(1,3,2)] assms(4,5) by simp

theorem colocated_refines_witness:
  "case co_PutByAlias demo_co ''7'' demo_alias ''x'' 1000000000 demo_server of (e, s') \<Rightarrow>
     e = None \<and> table_at rs_content rs_now demo_co s' s' =
       table_put_alias ''7'' demo_alias ''x'' (table_at rs_content rs_now demo_co s' demo_server)"
proof -
  have "co_conn demo_co = rs_conn" "co_ok rs_content rs_now (co_ns demo_co) demo_server" "plain_field demo_alias"
    "Field demo_alias \<noteq> []" by (simp_all add: plain_field_def)
  from colocated_refines [OF ref_client.redis_client_axioms this, THEN conjunct2, THEN conjunct2, THEN conjunct2, THEN conjunct1]
  show ?thesis .
qed

text \<open>C4: Every sequence of calls by clients of a colocated group, with the answers they get and anything on
  other keys in between, is one of the abstract table, in which records expire as a whole: a client never
  sees an alias of a record without its value, a record under an old alias, or an error.\<close>

theorem colocated_simulates:
  assumes "redis_client R content now conn arrive" "co_conn o1 = conn" "co_ok content now (co_ns o1) s"
    and "co_trace content now o1 s tr s'"
  shows "lapse_trace table_without (table_at content now o1 s s) tr (table_at content now o1 s' s')"
  by (rule redis_client.co_trace_table [OF assms(1,4,2,3)])

lemma demo_co_trace:
  "\<exists>s'. co_trace rs_content rs_now demo_co demo_server
     [(CPutAlias ''7'' demo_alias ''x'' 1000000000, Inr None), (CGetAlias demo_alias, Inr (Some ''x''))] s' \<and> rs_now s' \<le> 9"
proof -
  let ?p = "co_call demo_co (CPutAlias ''7'' demo_alias ''x'' 1000000000) demo_server"
  let ?g = "co_call demo_co (CGetAlias demo_alias) (snd ?p)"
  have "fst ?p = Inr None" "fst ?g = Inr (Some ''x'')" and n: "rs_now (snd ?g) \<le> 9" by code_simp+
  then have c: "?p = (Inr None, snd ?p)" "?g = (Inr (Some ''x''), snd ?g)" by (simp_all add: prod_eq_iff)
  have pl: "plain_call (CPutAlias ''7'' demo_alias ''x'' 1000000000)" "plain_call (CGetAlias demo_alias)"
    by (simp_all add: plain_field_def)
  note g = g_call [where call = "co_call demo_co"]
  from g [OF pl(1) c(1) g [OF pl(2) c(2) g_done]] n show ?thesis by blast
qed

theorem colocated_simulates_witness:
  "\<exists>T. lapse_trace table_without (table_at rs_content rs_now demo_co demo_server demo_server)
     [(CPutAlias ''7'' demo_alias ''x'' 1000000000, Inr None), (CGetAlias demo_alias, Inr (Some ''x''))] T"
proof -
  have ok: "co_conn demo_co = rs_conn" "co_ok rs_content rs_now (co_ns demo_co) demo_server" by simp_all
  from demo_co_trace obtain s' where "co_trace rs_content rs_now demo_co demo_server
     [(CPutAlias ''7'' demo_alias ''x'' 1000000000, Inr None), (CGetAlias demo_alias, Inr (Some ''x''))] s'" by blast
  from colocated_simulates [OF ref_client.redis_client_axioms ok this] show ?thesis by blast
qed

subsection \<open>Sharded groups\<close>

text \<open>C8: A sharded read by alias is validated, whatever other clients do between its two round trips: the
  value it returns is, at the instant of its second one, the value of a record that claims the alias.\<close>

theorem sharded_read_validated:
  assumes "redis_calls R content now conn arrive" "sh_conn o1 = conn"
    and "sh_GetByAlias o1 ref s = (Inr b, s')"
  shows "\<exists>pk. rv_text (live (now s') (content s') (ValueKey (sh_ns o1) pk True)) = Some b \<and>
    sh_claims (sh_ns o1) (live (now s') (content s')) pk ref"
  using redis_calls.sh_read_validated [OF assms(1,3,2)] .

theorem sharded_read_validated_witness:
  "\<exists>pk. sh_claims ''user'' (live 4 (rs_content (snd (sh_GetByAlias demo_sh demo_alias
     (snd (sh_PutByAlias demo_sh ''7'' demo_alias ''x'' 1000000000 demo_server)))))) pk demo_alias"
proof -
  let ?g = "sh_GetByAlias demo_sh demo_alias (snd (sh_PutByAlias demo_sh ''7'' demo_alias ''x'' 1000000000 demo_server))"
  have r: "fst ?g = Inr ''x''" "rs_now (snd ?g) = 4" by code_simp+
  have g: "?g = (Inr ''x'', snd ?g)" by (rule prod_eqI) (simp_all add: r)
  show ?thesis using sharded_read_validated [OF ref_client.redis_calls_axioms _ g] by (auto simp: r)
qed

text \<open>C9: Evicting a sharded record never takes a pointer that leads to another record, whenever that came
  about.  If other clients see to it that the pointer leads to another record from the instant \<open>T\<close> on,
  before the eviction or between any two of its round trips, then at its end the pointer is there, unless
  \<open>T\<close> is still to come.  It is the comparison inside \<open>pointer_cdel.lua\<close>, at the instant of the deletion,
  that gives this.\<close>

theorem sharded_evict_keeps:
  assumes "redis_calls R content now conn arrive" "sh_conn o1 = conn"
    and "k = PointerKey (sh_ns o1) f v True" "q \<noteq> primary"
    and "others_hold content now arrive k (RStr q d) (now s) T" "T \<le> now s \<Longrightarrow> content s k = Some (RStr q d)"
    and "sh_EvictByPrimary o1 primary s = (e, s')" "T \<le> now s'"
  shows "content s' k = Some (RStr q d)"
proof -
  have "redis_calls.held content now k (RStr q d) (now s) T s"
    using assms(6) by (simp add: redis_calls.held_def [OF assms(1)])
  from redis_calls.sh_evict_keeps [OF assms(1,5) this assms(4,2)] assms(3,7,8) show ?thesis
    by (auto simp: redis_calls.held_def [OF assms(1)])
qed

text \<open>The pointer is stolen after the record has gone and before the eviction comes for the pointer.\<close>

theorem sharded_evict_keeps_witness:
  "let k = PointerKey ''user'' ''email'' ''a'' True;
       s = snd (sh_PutByAlias demo_sh ''7'' demo_alias ''x'' 0 demo_server);
       thief = rs_conn_by (rs_thief k (RStr ''8'' None) 4)
   in rs_content s k = Some (RStr ''7'' None) \<and> rs_now s < 4 \<and>
     rs_content (snd (sh_EvictByPrimary (sh_of thief ''user'') ''7'' s)) k = Some (RStr ''8'' None)"
proof -
  let ?k = "PointerKey ''user'' ''email'' ''a'' True"
  let ?s = "snd (sh_PutByAlias demo_sh ''7'' demo_alias ''x'' 0 demo_server)"
  let ?o = "sh_of (rs_conn_by (rs_thief ?k (RStr ''8'' None) 4)) ''user''"
  have s: "rs_content ?s ?k = Some (RStr ''7'' None)" "rs_now ?s = 2" "rs_now (snd (sh_EvictByPrimary ?o ''7'' ?s)) = 4"
    by code_simp+
  have o: "sh_conn ?o = rs_conn_by (rs_thief ?k (RStr ''8'' None) 4)" "?k = PointerKey (sh_ns ?o) ''email'' ''a'' True"
    "''8'' \<noteq> ''7''" by simp_all
  have "rs_content (snd (sh_EvictByPrimary ?o ''7'' ?s)) ?k = Some (RStr ''8'' None)"
    by (rule sharded_evict_keeps [OF rs_thief_calls o rs_thief_holds _ prod.collapse [symmetric]]) (simp_all add: s)
  then show ?thesis by (simp add: s Let_def)
qed

text \<open>C11: In every run of a sharded group, prefix eviction included, each key holds what its family holds and each
  members hash expires with its value; so no operation of the group ever fails, and a read answers a
  value or a miss.  (Prefixes and the namespace are valid UTF-8, and the server's keys are finite.)\<close>

theorem sharded_bookkeeping:
  assumes "redis_prefix R content now conn arrive glob ScanKeys" "sh_conn o1 = conn"
    and "\<And>s. finite (dom (content s))" "valid_utf8 (sh_ns o1)" "valid_utf8 p"
    and "sh_group_run content now o1 s s'" "sh_inv (sh_ns o1) (live (now s) (content s))"
  shows "sh_inv (sh_ns o1) (live (now s') (content s')) \<and>
    fst (sh_PutValue o1 pk b ttl s') = None \<and> fst (sh_PutByAlias o1 pk ref b ttl s') = None \<and>
    fst (sh_EvictByPrimary o1 pk s') = None \<and> fst (sh_EvictByAlias o1 ref s') = None \<and>
    snd (fst (sh_EvictByPrimaryPrefix o1 p s')) = None \<and>
    fst (sh_GetValue o1 pk s') \<in> insert (Inl ErrStoreMiss) (range Inr) \<and>
    fst (sh_GetByAlias o1 ref s') \<in> insert (Inl ErrStoreMiss) (range Inr)"
proof -
  have ok: "sh_ok content now (sh_ns o1) s'"
    using redis_prefix.sh_group_run_ok [OF assms(1,6,3,4,2)] assms(7) by (simp add: sh_ok_def)
  have rc: "redis_client R content now conn arrive" by (rule redis_prefix.axioms(1) [OF assms(1)])
  note t = sh_inv_typed [OF redis_client.sh_ok_arrive [OF rc ok]]
  note redis_client.sh_EvictByPrimary_result [OF rc t assms(2), of pk, THEN conjunct1]
    redis_client.sh_EvictByAlias_result [OF rc ok assms(2), of ref, THEN conjunct1]
    redis_client.sh_PutValue_result [OF rc t assms(2), of pk b ttl, THEN conjunct1]
    redis_client.sh_PutByAlias_result [OF rc t assms(2), of pk ref b ttl, THEN conjunct1]
    redis_prefix.sh_ok_evict_prefix(2) [OF assms(1,3,4,5) ok assms(2)]
    redis_client.sh_GetValue_result(1) [OF rc t assms(2), of pk]
    redis_client.sh_GetByAlias_answers [OF rc t assms(2), of ref]
  then show ?thesis using ok by (simp add: sh_ok_def)
qed

theorem sharded_bookkeeping_witness:
  "fst (sh_EvictByAlias demo_sh demo_alias (snd (sh_PutByAlias demo_sh ''7'' demo_alias ''x'' (-1) demo_server))) = None"
proof -
  let ?s = "snd (sh_PutByAlias demo_sh ''7'' demo_alias ''x'' (-1) demo_server)"
  have "sh_group_step rs_content rs_now demo_sh demo_server ?s" by (rule sg_step [OF sh_put_alias])
  then have r: "sh_group_run rs_content rs_now demo_sh demo_server ?s" by simp
  have i: "sh_inv (sh_ns demo_sh) (live (rs_now demo_server) (rs_content demo_server))"
    using demo_group_content(2) [of "''user''"] by (simp add: sh_ok_def)
  have v: "valid_utf8 (sh_ns demo_sh)" "valid_utf8 ''7''" by (auto intro!: valid_utf8_ascii)
  show ?thesis
    using sharded_bookkeeping [OF ref_prefix.redis_prefix_axioms _ rs_content_finite v r i, where ref = demo_alias] by simp
qed

text \<open>C10: A sharded alias write is read back.  After \<open>PutByAlias\<close> with a TTL of at least a millisecond, and
  anything on other keys, a read by the alias that ends by the record's deadline returns the value, whether
  or not the write replaced an alias.  A read by an alias of the same field whose pointer still leads to the
  record, as that of a replaced alias does, misses.\<close>

theorem sharded_put_get:
  assumes "redis_client R content now conn arrive" "sh_conn o1 = conn" "sh_ok content now (sh_ns o1) s"
    and "Field ref \<noteq> ''''" "1000000 \<le> ttl" "sh_PutByAlias o1 pk ref b ttl s = (e, s1)"
    and "sh_others content now (sh_ns o1) s1 s2"
  shows "(now (snd (sh_GetByAlias o1 ref s2)) \<le> now (arrive s) + Milliseconds ttl \<longrightarrow>
      fst (sh_GetByAlias o1 ref s2) = Inr b) \<and>
    (Field old = Field ref \<longrightarrow> old \<noteq> ref \<longrightarrow>
      sh_pointer (sh_ns o1) (live (now (arrive s2)) (content s2)) old = Some pk \<longrightarrow>
      fst (sh_GetByAlias o1 old s2) = Inl ErrStoreMiss)"
  using redis_client.sh_put_get [OF assms(1-7)] by simp

theorem sharded_put_get_witness:
  "fst (sh_GetByAlias demo_sh demo_alias (snd (sh_PutByAlias demo_sh ''7'' demo_alias ''x'' 1000000000 demo_server))) = Inr ''x'' \<and>
   (let s1 = snd (sh_PutByAlias demo_sh ''7'' \<lparr>Field = ''email'', Value = ''b''\<rparr> ''y'' 1000000000
       (snd (sh_PutByAlias demo_sh ''7'' demo_alias ''x'' 1000000000 demo_server)))
    in fst (sh_GetByAlias demo_sh \<lparr>Field = ''email'', Value = ''b''\<rparr> s1) = Inr ''y'' \<and>
       fst (sh_GetByAlias demo_sh demo_alias s1) = Inl ErrStoreMiss)"
proof -
  let ?r = "\<lparr>Field = ''email'', Value = ''b''\<rparr>"
  let ?s = "snd (sh_PutByAlias demo_sh ''7'' demo_alias ''x'' 1000000000 demo_server)"
  let ?s1 = "snd (sh_PutByAlias demo_sh ''7'' ?r ''y'' 1000000000 ?s)"
  have ok0: "sh_ok rs_content rs_now (sh_ns demo_sh) demo_server" by simp
  have ok: "sh_ok rs_content rs_now (sh_ns demo_sh) ?s"
    by (rule ref_client.sh_step_ok [OF sh_put_alias]) simp_all
  have o: "sh_others rs_content rs_now (sh_ns demo_sh) s s" for s by (simp add: sh_others_def)
  have t: "rs_now (snd (sh_GetByAlias demo_sh demo_alias ?s)) \<le> rs_now (rs_arrive demo_server) + Milliseconds 1000000000"
    "rs_now (snd (sh_GetByAlias demo_sh ?r ?s1)) \<le> rs_now (rs_arrive ?s) + Milliseconds 1000000000"
    "sh_pointer (sh_ns demo_sh) (live (rs_now (rs_arrive ?s1)) (rs_content ?s1)) demo_alias = Some ''7''" by code_simp+
  have c: "sh_conn demo_sh = rs_conn" by simp
  note p = sharded_put_get [OF ref_client.redis_client_axioms c _ _ _ prod.collapse [symmetric] o]
  have "fst (sh_GetByAlias demo_sh demo_alias ?s) = Inr ''x''"
    using p [OF ok0, of demo_alias 1000000000] t(1) by simp
  moreover have "fst (sh_GetByAlias demo_sh ?r ?s1) = Inr ''y'' \<and> fst (sh_GetByAlias demo_sh demo_alias ?s1) = Inl ErrStoreMiss"
    using p [OF ok, of ?r 1000000000] t(2,3) by simp
  ultimately show ?thesis by (simp add: Let_def)
qed

subsection \<open>Scanning and prefix eviction\<close>

text \<open>C12: The \<open>SCAN\<close> loop ends, and misses nothing.  On a server that keeps the documented guarantee of
  \<open>SCAN\<close> for a single call sequence, with finitely many keys and a callback that adds none, \<open>scanNode\<close>
  returns; its calls of the callback get only matching keys, and if it returns no error then every
  matching key that was there throughout was among them.\<close>

theorem scanNode_terminates:
  assumes "redis_scan glob content now Scan" "no_new_keys content fn" "finite (dom (content s))"
  shows "\<exists>r w ps. scanNode (at_node Scan) m fn 0 (v, s) = Some (r, w) \<and>
    scan_calls content now fn (v, s) ps r w \<and> (\<forall>(s', ks) \<in> set ps. \<forall>k \<in> set ks. glob m k \<and> content s' k \<noteq> None) \<and>
    (r = None \<longrightarrow> (\<forall>k. glob m k \<longrightarrow> all_returned content now ps k))"
  by (rule redis_scan.scanNode_spec [OF assms])

theorem scanNode_terminates_witness:
  "\<exists>r w. scanNode (at_node rs_Scan) ''*'' (delete_batch rs_conn) 0
     (no_vars, snd (redis_Set rs_conn ''k'' ''x'' 0 demo_server)) = Some (r, w)"
  using scanNode_terminates [OF ref_scan.redis_scan_axioms ref_client.delete_batch_no_new_keys rs_content_finite,
    of "''*''" no_vars "snd (redis_Set rs_conn ''k'' ''x'' 0 demo_server)"] by blast

text \<open>C16: The pattern that is scanned for selects exactly the keys it stands for: special characters in a
  prefix, a namespace or a suffix are matched literally (for valid UTF-8).\<close>

theorem scan_pattern_exact:
  assumes "glob_syntax glob" "valid_utf8 (Prefix m)" "valid_utf8 (Suffix m)" "valid_utf8 p"
  shows "(glob (matchPattern m) k \<longleftrightarrow> Match_Contains m k) \<and> (glob (globLiteral p @ ''*'') k \<longleftrightarrow> prefix p k)"
  using glob_syntax.glob_match [OF assms(1-3)] glob_syntax.glob_prefix [OF assms(1,4)] by simp

theorem scan_pattern_exact_witness:
  "\<not> ref_glob (matchPattern \<lparr>Prefix = ''a*'', Suffix = ''z''\<rparr>) ''abz'' \<and> ref_glob (globLiteral ''a*'' @ ''*'') ''a*b''"
proof -
  let ?m = "\<lparr>Prefix = ''a*'', Suffix = ''z''\<rparr>"
  have v: "valid_utf8 (Prefix ?m)" "valid_utf8 (Suffix ?m)" "valid_utf8 ''a*''" by (auto intro!: valid_utf8_ascii)
  have "\<not> Match_Contains ?m ''abz''" by code_simp
  then show ?thesis
    using scan_pattern_exact [OF ref_glob.glob_syntax_axioms v, of "''abz''"]
      scan_pattern_exact [OF ref_glob.glob_syntax_axioms v, of "''a*b''"] by (simp add: prefix_def)
qed

text \<open>C13: \<open>DeleteByPrefix\<close> on Redis never fails on a connection that does not, leaves no live key with the
  prefix and touches no other key; it counts the keys with the prefix that were there to the end, and of
  those that expired meanwhile some.\<close>

theorem redis_delete_by_prefix:
  assumes "redis_prefix R content now conn arrive glob ScanKeys" "finite (dom (content s))" "valid_utf8 p"
    and "redis_DeleteByPrefix conn p s = ((n, err), s')"
  shows "err = None \<and> (\<forall>k. prefix p k \<longrightarrow> live (now s') (content s') k = None) \<and>
    (\<forall>k. \<not> prefix p k \<longrightarrow> content s' k = content s k) \<and>
    int (card {k. prefix p k \<and> live (now s') (content s) k \<noteq> None}) \<le> n \<and>
    n \<le> int (card {k. prefix p k \<and> live (now s) (content s) k \<noteq> None})"
  using redis_prefix.DeleteByPrefix_result [OF assms] by simp

theorem redis_delete_by_prefix_witness:
  "rs_live (snd (redis_DeleteByPrefix rs_conn ''a*'' (snd (redis_Set rs_conn ''a*b'' ''x'' 0 demo_server)))) ''a*b'' = None"
proof -
  let ?s = "snd (redis_Set rs_conn ''a*b'' ''x'' 0 demo_server)"
  obtain n err s' where d: "redis_DeleteByPrefix rs_conn ''a*'' ?s = ((n, err), s')" by (metis prod.collapse)
  have v: "valid_utf8 ''a*''" by (auto intro!: valid_utf8_ascii)
  show ?thesis
    using redis_delete_by_prefix [OF ref_prefix.redis_prefix_axioms rs_content_finite v d] by (simp add: d rs_live_def prefix_def)
qed

text \<open>C14: \<open>EvictByPrimaryPrefix\<close> of a colocated group evicts the records whose primary has the prefix, with
  their members hashes and pointers, and leaves everything else of the group as it was.  It counts at
  least the records that were there to the end.\<close>

theorem colocated_evict_prefix:
  assumes "redis_prefix R content now conn arrive glob ScanKeys" "finite (dom (content s))"
    and "valid_utf8 (co_ns o1)" "valid_utf8 p" "co_ok content now (co_ns o1) s" "co_conn o1 = conn"
    and "co_EvictByPrimaryPrefix o1 p s = ((n, err), s')"
  shows "err = None \<and>
    co_without (co_ns o1) {pk. prefix p pk} (live (now s') (content s)) (live (now s') (content s')) \<and>
    int (card {pk. prefix p pk \<and> live (now s') (content s) (ValueKey (co_ns o1) pk False) \<noteq> None}) \<le> n \<and>
    n \<le> int (card {pk. prefix p pk \<and> (content s (ValueKey (co_ns o1) pk False) \<noteq> None \<or>
      content s (MembersKey (co_ns o1) pk False) \<noteq> None)})"
  using redis_prefix.co_EvictByPrimaryPrefix_result [OF assms] by simp

theorem colocated_evict_prefix_witness:
  "snd (fst (co_EvictByPrimaryPrefix demo_co ''7'' (snd (co_PutByAlias demo_co ''71'' demo_alias ''x'' 0 demo_server)))) = None"
proof -
  let ?s = "snd (co_PutByAlias demo_co ''71'' demo_alias ''x'' 0 demo_server)"
  have "co_step rs_content rs_now demo_co demo_server ?s" by (rule co_put_alias) simp
  then have ok: "co_ok rs_content rs_now (co_ns demo_co) ?s" by (rule ref_client.co_step_ok) simp_all
  obtain n err s' where d: "co_EvictByPrimaryPrefix demo_co ''7'' ?s = ((n, err), s')" by (metis prod.collapse)
  have v: "valid_utf8 (co_ns demo_co)" "valid_utf8 ''7''" by (auto intro!: valid_utf8_ascii)
  show ?thesis
    using colocated_evict_prefix [OF ref_prefix.redis_prefix_axioms rs_content_finite v ok _ d] by (simp add: d)
qed

text \<open>C15: \<open>EvictByPrimaryPrefix\<close> of a sharded group evicts value and members hash of exactly the records whose
  primary has the prefix; of the pointers it takes only such as led to one of them.\<close>

theorem sharded_evict_prefix:
  assumes "redis_prefix R content now conn arrive glob ScanKeys" "finite (dom (content s))"
    and "valid_utf8 (sh_ns o1)" "valid_utf8 p" "sh_ok content now (sh_ns o1) s" "sh_conn o1 = conn"
    and "sh_EvictByPrimaryPrefix o1 p s = ((n, err), s')"
  shows "err = None \<and>
    sh_without (sh_ns o1) {pk. prefix p pk} (live (now s') (content s)) (live (now s') (content s')) \<and>
    int (card {pk. prefix p pk \<and> live (now s') (content s) (ValueKey (sh_ns o1) pk True) \<noteq> None}) \<le> n \<and>
    n \<le> int (card {pk. prefix p pk \<and> (content s (ValueKey (sh_ns o1) pk True) \<noteq> None \<or>
      content s (MembersKey (sh_ns o1) pk True) \<noteq> None)})"
  using redis_prefix.sh_EvictByPrimaryPrefix_result [OF assms] by simp

theorem sharded_evict_prefix_witness:
  "snd (fst (sh_EvictByPrimaryPrefix demo_sh ''7'' (snd (sh_PutByAlias demo_sh ''71'' demo_alias ''x'' 0 demo_server)))) = None"
proof -
  let ?s = "snd (sh_PutByAlias demo_sh ''71'' demo_alias ''x'' 0 demo_server)"
  have "sh_step rs_content rs_now demo_sh demo_server ?s" by (rule sh_put_alias)
  then have ok: "sh_ok rs_content rs_now (sh_ns demo_sh) ?s" by (rule ref_client.sh_step_ok) simp_all
  obtain n err s' where d: "sh_EvictByPrimaryPrefix demo_sh ''7'' ?s = ((n, err), s')" by (metis prod.collapse)
  have v: "valid_utf8 (sh_ns demo_sh)" "valid_utf8 ''7''" by (auto intro!: valid_utf8_ascii)
  show ?thesis
    using sharded_evict_prefix [OF ref_prefix.redis_prefix_axioms rs_content_finite v ok _ d] by (simp add: d)
qed

end
