(* ===== verification/Group_Props.thy ===== *)
theory Group_Props
  imports Alias_Props Redis_Props
begin

text \<open>
  Alias groups whatever the store: the memory store simulates the alias table, and as long as nothing
  lapses no client can tell it from a colocated group on Redis.
\<close>

text \<open>C6: Every sequence of calls on an alias group in memory, with the answers they get and anything on other
  keys in between, is one of the alias table, in which a record's value lapses alone: its aliases stay
  and lead to the next value that is written under the same primary key.\<close>

theorem memory_simulates:
  assumes "alias_consistent m s" "mem_trace m s tr s'"
  shows "lapse_trace table_valueless (mem_table m (mem_now s) s) tr (mem_table m (mem_now s') s')"
  by (rule mem_group.trace_simulated [OF assms(2,1)])

lemma demo_mem_trace:
  "\<exists>s'. mem_trace demo_handle (w_store demo_world)
     [(CPutAlias ''7'' demo_alias ''x'' 1000000000, Inr None), (CGetAlias demo_alias, Inr (Some ''x''))] s' \<and>
     mem_now s' \<le> 9"
proof -
  let ?p = "mem_call demo_handle (CPutAlias ''7'' demo_alias ''x'' 1000000000) (w_store demo_world)"
  let ?g = "mem_call demo_handle (CGetAlias demo_alias) (snd ?p)"
  have "fst ?p = Inr None" "fst ?g = Inr (Some ''x'')" "mem_now (snd ?g) \<le> 9" by code_simp+
  then have c: "?p = (Inr None, snd ?p)" "?g = (Inr (Some ''x''), snd ?g)" and n: "mem_now (snd ?g) \<le> 9"
    by (simp_all add: prod_eq_iff)
  have pl: "plain_call (CPutAlias ''7'' demo_alias ''x'' 1000000000)" "plain_call (CGetAlias demo_alias)"
    by (simp_all add: plain_field_def)
  note g = g_call [where call = "mem_call demo_handle" and others = "others_alias demo_handle"]
  from g [OF pl(1) c(1) g [OF pl(2) c(2) g_done]] n show ?thesis by blast
qed

theorem memory_simulates_witness:
  "\<exists>T. lapse_trace table_valueless (mem_table demo_handle 0 (w_store demo_world))
     [(CPutAlias ''7'' demo_alias ''x'' 1000000000, Inr None), (CGetAlias demo_alias, Inr (Some ''x''))] T"
proof -
  have "alias_consistent demo_handle (w_store demo_world)" by (simp add: alias_consistent_empty)
  from memory_simulates [OF this] demo_mem_trace show ?thesis by fastforce
qed

text \<open>C5: The stores agree.  A group in memory and a colocated group on Redis, both empty at first: if the same
  calls are made on both, whatever happens to other keys in between, and the records that they write
  outlive the sequence, then every call gets the same answer from both, and the same values and
  aliases are left.  (Alias fields are not empty and free of colons.)\<close>

theorem stores_agree:
  assumes "redis_client R content now conn arrive" "co_conn o1 = conn"
    and "mem_inv ms" "mem_group_empty m ms" "co_group_empty content (co_ns o1) rs"
    and "mem_trace m ms tr ms'" "co_trace content now o1 rs tr' rs'" "map fst tr = map fst tr'"
    and "\<And>c. c \<in> set (map fst tr) \<Longrightarrow> outlasts d c"
    and "mem_now ms' - mem_now ms \<le> d" "now rs' - now rs \<le> d div 1000000"
  shows "tr = tr' \<and> mem_table m (mem_now ms') ms' = table_at content now o1 rs' rs'"
proof -
  note mem = mem_trace_answers [OF assms(6,3,4,10,9)]
  note redis = redis_client.co_trace_answers_empty [OF assms(1,7,2,5,11) assms(9) [unfolded assms(8)]]
  from mem redis have "map snd tr = map snd tr'" "mem_table m (mem_now ms') ms' = table_at content now o1 rs' rs'"
    by (simp_all add: assms(8))
  moreover from this(1) assms(8) have "tr = tr'" by (metis zip_map_fst_snd)
  ultimately show ?thesis by simp
qed

theorem stores_agree_witness:
  "\<exists>ms' rs'. mem_table demo_handle (mem_now ms') ms' = table_at rs_content rs_now demo_co rs' rs' \<and>
     co_trace rs_content rs_now demo_co demo_server
       [(CPutAlias ''7'' demo_alias ''x'' 1000000000, Inr None), (CGetAlias demo_alias, Inr (Some ''x''))] rs'"
proof -
  let ?tr = "[(CPutAlias ''7'' demo_alias ''x'' 1000000000, Inr None), (CGetAlias demo_alias, Inr (Some ''x''))]"
  obtain ms' where m: "mem_trace demo_handle (w_store demo_world) ?tr ms'" "mem_now ms' \<le> 9" using demo_mem_trace by blast
  obtain rs' where r: "co_trace rs_content rs_now demo_co demo_server ?tr rs'" "rs_now rs' \<le> 9" using demo_co_trace by blast
  have e: "mem_group_empty demo_handle (w_store demo_world)" "co_group_empty rs_content (co_ns demo_co) demo_server"
    by (simp_all add: mem_group_empty_def co_group_empty_def)
  have o: "\<And>c. c \<in> set (map fst ?tr) \<Longrightarrow> outlasts 1000000000 c" by auto
  have t: "rs_now demo_server = 0" by code_simp
  have n: "mem_now ms' - mem_now (w_store demo_world) \<le> 1000000000" "rs_now rs' - rs_now demo_server \<le> 1000000000 div 1000000"
    using m(2) r(2) t by simp_all
  have c: "co_conn demo_co = rs_conn" "mem_inv (w_store demo_world)" by simp_all
  from stores_agree [OF ref_client.redis_client_axioms c e m(1) r(1) refl o n] r(1) show ?thesis by blast
qed

end
