(* ===== verification/Examples.thy ===== *)
theory Examples
  imports Mem_Alias Redis_Store Manager
begin

text \<open>
  The two programs of \<open>examples/\<close>: \<open>memstore/main.go\<close> and \<open>redisstore/main.go\<close> put the library to work
  from end to end and print what it does.  They differ in the store and in their texts only, so a step
  takes its texts as arguments.  The application's part of the world is what the programs have printed
  and the counter that the batch loader of step 7 increments; a panic ends a program.
\<close>

subsection \<open>The application\<close>

record User =
  u_ID :: string
  u_Name :: string

record example_app =
  stdout :: string
  loadManyCalls :: nat

type_synonym 's example_world = "('s, example_app) world"
type_synonym 's action = "(unit go, 's example_world) op"

text \<open>The dash of the texts, in UTF-8.\<close>

definition em_dash :: string where "em_dash = [CHR 0xE2, CHR 0x80, CHR 0x94]"

definition app_print :: "string \<Rightarrow> example_app \<Rightarrow> example_app" where
  "app_print t a = a\<lparr>stdout := stdout a @ t\<rparr>"

text \<open>\<open>fmt.Printf\<close> with its text already formatted, a run of \<open>fmt.Println\<close>, and the verbs that the programs use.\<close>

definition Printf :: "string \<Rightarrow> 's action" where
  "Printf t w = (Ret (), w\<lparr>w_app := app_print t (w_app w)\<rparr>)"

definition Printlns :: "string list \<Rightarrow> 's action" where
  "Printlns ls = Printf (concat (map (\<lambda>l. l @ newline) ls))"

definition fmt_user :: "User \<Rightarrow> string" where
  "fmt_user u = ''{ID:'' @ u_ID u @ '' Name:'' @ u_Name u @ ''}''"

definition fmt_bool :: "bool \<Rightarrow> string" where
  "fmt_bool b = (if b then ''true'' else ''false'')"

fun join_spaces :: "string list \<Rightarrow> string" where
  "join_spaces [] = ''''"
| "join_spaces [s] = s"
| "join_spaces (s # ss) = s @ '' '' @ join_spaces ss"

definition fmt_strings :: "string list \<Rightarrow> string" where
  "fmt_strings ss = ''['' @ join_spaces ss @ '']''"

definition fmt_error :: "error option \<Rightarrow> string" where
  "fmt_error err = (case err of None \<Rightarrow> ''<nil>'' | Some e \<Rightarrow> error_Error e)"

subsection \<open>Actions\<close>

text \<open>Statements in sequence, up to the first that panics.\<close>

fun run_all :: "'s action list \<Rightarrow> 's action" where
  "run_all [] w = (Ret (), w)"
| "run_all (a # as) w = (case a w of (Panic msg, w1) \<Rightarrow> (Panic msg, w1) | (Ret _, w1) \<Rightarrow> run_all as w1)"

definition must :: "error option \<Rightarrow> 's action" where
  "must err w = (case err of None \<Rightarrow> (Ret (), w) | Some e \<Rightarrow> (Panic (error_Error e), w))"

definition must_do :: "(error option, 's example_world) op \<Rightarrow> 's action" where
  "must_do f w = (let (err, w1) = f w in must err w1)"

definition nil_deref :: string where
  "nil_deref = ''invalid memory address or nil pointer dereference''"

text \<open>The source of truth.\<close>

definition loadUserFromDB :: "string \<Rightarrow> (User, example_app) loader" where
  "loadUserFromDB i a =
     (let a1 = app_print (''  [DB] loading '' @ i @ ''...'' @ newline) a in
      if i = ''u_1'' then ((Some \<lparr>u_ID = ''u_1'', u_Name = ''Ada Lovelace''\<rparr>, None), a1)
      else if i = ''u_2'' then ((Some \<lparr>u_ID = ''u_2'', u_Name = ''Grace Hopper''\<rparr>, None), a1)
      else if i = ''u_5'' then ((Some \<lparr>u_ID = ''u_5'', u_Name = ''Margaret Hamilton''\<rparr>, None), a1)
      else ((None, Some ErrNotFound), a1))"

text \<open>The loader that steps 1, 2, 4, 5 and 6 all pass.\<close>

definition example_loader :: "(User, example_app) loader" where
  "example_loader = loadUserFromDB ''u_1''"

text \<open>A call of \<open>GetByKey\<close> and what follows it.\<close>

definition call_get ::
  "(User, 's, example_app) Cache \<Rightarrow> string \<Rightarrow> (User, example_app) loader \<Rightarrow>
     (User option \<Rightarrow> Outcome \<Rightarrow> error option \<Rightarrow> 's action) \<Rightarrow> 's action" where
  "call_get users key loader cont w =
     (case GetByKey users key loader w of
        (Panic msg, w1) \<Rightarrow> (Panic msg, w1)
      | (Ret (user, out, err), w1) \<Rightarrow> cont user out err w1)"

definition show_outcome :: "Outcome \<Rightarrow> string \<Rightarrow> 's action" where
  "show_outcome out note = Printf (''Outcome: '' @ Outcome_String out @ ''  '' @ note @ newline @ newline)"

definition show_user :: "User option \<Rightarrow> 's action" where
  "show_user user w =
     (case user of
        None \<Rightarrow> (Panic nil_deref, w)
      | Some u \<Rightarrow> Printf (''Result: '' @ fmt_user u @ newline) w)"

definition read_and_show :: "(User, 's, example_app) Cache \<Rightarrow> string \<Rightarrow> string \<Rightarrow> 's action" where
  "read_and_show users key note =
     call_get users key example_loader
       (\<lambda>user out err. run_all [must err, show_user user, show_outcome out note])"

subsection \<open>The steps\<close>

definition step_read :: "string list \<Rightarrow> string \<Rightarrow> (User, 's, example_app) Cache \<Rightarrow> 's action" where
  "step_read title note users = run_all [Printlns title, read_and_show users ''u_1'' note]"

definition step_absent :: "string list \<Rightarrow> string \<Rightarrow> (User, 's, example_app) Cache \<Rightarrow> 's action" where
  "step_absent title note users =
     run_all [Printlns title,
       call_get users ''u_404'' (loadUserFromDB ''u_404'')
         (\<lambda>_ out err. run_all [
            Printf (''Result: err='' @ fmt_error err @ newline),
            Printf (''Outcome: '' @ Outcome_String out @ ''  '' @ note @ newline),
            Printf (''Caller check: errors.Is(err, smartcache.ErrNotFound) = '' @
              fmt_bool (errors_Is err ErrNotFound) @ newline @ newline)])]"

definition step_put_value :: "string list \<Rightarrow> string \<Rightarrow> (User, 's, example_app) Cache \<Rightarrow> 's action" where
  "step_put_value title note users =
     run_all [Printlns title,
       must_do (PutValueByKey users ''u_2'' (Some \<lparr>u_ID = ''u_2'', u_Name = ''Grace Hopper''\<rparr>)),
       read_and_show users ''u_2'' note]"

definition example_newUser :: User where
  "example_newUser = \<lparr>u_ID = ''u_3'', u_Name = ''Katherine Johnson''\<rparr>"

definition example_writer :: "(User, example_app) loader" where
  "example_writer a = ((Some example_newUser, None), app_print (''  [DB] writing '' @ u_ID example_newUser @ ''...'' @ newline) a)"

definition step_put :: "string list \<Rightarrow> string \<Rightarrow> string \<Rightarrow> (User, 's, example_app) Cache \<Rightarrow> 's action" where
  "step_put title note1 note2 users =
     run_all [Printlns title,
       (\<lambda>w. case PutByKey users ''u_3'' example_writer w of
          ((_, out, err), w1) \<Rightarrow> run_all [must err, show_outcome out note1] w1),
       read_and_show users ''u_3'' note2]"

definition step_evict :: "string list \<Rightarrow> string \<Rightarrow> (User, 's, example_app) Cache \<Rightarrow> 's action" where
  "step_evict title note users =
     run_all [Printlns title, must_do (EvictByKey users ''u_1''), read_and_show users ''u_1'' note]"

text \<open>The batch loader.\<close>

fun load_all :: "string list \<Rightarrow> User option gomap \<Rightarrow> (User option gomap, example_app) op" where
  "load_all [] out a = (out, a)"
| "load_all (i # missing) out a =
     (case loadUserFromDB i a of
        ((u, lErr), a1) \<Rightarrow> load_all missing (if lErr = None then fmupd i u out else out) a1)"

definition batch_loader :: "string list \<Rightarrow> (User option gomap \<times> error option, example_app) op" where
  "batch_loader missing a =
     (let a1 = a\<lparr>loadManyCalls := loadManyCalls a + 1\<rparr>;
          (out, a2) = load_all missing fmempty (app_print (''  [DB] batch-loading '' @ fmt_strings missing @ ''...'' @ newline) a1)
      in ((out, None), a2))"

fun show_got :: "User gomap \<Rightarrow> string list \<Rightarrow> 's action list" where
  "show_got got [] = []"
| "show_got got (i # ids) =
     Printf (case fmlookup got i of
        Some u \<Rightarrow> ''  '' @ i @ '': '' @ fmt_user u @ newline
      | None \<Rightarrow> ''  '' @ i @ '': not found (omitted from the result)'' @ newline) # show_got got ids"

definition step_many :: "string list \<Rightarrow> string \<Rightarrow> (User, 's, example_app) Cache \<Rightarrow> 's action" where
  "step_many title note users =
     run_all [Printlns title,
       (\<lambda>w. (Ret (), w\<lparr>w_app := (w_app w)\<lparr>loadManyCalls := 0\<rparr>\<rparr>)),
       (\<lambda>w. case GetManyByKey users [''u_1'', ''u_5'', ''u_404''] batch_loader w of
          ((got, err), w1) \<Rightarrow> run_all (
            [must err,
             (\<lambda>w. Printf (''Batch loader calls: '' @ Sprintf_d (int (loadManyCalls (w_app w))) @ '' '' @ note @ newline) w)] @
            show_got (case got of None \<Rightarrow> fmempty | Some m \<Rightarrow> m) [''u_1'', ''u_5'', ''u_404''] @
            [Printf newline]) w1)]"

definition step_cleanup :: "string list \<Rightarrow> ('v, 's) Manager \<Rightarrow> (User, 's, example_app) Cache \<Rightarrow> 's action" where
  "step_cleanup title mgr users =
     run_all [Printlns title,
       must_do (EvictManyByKey users [''u_1'', ''u_2'', ''u_3'', ''u_5'', ''u_404'']),
       must (Shutdown mgr)]"

subsection \<open>The texts of the in-memory example\<close>

definition mem_title1 :: "string list" where
  "mem_title1 = [
     ''=== Step 1: First Get for \"u_1\" (the cache is empty) ==='',
     ''There is nothing under this key yet, so Get calls the loader you passed in '' @ em_dash,
     ''simulating a real database read. The loaded value is then written to the cache'',
     ''so the next lookup for the same key can skip the database entirely.'']"

definition mem_title2 :: "string list" where
  "mem_title2 = [
     ''=== Step 2: Second Get for \"u_1\" (same key, right after Step 1) ==='',
     ''The value is already cached, so the loader is NOT called '' @ em_dash @ '' notice there is no'',
     ''[DB] line below. This is the whole point of a read-through cache: repeat reads'',
     ''for a hot key stop touching the database at all.'']"

definition mem_title3 :: "string list" where
  "mem_title3 = [
     ''=== Step 3: Get for \"u_404\" (a user that does not exist) ==='',
     ''The loader reports \"not found\" for this id. Because EntityOptions.NegativeTTL was set'',
     ''to 30s, smartcache also remembers this \"not found\" result '' @ em_dash @ '' so repeated lookups'',
     ''of the same missing id (a common source of cache-penetration load) skip the'',
     ''database too, for as long as the negative entry stays valid.'']"

definition mem_title4 :: "string list" where
  "mem_title4 = [
     ''=== Step 4: PutValue \"u_2\" directly, without going through Get ==='',
     ''PutValue is for when you already hold the fresh value '' @ em_dash @ '' e.g. right after your own'',
     ''code just inserted it into the database '' @ em_dash @ '' and want to warm the cache immediately'',
     ''instead of waiting for the next Get to trigger a load.'']"

definition mem_title5 :: "string list" where
  "mem_title5 = [
     ''=== Step 5: Put \"u_3\" through a writer function (write-through) ==='',
     ''Put is for when the write itself should go through smartcache: it calls your'',
     ''writer function to persist the value to the source of truth, then caches exactly'',
     ''the value writer returned. Unlike Get's loader, writer is never deduplicated '' @ em_dash,
     ''every Put call performs its own write, since dropping a concurrent write would'',
     ''silently lose data.'']"

definition mem_title6 :: "string list" where
  "mem_title6 = [
     ''=== Step 6: Evict \"u_1\" (e.g. after updating the user elsewhere) ==='',
     ''Evict removes the cached entry right away '' @ em_dash @ '' this is smartcache's delete-on-write'',
     ''path, used after a write to your source of truth so stale data is never served.'',
     ''The next Get for this key is therefore a cold read again, just like Step 1.'']"

definition mem_title7 :: "string list" where
  "mem_title7 = [
     ''=== Step 7: GetMany for [\"u_1\", \"u_5\", \"u_404\"] (one cached hit, one cold miss, one not-found) ==='',
     ''GetMany batches a read-through lookup: cached keys are served without touching'',
     ''your database at all; every key that misses is loaded in ONE call to your batch'',
     ''loader (not one call per key), then each result is cached individually.'']"

definition mem_title8 :: "string list" where
  "mem_title8 = [
     ''=== Step 8: Cleanup ==='',
     ''Removing this example's keys from the cache so re-running it starts from a clean'',
     ''slate '' @ em_dash @ '' real applications rely on TTL expiry instead of doing this manually.'']"

definition mem_note1 :: string where
  "mem_note1 = ''(fetched from the source and cached for next time)''"

definition mem_note2 :: string where
  "mem_note2 = ''(served entirely from cache, no database round trip)''"

definition mem_note3 :: string where
  "mem_note3 = ''(this call reached the loader; a repeat within 30s would report NegativeHit instead)''"

definition mem_note4 :: string where
  "mem_note4 = ''(served from what PutValue stored; the loader above was never invoked)''"

definition mem_note5a :: string where
  "mem_note5a = ''(writer ran and the value it returned was cached)''"

definition mem_note5b :: string where
  "mem_note5b = ''(served from what Put cached; the loader above was never invoked)''"

definition mem_note6 :: string where
  "mem_note6 = ''(Evict forced this back to a cache miss)''"

definition mem_note7 :: string where
  "mem_note7 = ''(u_1 was already cached; u_5 and u_404 were loaded together in one call)''"

subsection \<open>The texts of the Redis example\<close>

definition redis_title1 :: "string list" where
  "redis_title1 = [
     ''=== Step 1: First Get for \"u_1\" (nothing in Redis under this key yet) ==='',
     ''The cache has no entry for this key, so Get calls the loader you passed in '' @ em_dash,
     ''simulating a real database read. The loaded value is then written to Redis, over'',
     ''the network, so the next lookup for the same key can skip the database entirely.'']"

definition redis_title2 :: "string list" where
  "redis_title2 = [
     ''=== Step 2: Second Get for \"u_1\" (same key, right after Step 1) ==='',
     ''The value is already sitting in Redis, so the loader is NOT called '' @ em_dash @ '' notice there'',
     ''is no [DB] line below. This round trip only talks to Redis, not your database.'']"

definition redis_title3 :: "string list" where
  "redis_title3 = [
     ''=== Step 3: Get for \"u_404\" (a user that does not exist) ==='',
     ''The loader reports \"not found\" for this id. Because EntityOptions.NegativeTTL was set'',
     ''to 30s, smartcache also writes this \"not found\" result to Redis '' @ em_dash @ '' so repeated'',
     ''lookups of the same missing id (a common source of cache-penetration load) skip'',
     ''the database too, for as long as the negative entry stays valid.'']"

definition redis_title4 :: "string list" where
  "redis_title4 = [
     ''=== Step 4: PutValue \"u_2\" directly, without going through Get ==='',
     ''PutValue is for when you already hold the fresh value '' @ em_dash @ '' e.g. right after your own'',
     ''code just inserted it into the database '' @ em_dash @ '' and want to warm Redis immediately'',
     ''instead of waiting for the next Get to trigger a load.'']"

definition redis_title5 :: "string list" where
  "redis_title5 = [
     ''=== Step 5: Put \"u_3\" through a writer function (write-through) ==='',
     ''Put is for when the write itself should go through smartcache: it calls your'',
     ''writer function to persist the value to the source of truth, then caches exactly'',
     ''the value writer returned. Unlike Get's loader, writer is never deduplicated '' @ em_dash,
     ''every Put call performs its own write, since dropping a concurrent write would'',
     ''silently lose data.'']"

definition redis_title6 :: "string list" where
  "redis_title6 = [
     ''=== Step 6: Evict \"u_1\" (e.g. after updating the user elsewhere) ==='',
     ''Evict deletes the entry from Redis right away '' @ em_dash @ '' this is smartcache's'',
     ''delete-on-write path, used after a write to your source of truth so stale data'',
     ''is never served. The next Get for this key is therefore a cold read again, just'',
     ''like Step 1.'']"

definition redis_title7 :: "string list" where
  "redis_title7 = [
     ''=== Step 7: GetMany for [\"u_1\", \"u_5\", \"u_404\"] (one cached hit, one cold miss, one not-found) ==='',
     ''GetMany batches a read-through lookup over a single Redis MGET: cached keys are'',
     ''served without touching your database at all; every key that misses Redis is'',
     ''loaded in ONE call to your batch loader (not one call per key), then each result'',
     ''is written back to Redis individually.'']"

definition redis_title8 :: "string list" where
  "redis_title8 = [
     ''=== Step 8: Cleanup ==='',
     ''Removing this example's keys from Redis so re-running it starts from a clean'',
     ''slate '' @ em_dash @ '' real applications rely on TTL expiry instead of doing this manually.'']"

definition redis_note1 :: string where
  "redis_note1 = ''(fetched from the source and written to Redis for next time)''"

definition redis_note2 :: string where
  "redis_note2 = ''(served entirely from Redis, no database round trip)''"

definition redis_note3 :: string where
  "redis_note3 = ''(this call reached the loader; a repeat within 30s would report NegativeHit instead)''"

definition redis_note4 :: string where
  "redis_note4 = ''(served from what PutValue stored; the loader above was never invoked)''"

definition redis_note5a :: string where
  "redis_note5a = ''(writer ran and the value it returned was cached in Redis)''"

definition redis_note5b :: string where
  "redis_note5b = ''(served from what Put cached; the loader above was never invoked)''"

definition redis_note6 :: string where
  "redis_note6 = ''(Evict forced this back to a cache miss)''"

definition redis_note7 :: string where
  "redis_note7 = ''(u_1 was already cached; u_5 and u_404 were loaded together in one call)''"

subsection \<open>The programs\<close>

definition user_type :: "User gotype" where
  "user_type = \<lparr>t_String = ''main.User'', t_pointer = False, t_CacheUniqueKey = None\<rparr>"

definition example_options :: "User EntityOptions" where
  "example_options = no_options\<lparr>eo_TTL := Some 3600000000000, eo_NegativeTTL := Some 30000000000\<rparr>"

definition mem_steps :: "(User, memstore) Manager \<Rightarrow> (User, memstore, example_app) Cache \<Rightarrow> memstore action" where
  "mem_steps mgr users =
     run_all [step_read mem_title1 mem_note1 users,
       step_read mem_title2 mem_note2 users,
       step_absent mem_title3 mem_note3 users,
       step_put_value mem_title4 mem_note4 users,
       step_put mem_title5 mem_note5a mem_note5b users,
       step_evict mem_title6 mem_note6 users,
       step_many mem_title7 mem_note7 users,
       step_cleanup mem_title8 mgr users]"

text \<open>\<open>memstore/main.go\<close>; \<open>clk\<close> and \<open>ord\<close> are the clock and the map order of the new store.\<close>

definition mem_main ::
  "User Codec \<Rightarrow> (User, memstore, example_app) flight_group \<Rightarrow> ('exp, 'rd) otel_sdk \<Rightarrow> clock \<Rightarrow> range_order \<Rightarrow>
     memstore action" where
  "mem_main json newGroup sdk clk ord w =
     (case NewManager sdk (Some mem_impl) [] of
        Inl err \<Rightarrow> (Panic (error_Error err), w)
      | Inr mgr \<Rightarrow>
          (case Register json newGroup user_type mgr ''user'' (Some example_options) of
             (Panic msg, mgr1) \<Rightarrow> (Panic msg, w)
           | (Ret (Inl err), mgr1) \<Rightarrow> (Panic (error_Error err), w)
           | (Ret (Inr users), mgr1) \<Rightarrow> mem_steps mgr1 users (w\<lparr>w_store := mem_New clk ord\<rparr>)))"

definition redis_steps :: "(User, 's) Manager \<Rightarrow> (User, 's, example_app) Cache \<Rightarrow> 's action" where
  "redis_steps mgr users =
     run_all [step_read redis_title1 redis_note1 users,
       step_read redis_title2 redis_note2 users,
       step_absent redis_title3 redis_note3 users,
       step_put_value redis_title4 redis_note4 users,
       step_put redis_title5 redis_note5a redis_note5b users,
       step_evict redis_title6 redis_note6 users,
       step_many redis_title7 redis_note7 users,
       step_cleanup redis_title8 mgr users]"

text \<open>
  \<open>redisstore/main.go\<close>.  The environment, the go-redis client and what the client does on \<open>Ping\<close> and
  \<open>Close\<close> are arguments; the result is the status the process exits with.
\<close>

record 's redis_lib =
  lib_NewClient :: "string \<Rightarrow> 's RedisConn"
  lib_Ping :: "(error option, 's) op"
  lib_Close :: "(error option, 's) op"

definition exit_status :: "unit go \<times> 'w \<Rightarrow> int go \<times> 'w" where
  "exit_status r = (case r of (Panic msg, w) \<Rightarrow> (Panic msg, w) | (Ret _, w) \<Rightarrow> (Ret 0, w))"

definition redis_main_steps ::
  "User Codec \<Rightarrow> (User, 's, example_app) flight_group \<Rightarrow> ('exp, 'rd) otel_sdk \<Rightarrow> 's RedisConn \<Rightarrow> 's action" where
  "redis_main_steps json newGroup sdk rdb w =
     (case NewManager sdk (Some (redis_New rdb)) [] of
        Inl err \<Rightarrow> (Panic (error_Error err), w)
      | Inr mgr \<Rightarrow>
          (case Register json newGroup user_type mgr ''smartcache-example:user'' (Some example_options) of
             (Panic msg, mgr1) \<Rightarrow> (Panic msg, w)
           | (Ret (Inl err), mgr1) \<Rightarrow> (Panic (error_Error err), w)
           | (Ret (Inr users), mgr1) \<Rightarrow> redis_steps mgr1 users w))"

definition redis_main ::
  "User Codec \<Rightarrow> (User, 's, example_app) flight_group \<Rightarrow> ('exp, 'rd) otel_sdk \<Rightarrow> (string \<Rightarrow> string) \<Rightarrow> 's redis_lib \<Rightarrow>
     (int go, 's example_world) op" where
  "redis_main json newGroup sdk os_Getenv lib w =
     (let addr = (if os_Getenv ''REDIS_ADDR'' = '''' then ''localhost:6379'' else os_Getenv ''REDIS_ADDR'');
          rdb = lib_NewClient lib addr;
          (err, w1) = on_store (lib_Ping lib) w
      in case err of
           Some e \<Rightarrow>
             (Ret 1, snd (run_all [
                Printf (''could not reach Redis at '' @ addr @ '': '' @ fmt_error err @ newline),
                Printlns [''start one with: docker run --rm -p 6379:6379 redis:7'']] w1))
         | None \<Rightarrow>
             (let (r, w2) = exit_status (redis_main_steps json newGroup sdk rdb w1)
              in (r, snd (on_store (lib_Close lib) w2))))"

end
