(* ===== verification/Example_Run.thy ===== *)
theory Example_Run
  imports Examples Cache_Run
begin

text \<open>
  What the steps of the example programs do on any store that keeps the contract of a cache.  \<open>runs\<close> is
  a triple: from a world whose readable entries are \<open>m\<close>, an action ends without a panic, prints the text
  \<open>t\<close> and leaves the entries \<open>m'\<close>, provided that no more time passes than the negative TTL leaves.
\<close>

subsection \<open>Printing\<close>

lemma app_print_sel [simp]:
  "stdout (app_print t a) = stdout a @ t" "loadManyCalls (app_print t a) = loadManyCalls a"
  by (simp_all add: app_print_def)

lemma Printf_simps [simp]:
  "fst (Printf t w) = Ret ()" "w_store (snd (Printf t w)) = w_store w" "w_app (snd (Printf t w)) = app_print t (w_app w)"
  "w_rand (snd (Printf t w)) = w_rand w" "w_range (snd (Printf t w)) = w_range w"
  by (simp_all add: Printf_def)

definition lines_text :: "string list \<Rightarrow> string" where
  "lines_text ls = concat (map (\<lambda>l. l @ newline) ls)"

lemma Printlns_text: "Printlns ls = Printf (lines_text ls)"
  by (simp add: Printlns_def lines_text_def)

lemma run_all_Cons:
  "run_all (a # as) w = (case fst (a w) of Panic msg \<Rightarrow> (Panic msg, snd (a w)) | Ret _ \<Rightarrow> run_all as (snd (a w)))"
  by (cases "a w") (simp split: go.splits)

lemma run_all_append:
  "run_all (as @ bs) w = (case run_all as w of (Panic msg, w1) \<Rightarrow> (Panic msg, w1) | (Ret _, w1) \<Rightarrow> run_all bs w1)"
  by (induction as arbitrary: w) (auto split: go.splits prod.splits)

lemma must_None [simp]: "must None = (\<lambda>w. (Ret (), w))"
  by (simp add: must_def fun_eq_iff)

lemma must_world [simp]: "snd (must err w) = w"
  by (simp add: must_def split: option.splits)

lemma show_user_Some [simp]: "show_user (Some u) = Printf (''Result: '' @ fmt_user u @ newline)"
  by (simp add: show_user_def fun_eq_iff)

declare run_all.simps(2) [simp del]

subsection \<open>The texts of the steps\<close>

definition shown :: "User \<Rightarrow> Outcome \<Rightarrow> string \<Rightarrow> string" where
  "shown u out note = ''Result: '' @ fmt_user u @ newline @ ''Outcome: '' @ Outcome_String out @ ''  '' @ note @ newline @ newline"

definition loading :: "string \<Rightarrow> string" where
  "loading i = ''  [DB] loading '' @ i @ ''...'' @ newline"

definition absent_text :: "string \<Rightarrow> string" where
  "absent_text note = ''Result: err=smartcache: not found'' @ newline @ ''Outcome: Loaded  '' @ note @ newline @
     ''Caller check: errors.Is(err, smartcache.ErrNotFound) = true'' @ newline @ newline"

definition written_text :: "string \<Rightarrow> string" where
  "written_text note = ''  [DB] writing u_3...'' @ newline @ ''Outcome: Written  '' @ note @ newline @ newline"

definition ada :: User where "ada = \<lparr>u_ID = ''u_1'', u_Name = ''Ada Lovelace''\<rparr>"
definition grace :: User where "grace = \<lparr>u_ID = ''u_2'', u_Name = ''Grace Hopper''\<rparr>"
definition margaret :: User where "margaret = \<lparr>u_ID = ''u_5'', u_Name = ''Margaret Hamilton''\<rparr>"

definition got_text :: "string \<Rightarrow> string" where
  "got_text note = ''Batch loader calls: 1 '' @ note @ newline @ ''  u_1: '' @ fmt_user ada @ newline @
     ''  u_5: '' @ fmt_user margaret @ newline @ ''  u_404: not found (omitted from the result)'' @ newline @ newline"

lemma loadUserFromDB_results:
  "loadUserFromDB ''u_1'' a = ((Some ada, None), app_print (loading ''u_1'') a)"
  "loadUserFromDB ''u_5'' a = ((Some margaret, None), app_print (loading ''u_5'') a)"
  "loadUserFromDB ''u_404'' a = ((None, Some ErrNotFound), app_print (loading ''u_404'') a)"
  by (simp_all add: loadUserFromDB_def loading_def ada_def margaret_def)

text \<open>The users that the programs store.\<close>

definition program_users :: "User set" where
  "program_users = {ada, grace, example_newUser, margaret}"

lemma program_users_simps [simp]:
  "ada \<in> program_users" "grace \<in> program_users" "example_newUser \<in> program_users" "margaret \<in> program_users"
  by (simp_all add: program_users_def)

text \<open>The configuration of the programs: their TTLs, a fifth of jitter at most, and a codec that reads back what it
  wrote of these users.\<close>

definition json_ok :: "User Codec \<Rightarrow> bool" where
  "json_ok json \<longleftrightarrow> (\<forall>u \<in> program_users. \<exists>b. cd_Marshal json (Some u) = Inr b \<and> cd_Unmarshal json b = Inr u \<and> b \<noteq> negativeMarker)"

definition user_bytes :: "User Codec \<Rightarrow> User \<Rightarrow> bytes" where
  "user_bytes json u = (case cd_Marshal json (Some u) of Inr b \<Rightarrow> b | Inl e \<Rightarrow> [])"

definition example_cache :: "(User, 's, 'x) Cache \<Rightarrow> bool" where
  "example_cache c \<longleftrightarrow> solo_flight c \<and> json_ok (c_codec c) \<and> config_ok c \<and>
     o_TTL (c_opts c) = 3600000000000 \<and> o_NegativeTTL (c_opts c) = 30000000000 \<and>
     (\<exists>f. c_jitterFraction c = Fin f \<and> f \<le> 1 / 5)"

lemma json_okD:
  assumes "json_ok json" "u \<in> program_users"
  shows "cd_Marshal json (Some u) = Inr (user_bytes json u)" "cd_Unmarshal json (user_bytes json u) = Inr u"
    "user_bytes json u \<noteq> negativeMarker"
  using assms unfolding json_ok_def user_bytes_def by (metis sum.simps(6))+

lemma example_cacheD:
  assumes "example_cache c"
  shows "solo_flight c" "config_ok c" "finite_ttl c" "o_NegativeTTL (c_opts c) = 30000000000"
    "o_TTL (c_opts c) = 3600000000000" "u \<in> program_users \<Longrightarrow> codec_ok c u (user_bytes (c_codec c) u)"
  using assms json_okD [of "c_codec c" u] by (simp_all add: example_cache_def finite_ttl_def codec_ok_def)

text \<open>24 seconds are within both TTLs, however they are jittered.\<close>

lemma example_within:
  assumes "example_cache c" "t - t0 \<le> 24000000000"
  shows "within_ttl c (o_NegativeTTL (c_opts c)) t0 t" "within_ttl c (o_TTL (c_opts c)) t0 t"
proof -
  obtain f where f: "c_jitterFraction c = Fin f" "f \<le> 1 / 5" using assms(1) by (auto simp: example_cache_def)
  have "(of_int (t - t0) :: rat) \<le> 24000000000" using assms(2) by (metis of_int_le_iff of_int_numeral)
  with f show "within_ttl c (o_NegativeTTL (c_opts c)) t0 t" "within_ttl c (o_TTL (c_opts c)) t0 t"
    by (auto simp: within_ttl_def example_cacheD(4,5) [OF assms(1)])
qed

subsection \<open>The steps on a store\<close>

locale example_client = cache_client Get Set Delete entries now inv expiry grain least c
  for Get :: "string \<Rightarrow> (error + bytes, 's) op"
    and Set :: "string \<Rightarrow> bytes \<Rightarrow> int \<Rightarrow> (error option, 's) op"
    and Delete :: "string \<Rightarrow> (error option, 's) op"
    and entries :: "'s \<Rightarrow> string \<Rightarrow> (bytes \<times> int option) option"
    and now :: "'s \<Rightarrow> int"
    and inv :: "'s \<Rightarrow> bool"
    and expiry :: "int \<Rightarrow> int \<Rightarrow> int option"
    and grain :: int
    and least :: int
    and c :: "(User, 's, example_app) Cache" +
  fixes T :: int
begin

text \<open>The readable entries are \<open>m\<close>, and stay so until \<open>T\<close>, which is within the TTLs.\<close>

definition holds :: "(string \<rightharpoonup> bytes) \<Rightarrow> 's \<Rightarrow> bool" where
  "holds m s \<longleftrightarrow> (\<forall>k. (m k = None \<longrightarrow> entries s k = None) \<and>
     (\<forall>b. m k = Some b \<longrightarrow> (\<exists>d. entries s k = Some (b, d) \<and> \<not> expired_at d T)))"

definition good :: "(string \<rightharpoonup> bytes) \<Rightarrow> 's example_world \<Rightarrow> bool" where
  "good m w \<longleftrightarrow> bounded w \<and> T + (grain - 1) - now (w_store w) \<le> 24000000000 \<and> holds m (w_store w)"

definition keeps :: "'s action \<Rightarrow> bool" where
  "keeps p \<longleftrightarrow> (\<forall>w. bounded w \<longrightarrow> bounded (snd (p w)) \<and> now (w_store w) \<le> now (w_store (snd (p w))))"

definition runs :: "('s example_world \<Rightarrow> bool) \<Rightarrow> 's action \<Rightarrow> string \<Rightarrow> ('s example_world \<Rightarrow> bool) \<Rightarrow> bool" where
  "runs P p t Q \<longleftrightarrow> keeps p \<and> (\<forall>w. bounded w \<longrightarrow> P w \<longrightarrow> now (w_store (snd (p w))) \<le> T \<longrightarrow>
     fst (p w) = Ret () \<and> Q (snd (p w)) \<and> stdout (w_app (snd (p w))) = stdout (w_app w) @ t)"

text \<open>Once entries may be dropped, the keys that may have one.\<close>

definition only :: "string set \<Rightarrow> 's example_world \<Rightarrow> bool" where
  "only K w \<longleftrightarrow> (\<forall>k. k \<notin> K \<longrightarrow> entries (w_store w) k = None)"

definition store_only :: "('s example_world \<Rightarrow> bool) \<Rightarrow> bool" where
  "store_only P \<longleftrightarrow> (\<forall>w a. P w \<longrightarrow> P (w\<lparr>w_app := a\<rparr>))"

lemma keepsD: "keeps p \<Longrightarrow> bounded w \<Longrightarrow> bounded (snd (p w))" "keeps p \<Longrightarrow> bounded w \<Longrightarrow> now (w_store w) \<le> now (w_store (snd (p w)))"
  by (simp_all add: keeps_def)

lemma bounded_app: "bounded (w\<lparr>w_app := a\<rparr>) \<longleftrightarrow> bounded w"
  by (simp add: bounded_def)

lemma good_same: "good m w \<Longrightarrow> w_store w' = w_store w \<Longrightarrow> w_rand w' = w_rand w \<Longrightarrow> w_range w' = w_range w \<Longrightarrow> good m w'"
  by (simp add: good_def bounded_def)

lemma keeps_pure: "(\<And>w. w_store (snd (p w)) = w_store w) \<Longrightarrow> (\<And>w. w_rand (snd (p w)) = w_rand w) \<Longrightarrow>
    (\<And>w. w_range (snd (p w)) = w_range w) \<Longrightarrow> keeps p"
  by (simp add: keeps_def bounded_def)

lemma store_only_good [simp]: "store_only (good m)" "store_only (only K)"
  by (simp_all add: store_only_def good_def only_def bounded_app)

lemma runs_pure:
  assumes "store_only P" "\<And>w. p w = (Ret (), w\<lparr>w_app := f (w_app w)\<rparr>)" "\<And>a. stdout (f a) = stdout a @ t"
  shows "runs P p t P"
  unfolding runs_def using assms by (auto intro!: keeps_pure simp: store_only_def)

lemma runs_Printf: "store_only P \<Longrightarrow> runs P (Printf t) t P"
  by (rule runs_pure [of _ _ "app_print t"]) (simp_all add: Printf_def)

lemma keeps_run_all: "(\<And>a. a \<in> set as \<Longrightarrow> keeps a) \<Longrightarrow> keeps (run_all as)"
proof (induction as)
  case (Cons a as)
  then have "keeps a" "keeps (run_all as)" by simp_all
  then show ?case by (fastforce simp: keeps_def run_all_Cons split: go.splits)
qed (simp add: keeps_def)

lemma runs_Nil: "store_only P \<Longrightarrow> runs P (run_all []) [] P"
  by (rule runs_pure [of _ _ id]) simp_all

lemma runs_Cons:
  assumes "runs P p t1 Q" "runs Q (run_all ps) t2 R"
  shows "runs P (run_all (p # ps)) (t1 @ t2) R"
  unfolding runs_def
proof (intro conjI allI impI)
  have k: "keeps p" "keeps (run_all ps)" using assms by (simp_all add: runs_def)
  then show "keeps (run_all (p # ps))" by (fastforce simp: keeps_def run_all_Cons split: go.splits)
  fix w assume g: "bounded w" "P w" and T: "now (w_store (snd (run_all (p # ps) w))) \<le> T"
  have b: "bounded (snd (p w))" by (rule keepsD(1) [OF k(1) g(1)])
  have "now (w_store (snd (p w))) \<le> now (w_store (snd (run_all (p # ps) w)))"
    using keepsD(2) [OF k(2) b] by (simp add: run_all_Cons split: go.splits)
  with assms(1) g T have 1: "fst (p w) = Ret ()" "Q (snd (p w))" "stdout (w_app (snd (p w))) = stdout (w_app w) @ t1"
    by (simp_all add: runs_def)
  then have e: "run_all (p # ps) w = run_all ps (snd (p w))" by (simp add: run_all_Cons)
  show "fst (run_all (p # ps) w) = Ret ()" "R (snd (run_all (p # ps) w))"
    "stdout (w_app (snd (run_all (p # ps) w))) = stdout (w_app w) @ (t1 @ t2)"
    using assms(2) b 1 T unfolding e runs_def by simp_all
qed

lemma runs_one: "runs P p t Q \<Longrightarrow> store_only Q \<Longrightarrow> runs P (run_all [p]) t Q"
  using runs_Cons [OF _ runs_Nil] by fastforce

text \<open>The operations of the cache, from a good world.\<close>

lemma goodD:
  assumes "good m w"
  shows "bounded w" "inv (w_store w)" "rand_ok (w_rand w)" "range_ok (w_range w)" "holds m (w_store w)"
  using assms boundedD [of w] by (simp_all add: good_def)

lemma goodI:
  "bounded w' \<Longrightarrow> good m w \<Longrightarrow> now (w_store w) \<le> now (w_store w') \<Longrightarrow> holds m' (w_store w') \<Longrightarrow> good m' w'"
  by (simp add: good_def)

lemma holds_Some: "holds m s \<Longrightarrow> m k = Some b \<Longrightarrow> \<exists>d. entries s k = Some (b, d) \<and> \<not> expired_at d T"
  by (simp add: holds_def)

lemma holds_None: "holds m s \<Longrightarrow> m k = None \<Longrightarrow> entries s k = None"
  by (simp add: holds_def)

lemma holds_upd:
  assumes "holds m s" "\<And>k'. k' \<noteq> k \<Longrightarrow> entries s' k' = entries s k'"
    and "entries s' k = Some (b, d)" "\<not> expired_at d T"
  shows "holds (m(k \<mapsto> b)) s'"
  using assms by (simp add: holds_def)

lemma holds_drop:
  assumes "holds m s" "\<And>k'. k' \<noteq> k \<Longrightarrow> entries s' k' = entries s k'" "entries s' k = None"
  shows "holds (m(k := None)) s'"
  using assms by (simp add: holds_def)

lemma fresh_expiry:
  assumes "example_cache c" ttls_ok "good m w" "now (w_store w) \<le> t" "rand_ok (w_rand w1)"
  shows "\<not> expired_at (expiry t (fst (positiveTTL c w1))) T"
    "\<not> expired_at (expiry t (fst (negativeTTL c w1))) T"
proof -
  note x = example_cacheD [OF assms(1)]
  have w: "within_ttl c (o_NegativeTTL (c_opts c)) t (T + (grain - 1))" "within_ttl c (o_TTL (c_opts c)) t (T + (grain - 1))"
    using example_within [OF assms(1), of "T + (grain - 1)" t] assms(3,4) by (simp_all add: good_def)
  have n: "0 < o_NegativeTTL (c_opts c)" by (simp add: x(4))
  note tt = ttls_okD [OF assms(2)]
  show "\<not> expired_at (expiry t (fst (positiveTTL c w1))) T"
    using positiveTTL_reach [OF x(3) assms(5) w(2)]
    by (intro expiry_not_yet positiveTTL_least [OF x(3) assms(5) tt(3)]) simp
  show "\<not> expired_at (expiry t (fst (negativeTTL c w1))) T"
    using negativeTTL_reach [OF x(2) n assms(5) w(1)]
    by (intro expiry_not_yet negativeTTL_least [OF x(2) n assms(5) tt(4) [OF n]]) simp
qed

lemma later_get: "example_cache c \<Longrightarrow> inv (w_store w) \<Longrightarrow> now (w_store w) \<le> now (w_store (snd (GetByKey c k l w)))"
  using frame_GetByKey [of w k l] example_cacheD(1) [of c] by (simp add: frame_def)

lemma get_hit_good:
  assumes "example_cache c" ttls_ok "good m w" "m k = Some (user_bytes (c_codec c) u)"
    and "now (w_store (snd (GetByKey c k l w))) \<le> T" and u: "u \<in> program_users"
  shows "fst (GetByKey c k l w) = Ret (Some u, Hit, None)" "good m (snd (GetByKey c k l w))"
    and "w_app (snd (GetByKey c k l w)) = w_app w"
proof -
  note x = example_cacheD [OF assms(1)] and g = goodD [OF assms(3)]
  have n: "now (w_store w) \<le> now (w_store (snd (GetByKey c k l w)))" by (rule later_get [OF assms(1) g(2)])
  have keep: "\<not> expired_at d T \<Longrightarrow> \<not> expired_at d (now (w_store w))" for d
    using expired_at_mono [of d "now (w_store w)" T] n assms(5) by auto
  obtain d where d: "entries (w_store w) k = Some (user_bytes (c_codec c) u, d)" "\<not> expired_at d T"
    using holds_Some [OF g(5) assms(4)] by blast
  then have "visible (w_store w) k = Some (user_bytes (c_codec c) u)" by (simp add: visible_def keep)
  note h = GetByKey_cached [OF g(2) cached_value [OF this x(6) [OF u]], of l]
  show "fst (GetByKey c k l w) = Ret (Some u, Hit, None)" "w_app (snd (GetByKey c k l w)) = w_app w" by (rule h)+
  have "holds m (snd (Get k (w_store w)))"
    unfolding holds_def
  proof (intro allI conjI impI)
    fix k' b
    show "m k' = None \<Longrightarrow> entries (snd (Get k (w_store w))) k' = None"
      using holds_None [OF g(5)] get_entries_back [OF g(2), of k k'] by (metis not_Some_eq)
    show "m k' = Some b \<Longrightarrow> \<exists>d. entries (snd (Get k (w_store w))) k' = Some (b, d) \<and> \<not> expired_at d T"
      using holds_Some [OF g(5)] get_keeps_entry [OF g(2)] keep by blast
  qed
  then show "good m (snd (GetByKey c k l w))"
    using bounded_GetByKey [OF assms(2) x(1) g(1), of k l] n by (intro goodI [OF _ assms(3)]) (simp_all add: h(3))
qed

lemma get_load_good:
  assumes "example_cache c" ttls_ok "good m w" "m k = None"
    and "l (w_app w) = ((Some u, None), a)" and u: "u \<in> program_users"
  shows "fst (GetByKey c k l w) = Ret (Some u, Loaded, None)"
    and "good (m(k \<mapsto> user_bytes (c_codec c) u)) (snd (GetByKey c k l w))" "w_app (snd (GetByKey c k l w)) = a"
proof -
  note x = example_cacheD [OF assms(1)] and g = goodD [OF assms(3)] and tt = ttls_okD [OF assms(2)]
  have b: "cd_Marshal (c_codec c) (Some u) = Inr (user_bytes (c_codec c) u)" using x(6) [OF u] by (simp add: codec_ok_def)
  have e: "entries (w_store w) k = None" by (rule holds_None [OF g(5) assms(4)])
  then have n: "cached (w_store w) k = None" by (intro cached_None) (simp add: visible_def)
  from load_entry(1) [where k = k and r = "fst (GetByKey c k l w)" and w' = "snd (GetByKey c k l w)",
      OF g(2) x(1) n prod.collapse [symmetric] g(3) assms(5) b x(3) tt(3)] obtain t w1 where
    L: "fst (GetByKey c k l w) = Ret (Some u, Loaded, None)" "w_app (snd (GetByKey c k l w)) = a"
    "now (w_store w) \<le> t" "w_rand w1 = w_rand w"
    "entries (w_store (snd (GetByKey c k l w))) k = Some (user_bytes (c_codec c) u, expiry t (fst (positiveTTL c w1)))" by blast
  have r1: "rand_ok (w_rand w1)" using g(3) L(4) by simp
  have "holds (m(k \<mapsto> user_bytes (c_codec c) u)) (w_store (snd (GetByKey c k l w)))"
    by (rule holds_upd [OF g(5) GetByKey_other [OF g(2) x(1)] L(5) fresh_expiry(1) [OF assms(1-3) L(3) r1]])
  then show "good (m(k \<mapsto> user_bytes (c_codec c) u)) (snd (GetByKey c k l w))"
    using bounded_GetByKey [OF assms(2) x(1) g(1), of k l] later_get [OF assms(1) g(2), of k l]
    by (intro goodI [OF _ assms(3)])
  show "fst (GetByKey c k l w) = Ret (Some u, Loaded, None)" "w_app (snd (GetByKey c k l w)) = a" by (rule L)+
qed

lemma get_absent_good:
  assumes "example_cache c" ttls_ok "good m w" "m k = None"
    and "l (w_app w) = ((None, Some ErrNotFound), a)"
  shows "fst (GetByKey c k l w) = Ret (None, Loaded, Some ErrNotFound)"
    and "good (m(k \<mapsto> negativeMarker)) (snd (GetByKey c k l w))" "w_app (snd (GetByKey c k l w)) = a"
proof -
  note x = example_cacheD [OF assms(1)] and g = goodD [OF assms(3)] and tt = ttls_okD [OF assms(2)]
  have p: "0 < o_NegativeTTL (c_opts c)" by (simp add: x(4))
  have e: "entries (w_store w) k = None" by (rule holds_None [OF g(5) assms(4)])
  then have n: "cached (w_store w) k = None" by (intro cached_None) (simp add: visible_def)
  from load_entry(2) [where k = k and r = "fst (GetByKey c k l w)" and w' = "snd (GetByKey c k l w)" and e = ErrNotFound,
      OF g(2) x(1) n prod.collapse [symmetric] g(3) assms(5) errors_is_refl p x(2) tt(4) [OF p]] obtain t w1 where
    L: "fst (GetByKey c k l w) = Ret (None, Loaded, Some ErrNotFound)" "w_app (snd (GetByKey c k l w)) = a"
    "now (w_store w) \<le> t" "w_rand w1 = w_rand w"
    "entries (w_store (snd (GetByKey c k l w))) k = Some (negativeMarker, expiry t (fst (negativeTTL c w1)))" by blast
  have r1: "rand_ok (w_rand w1)" using g(3) L(4) by simp
  have "holds (m(k \<mapsto> negativeMarker)) (w_store (snd (GetByKey c k l w)))"
    by (rule holds_upd [OF g(5) GetByKey_other [OF g(2) x(1)] L(5) fresh_expiry(2) [OF assms(1-3) L(3) r1]])
  then show "good (m(k \<mapsto> negativeMarker)) (snd (GetByKey c k l w))"
    using bounded_GetByKey [OF assms(2) x(1) g(1), of k l] later_get [OF assms(1) g(2), of k l]
    by (intro goodI [OF _ assms(3)])
  show "fst (GetByKey c k l w) = Ret (None, Loaded, Some ErrNotFound)" "w_app (snd (GetByKey c k l w)) = a" by (rule L)+
qed

lemma put_value_good:
  assumes "example_cache c" ttls_ok "good m w" and u: "u \<in> program_users"
  shows "fst (PutValueByKey c k (Some u) w) = None" "good (m(k \<mapsto> user_bytes (c_codec c) u)) (snd (PutValueByKey c k (Some u) w))"
    and "w_app (snd (PutValueByKey c k (Some u) w)) = w_app w"
proof -
  note x = example_cacheD [OF assms(1)] and g = goodD [OF assms(3)] and tt = ttls_okD [OF assms(2)]
  have b: "cd_Marshal (c_codec c) (Some u) = Inr (user_bytes (c_codec c) u)" using x(6) [OF u] by (simp add: codec_ok_def)
  let ?ttl = "fst (positiveTTL c w)" and ?b = "user_bytes (c_codec c) u"
  have s: "w_store (snd (PutValueByKey c k (Some u) w)) = snd (Set k ?b ?ttl (w_store w))"
    by (simp add: PutValueByKey_Some b set_impl)
  note e = set_entry [OF g(2) positiveTTL_least [OF x(3) g(3) tt(3)], of k ?b]
  have "holds (m(k \<mapsto> ?b)) (w_store (snd (PutValueByKey c k (Some u) w)))"
    unfolding s by (rule holds_upd [OF g(5) set_other [OF g(2)] e fresh_expiry(1) [OF assms(1-3) order_refl g(3)]])
  then show "good (m(k \<mapsto> ?b)) (snd (PutValueByKey c k (Some u) w))"
    using bounded_PutValueByKey [OF assms(2) g(1), of k "Some u"] set_inv [OF g(2), of k ?b ?ttl]
    by (intro goodI [OF _ assms(3)]) (simp_all add: s)
  show "fst (PutValueByKey c k (Some u) w) = None" "w_app (snd (PutValueByKey c k (Some u) w)) = w_app w"
    by (simp_all add: PutValueByKey_Some b set_impl set_result [OF g(2)])
qed

lemma put_good:
  assumes "example_cache c" ttls_ok "good m w" "l (w_app w) = ((Some u, None), a)" and u: "u \<in> program_users"
  shows "fst (PutByKey c k l w) = (Some u, Written, None)" "good (m(k \<mapsto> user_bytes (c_codec c) u)) (snd (PutByKey c k l w))"
    and "w_app (snd (PutByKey c k l w)) = a"
proof -
  note x = example_cacheD [OF assms(1)] and g = goodD [OF assms(3)] and tt = ttls_okD [OF assms(2)]
  have b: "cd_Marshal (c_codec c) (Some u) = Inr (user_bytes (c_codec c) u)" using x(6) [OF u] by (simp add: codec_ok_def)
  note e = put_entry [where k = k and r = "fst (PutByKey c k l w)" and w' = "snd (PutByKey c k l w)",
      OF g(2) b assms(4) prod.collapse [symmetric] x(3) g(3) tt(3)]
  have r: "rand_ok (w_rand (snd (on_app l w)))" using g(3) by simp
  have "holds (m(k \<mapsto> user_bytes (c_codec c) u)) (w_store (snd (PutByKey c k l w)))"
    by (rule holds_upd [OF g(5) PutByKey_other [OF g(2)] e(4) fresh_expiry(1) [OF assms(1-3) order_refl r]])
  then show "good (m(k \<mapsto> user_bytes (c_codec c) u)) (snd (PutByKey c k l w))"
    using bounded_PutByKey [OF assms(2) g(1), of k l] frame_PutByKey [OF g(2), of k l]
    by (intro goodI [OF _ assms(3)]) (simp_all add: frame_def)
  show "fst (PutByKey c k l w) = (Some u, Written, None)" "w_app (snd (PutByKey c k l w)) = a" by (rule e)+
qed

lemma evict_good:
  assumes "good m w"
  shows "fst (EvictByKey c k w) = None" "good (m(k := None)) (snd (EvictByKey c k w))" "w_app (snd (EvictByKey c k w)) = w_app w"
proof -
  note g = goodD [OF assms]
  have s: "w_store (snd (EvictByKey c k w)) = snd (Delete k (w_store w))" by (simp add: EvictByKey_def delete_impl)
  have "holds (m(k := None)) (w_store (snd (EvictByKey c k w)))"
    by (rule holds_drop [OF g(5)]) (simp_all add: s delete_entries [OF g(2)])
  then show "good (m(k := None)) (snd (EvictByKey c k w))"
    using bounded_EvictByKey [OF g(1), of k] delete_inv [OF g(2), of k]
    by (intro goodI [OF _ assms]) (simp_all add: s)
  show "fst (EvictByKey c k w) = None" "w_app (snd (EvictByKey c k w)) = w_app w"
    by (simp_all add: EvictByKey_def delete_impl delete_result [OF g(2)])
qed

lemma evict_many_clears:
  assumes "inv (w_store w)" "only (set ks) w"
  shows "fst (EvictManyByKey c ks w) = None" "only {} (snd (EvictManyByKey c ks w))" "w_app (snd (EvictManyByKey c ks w)) = w_app w"
proof -
  have L: "fst (evict_many_loop c ks [] w) = [] \<and> w_app (snd (evict_many_loop c ks [] w)) = w_app w \<and>
      only {} (snd (evict_many_loop c ks [] w))" if "inv (w_store w)" "only (set ks) w" for w
    using that
  proof (induction ks arbitrary: w)
    case (Cons k ks)
    have "only (set ks) (snd (deleteValue c k w))"
      using Cons.prems by (auto simp: only_def delete_impl delete_entries)
    with Cons.IH [of "snd (deleteValue c k w)"] Cons.prems delete_inv [of "w_store w" k] show ?case
      by (simp add: case_prod_unfold Let_def delete_impl delete_result)
  qed simp
  have "only (set ks) (evicted c (int (length ks)) w)" using assms(2) by (simp add: only_def)
  with L [of "evicted c (int (length ks)) w"] assms(1)
  show "fst (EvictManyByKey c ks w) = None" "only {} (snd (EvictManyByKey c ks w))" "w_app (snd (EvictManyByKey c ks w)) = w_app w"
    by (simp_all add: EvictManyByKey_def case_prod_unfold Let_def)
qed

text \<open>The batch of step 7: \<open>u_1\<close> is cached, \<open>u_404\<close> is remembered as absent, and \<open>u_5\<close> alone is loaded.\<close>

lemma batch_later:
  assumes "inv (w_store w)" "range_ok (w_range w)" "keys \<noteq> []"
  shows "now (w_store (snd (readManyRaw c (dedupKeys keys) w))) \<le> now (w_store (snd (GetManyByKey c keys load w)))"
proof -
  obtain raw w1 where r: "readManyRaw c (dedupKeys keys) w = (raw, w1)" by (cases "readManyRaw c (dedupKeys keys) w")
  obtain s1 where s1: "w1 = w\<lparr>w_store := s1\<rparr>" "only_read (set (dedupKeys keys)) (w_store w) s1"
    using batch_impl [OF assms(1,2), of "dedupKeys keys"] unfolding r snd_conv by blast
  obtain result missing w2 where sl: "split_loop c raw (dedupKeys keys) fmempty [] w1 = ((result, missing), w2)"
    by (metis prod.exhaust)
  have i2: "inv (w_store w2)" "w_store w2 = w_store w1" using split_loop_spec(3) [OF sl] s1 by (simp_all add: only_read_def)
  have "now (w_store w2) \<le> now (w_store (fold (\<lambda>k. populate_one c k (f k)) missing (snd (timed_load c l w2))))" for f l
    using frame_populate [of "snd (timed_load c l w2)" missing f] i2(1) by (simp add: frame_def)
  with i2(2) assms(3) show ?thesis
    by (auto simp: r GetManyByKey_def splitHitsAndMisses_def sl case_prod_unfold Let_def populateLoaded_world split: option.splits)
qed

lemma batch_reads_kept:
  assumes "good m w" "distinct ks" "k \<in> set ks" "now (w_store (snd (readManyRaw c ks w))) \<le> T"
  shows "fmlookup (fst (readManyRaw c ks w)) k = m k"
proof -
  note g = goodD [OF assms(1)]
  obtain t where t: "t \<le> now (w_store (snd (readManyRaw c ks w)))"
    "fmlookup (fst (readManyRaw c ks w)) k = readable_at t (entries (w_store w) k)"
    using batch_answers [OF g(2,4) assms(2,3)] by blast
  show ?thesis
  proof (cases "m k")
    case None
    then show ?thesis using t(2) holds_None [OF g(5)] by (simp add: readable_at_def)
  next
    case (Some b)
    then obtain d where "entries (w_store w) k = Some (b, d)" "\<not> expired_at d T" using holds_Some [OF g(5)] by blast
    moreover from this have "\<not> expired_at d t" using expired_at_mono [of d t T] t(1) assms(4) by auto
    ultimately show ?thesis using t(2) Some by (simp add: readable_at_def)
  qed
qed

end

abbreviation many_keys :: "string list" where
  "many_keys \<equiv> [''u_1'', ''u_5'', ''u_404'']"

lemma batch_loader_5:
  "batch_loader [''u_5''] a = ((fmupd ''u_5'' (Some margaret) fmempty, None),
     app_print (loading ''u_5'') (app_print (''  [DB] batch-loading [u_5]...'' @ newline)
       (a\<lparr>loadManyCalls := loadManyCalls a + 1\<rparr>)))"
  by (simp add: batch_loader_def loadUserFromDB_results fmt_strings_def)

lemma Sprintf_d_1: "Sprintf_d 1 = ''1''"
  by code_simp

context example_client
begin

lemma get_many_good:
  assumes "example_cache c" "good m w" "now (w_store (snd (GetManyByKey c many_keys batch_loader w))) \<le> T"
    and "m ''u_1'' = Some (user_bytes (c_codec c) ada)" "m ''u_5'' = None" "m ''u_404'' = Some negativeMarker"
  obtains R where "fst (GetManyByKey c many_keys batch_loader w) = (Some R, None)"
    "fmlookup R ''u_1'' = Some ada" "fmlookup R ''u_5'' = Some margaret" "fmlookup R ''u_404'' = None"
    "w_app (snd (GetManyByKey c many_keys batch_loader w)) = snd (batch_loader [''u_5''] (w_app w))"
proof -
  note x = example_cacheD [OF assms(1)] and g = goodD [OF assms(2)]
  have d: "dedupKeys many_keys = many_keys" by (simp add: dedupKeys_def)
  let ?raw = "fst (readManyRaw c many_keys w)"
  have T: "now (w_store (snd (readManyRaw c many_keys w))) \<le> T"
    using batch_later [OF g(2,4), of many_keys batch_loader] assms(3) d by simp
  have raw: "k \<in> set many_keys \<Longrightarrow> fmlookup ?raw k = m k" for k
    by (rule batch_reads_kept [OF assms(2) _ _ T]) simp_all
  have a: "raw_answer c ?raw ''u_1'' = Some (Some ada, Hit, None)" "raw_answer c ?raw ''u_5'' = None"
    "raw_answer c ?raw ''u_404'' = Some (None, NegativeHit, Some ErrNotFound)"
    using raw assms(4-6) x(6) [OF program_users_simps(1)] by (simp_all add: raw_answer_def cached_answer_def codec_ok_def)
  then have m: "many_missing c many_keys w = [''u_5'']"
    by (simp add: many_missing_def d is_missing_def)
  then have l: "batch_loader (many_missing c many_keys w) (w_app w) =
      ((fmupd ''u_5'' (Some margaret) fmempty, None), snd (batch_loader [''u_5''] (w_app w)))"
    by (simp add: batch_loader_5)
  have ne: "many_missing c many_keys w \<noteq> []" by (simp add: m)
  obtain R where R: "fst (GetManyByKey c many_keys batch_loader w) = (Some R, None)"
    "\<And>k. fmlookup R k = (if k \<in> set (many_missing c many_keys w) then loaded_value (fmupd ''u_5'' (Some margaret) fmempty) k
       else if k \<in> set many_keys then answer_value (raw_answer c ?raw k) else None)"
    using GetManyByKey_load(3) [where load = batch_loader, OF ne l refl] unfolding d by blast
  show ?thesis
    by (rule that [OF R(1)]) (use R(2) a GetManyByKey_load(1) [where load = batch_loader, OF ne l] in \<open>simp_all add: m loaded_value_def answer_value_def\<close>)
qed

lemma many_only:
  assumes "good m w" "dom m \<union> set keys \<subseteq> K"
  shows "only K (snd (GetManyByKey c keys l w))"
  unfolding only_def
proof (intro allI impI)
  fix k assume "k \<notin> K"
  then have k: "m k = None" "k \<notin> set keys" using assms(2) by auto
  note g = goodD [OF assms(1)]
  show "entries (w_store (snd (GetManyByKey c keys l w))) k = None"
    using frame_GetManyByKey [OF g(2,4), of keys l] holds_None [OF g(5) k(1)] k(2) by (simp add: frame_def)
qed

subsection \<open>The steps\<close>

lemma keeps_op:
  assumes "\<And>w. bounded w \<Longrightarrow> bounded (snd (f w)) \<and> now (w_store w) \<le> now (w_store (snd (f w)))"
    and "\<And>r. keeps (g r)"
  shows "keeps (\<lambda>w. g (fst (f w)) (snd (f w)))"
  using assms unfolding keeps_def by (meson order_trans)

lemma keeps_must: "keeps (must err)"
  by (rule keeps_pure) simp_all

lemma keeps_Printf: "keeps (Printf t)"
  by (rule keeps_pure) simp_all

lemma keeps_show_user: "keeps (show_user u)"
  by (rule keeps_pure) (simp_all add: show_user_def split: option.splits)

lemma op_later:
  assumes "example_cache c" "bounded w"
  shows "now (w_store w) \<le> now (w_store (snd (GetByKey c k l w)))" "now (w_store w) \<le> now (w_store (snd (PutByKey c k l w)))"
    "now (w_store w) \<le> now (w_store (snd (PutValueByKey c k v w)))" "now (w_store w) \<le> now (w_store (snd (EvictByKey c k w)))"
    "now (w_store w) \<le> now (w_store (snd (EvictManyByKey c ks w)))" "now (w_store w) \<le> now (w_store (snd (GetManyByKey c ks ld w)))"
  using boundedD [OF assms(2)] frame_PutByKey [of w k l] frame_PutValueByKey [of w k v] frame_EvictManyByKey [of w ks]
    frame_GetManyByKey [of w ks ld] frame_value(3) [of "evicted c 1 w" k] later_get [OF assms(1), of w k l]
  by (simp_all add: frame_def EvictByKey_def)

lemma keeps_call_get:
  assumes "example_cache c" ttls_ok "\<And>u out err. keeps (cont u out err)"
  shows "keeps (call_get c k l cont)"
proof -
  have g: "keeps (\<lambda>w. case r of Panic msg \<Rightarrow> (Panic msg, w) | Ret (u, out, err) \<Rightarrow> cont u out err w)" for r
    using assms(3) by (auto simp: keeps_def split: go.splits)
  have "call_get c k l cont = (\<lambda>w. (\<lambda>r w. case r of Panic msg \<Rightarrow> (Panic msg, w) | Ret (u, out, err) \<Rightarrow> cont u out err w)
      (fst (GetByKey c k l w)) (snd (GetByKey c k l w)))"
    by (auto simp: call_get_def fun_eq_iff case_prod_unfold split: go.splits)
  moreover have "keeps \<dots>"
    by (rule keeps_op) (use g bounded_GetByKey [OF assms(2) example_cacheD(1) [OF assms(1)]] op_later(1) [OF assms(1)] in simp_all)
  ultimately show ?thesis by simp
qed

lemma keeps_read_and_show:
  assumes "example_cache c" ttls_ok shows "keeps (read_and_show c k note)"
  unfolding read_and_show_def
  by (intro keeps_call_get [OF assms] keeps_run_all) (auto intro: keeps_must keeps_show_user keeps_Printf simp: show_outcome_def)

lemma read_and_show_world:
  assumes "fst (GetByKey c k example_loader w) = Ret (Some u, out, None)"
  shows "fst (read_and_show c k note w) = Ret ()"
    and "w_store (snd (read_and_show c k note w)) = w_store (snd (GetByKey c k example_loader w))"
    and "stdout (w_app (snd (read_and_show c k note w))) = stdout (w_app (snd (GetByKey c k example_loader w))) @ shown u out note"
    and "good m (snd (read_and_show c k note w)) \<longleftrightarrow> good m (snd (GetByKey c k example_loader w))"
proof -
  have e: "read_and_show c k note w = run_all [must None, show_user (Some u), show_outcome out note] (snd (GetByKey c k example_loader w))"
    using assms by (cases "GetByKey c k example_loader w") (simp add: read_and_show_def call_get_def)
  then show "fst (read_and_show c k note w) = Ret ()"
    "w_store (snd (read_and_show c k note w)) = w_store (snd (GetByKey c k example_loader w))"
    "stdout (w_app (snd (read_and_show c k note w))) = stdout (w_app (snd (GetByKey c k example_loader w))) @ shown u out note"
    by (simp_all add: run_all_Cons show_outcome_def shown_def)
  show "good m (snd (read_and_show c k note w)) \<longleftrightarrow> good m (snd (GetByKey c k example_loader w))"
    by (auto simp: e run_all_Cons show_outcome_def good_def bounded_def)
qed

text \<open>What follows a call changes neither the store nor the time.\<close>

lemma read_and_show_store: "w_store (snd (read_and_show c k note w)) = w_store (snd (GetByKey c k example_loader w))"
  by (auto simp: read_and_show_def call_get_def run_all_Cons show_outcome_def must_def show_user_def case_prod_unfold
      split: go.splits option.splits)

lemma runs_read_hit:
  assumes "example_cache c" ttls_ok "m k = Some (user_bytes (c_codec c) u)" "u \<in> program_users"
  shows "runs (good m) (read_and_show c k note) (shown u Hit note) (good m)"
  unfolding runs_def
proof (intro conjI allI impI)
  show "keeps (read_and_show c k note)" by (rule keeps_read_and_show [OF assms(1,2)])
  fix w assume "good m w" "now (w_store (snd (read_and_show c k note w))) \<le> T"
  note h = get_hit_good [where l = example_loader, OF assms(1,2) this(1) assms(3) this(2) [unfolded read_and_show_store] assms(4)]
  show "fst (read_and_show c k note w) = Ret ()" "good m (snd (read_and_show c k note w))"
    "stdout (w_app (snd (read_and_show c k note w))) = stdout (w_app w) @ shown u Hit note"
    using read_and_show_world [OF h(1)] h(2,3) by simp_all
qed

lemma runs_read_load:
  assumes "example_cache c" ttls_ok "m k = None"
  shows "runs (good m) (read_and_show c k note) (loading ''u_1'' @ shown ada Loaded note) (good (m(k \<mapsto> user_bytes (c_codec c) ada)))"
  unfolding runs_def
proof (intro conjI allI impI)
  show "keeps (read_and_show c k note)" by (rule keeps_read_and_show [OF assms(1,2)])
  fix w assume g: "good m w"
  have l: "example_loader (w_app w) = ((Some ada, None), app_print (loading ''u_1'') (w_app w))"
    by (simp add: example_loader_def loadUserFromDB_results)
  note h = get_load_good [where l = example_loader, OF assms(1,2) g assms(3) l program_users_simps(1)]
  show "fst (read_and_show c k note w) = Ret ()" "good (m(k \<mapsto> user_bytes (c_codec c) ada)) (snd (read_and_show c k note w))"
    "stdout (w_app (snd (read_and_show c k note w))) = stdout (w_app w) @ (loading ''u_1'' @ shown ada Loaded note)"
    using read_and_show_world [OF h(1)] h(2,3) by simp_all
qed

text \<open>A call whose error must be nil.\<close>

lemma must_do_split: "must_do f = (\<lambda>w. must (fst (f w)) (snd (f w)))"
  by (simp add: must_do_def fun_eq_iff case_prod_unfold Let_def)

lemma runs_must_do:
  assumes "\<And>w. bounded w \<Longrightarrow> bounded (snd (f w)) \<and> now (w_store w) \<le> now (w_store (snd (f w)))"
    and "\<And>w. P w \<Longrightarrow> bounded w \<Longrightarrow> fst (f w) = None \<and> Q (snd (f w)) \<and> w_app (snd (f w)) = w_app w"
  shows "runs P (must_do f) [] Q"
  unfolding runs_def must_do_split
  using keeps_op [of f must, OF assms(1) keeps_must] assms(2) by fastforce

lemma runs_step:
  assumes "runs P (run_all as) t Q" "store_only P"
  shows "runs P (run_all (Printlns title # as)) (lines_text title @ t) Q"
  unfolding Printlns_text by (rule runs_Cons [OF runs_Printf [OF assms(2)] assms(1)])

lemma runs_step_read_load:
  assumes "example_cache c" ttls_ok "m ''u_1'' = None"
  shows "runs (good m) (step_read title note c) (lines_text title @ loading ''u_1'' @ shown ada Loaded note)
    (good (m(''u_1'' \<mapsto> user_bytes (c_codec c) ada)))"
  unfolding step_read_def by (intro runs_step runs_one runs_read_load assms store_only_good)

lemma runs_step_read_hit:
  assumes "example_cache c" ttls_ok "m ''u_1'' = Some (user_bytes (c_codec c) ada)"
  shows "runs (good m) (step_read title note c) (lines_text title @ shown ada Hit note) (good m)"
  unfolding step_read_def by (intro runs_step runs_one runs_read_hit assms program_users_simps store_only_good)

lemma runs_step_absent:
  assumes "example_cache c" ttls_ok "m ''u_404'' = None"
  shows "runs (good m) (step_absent title note c) (lines_text title @ loading ''u_404'' @ absent_text note)
    (good (m(''u_404'' \<mapsto> negativeMarker)))"
  unfolding step_absent_def
proof (intro runs_step runs_one store_only_good)
  let ?cont = "\<lambda>u out err. run_all [Printf (''Result: err='' @ fmt_error err @ newline),
      Printf (''Outcome: '' @ Outcome_String out @ ''  '' @ note @ newline),
      Printf (''Caller check: errors.Is(err, smartcache.ErrNotFound) = '' @
        fmt_bool (errors_Is err ErrNotFound) @ newline @ newline)] :: 's action"
  let ?p = "call_get c ''u_404'' (loadUserFromDB ''u_404'') ?cont"
  show "runs (good m) ?p (loading ''u_404'' @ absent_text note) (good (m(''u_404'' \<mapsto> negativeMarker)))"
    unfolding runs_def
  proof (intro conjI allI impI)
    show "keeps ?p" by (intro keeps_call_get [OF assms(1,2)] keeps_run_all) (auto intro: keeps_Printf)
    fix w assume g: "good m w"
    note h = get_absent_good [where l = "loadUserFromDB ''u_404''", OF assms(1,2) g assms(3) loadUserFromDB_results(3)]
    have e: "?p w = ?cont None Loaded (Some ErrNotFound) (snd (GetByKey c ''u_404'' (loadUserFromDB ''u_404'') w))"
      using h(1) by (simp add: call_get_def case_prod_unfold)
    show "fst (?p w) = Ret ()" "good (m(''u_404'' \<mapsto> negativeMarker)) (snd (?p w))"
      "stdout (w_app (snd (?p w))) = stdout (w_app w) @ (loading ''u_404'' @ absent_text note)"
      unfolding e using h(2,3)
      by (simp_all add: run_all_Cons absent_text_def fmt_error_def fmt_bool_def good_def bounded_def)
  qed
qed

lemma runs_step_put_value:
  assumes "example_cache c" ttls_ok
  shows "runs (good m) (step_put_value title note c) (lines_text title @ shown grace Hit note)
    (good (m(''u_2'' \<mapsto> user_bytes (c_codec c) grace)))"
proof -
  have "runs (good m) (must_do (PutValueByKey c ''u_2'' (Some grace))) [] (good (m(''u_2'' \<mapsto> user_bytes (c_codec c) grace)))"
    using put_value_good [OF assms _ program_users_simps(2)] bounded_PutValueByKey [OF assms(2)] op_later(3) [OF assms(1)]
    by (intro runs_must_do) simp_all
  from runs_Cons [OF this runs_one [OF runs_read_hit [OF assms _ program_users_simps(2)]]]
  have "runs (good m) (run_all [must_do (PutValueByKey c ''u_2'' (Some grace)), read_and_show c ''u_2'' note])
      (shown grace Hit note) (good (m(''u_2'' \<mapsto> user_bytes (c_codec c) grace)))" by simp
  then show ?thesis
    unfolding step_put_value_def grace_def [symmetric] by (intro runs_step store_only_good)
qed

lemma runs_step_evict:
  assumes "example_cache c" ttls_ok
  shows "runs (good m) (step_evict title note c) (lines_text title @ loading ''u_1'' @ shown ada Loaded note)
    (good (m(''u_1'' \<mapsto> user_bytes (c_codec c) ada)))"
proof -
  have "runs (good m) (must_do (EvictByKey c ''u_1'')) [] (good (m(''u_1'' := None)))"
    using evict_good bounded_EvictByKey op_later(4) [OF assms(1)] by (intro runs_must_do) simp_all
  from runs_Cons [OF this runs_one [OF runs_read_load [OF assms, of "m(''u_1'' := None)" "''u_1''" "note"]]]
  have "runs (good m) (run_all [must_do (EvictByKey c ''u_1''), read_and_show c ''u_1'' note])
      (loading ''u_1'' @ shown ada Loaded note) (good (m(''u_1'' \<mapsto> user_bytes (c_codec c) ada)))" by simp
  then show ?thesis unfolding step_evict_def by (intro runs_step store_only_good)
qed

lemma runs_step_put:
  assumes "example_cache c" ttls_ok
  shows "runs (good m) (step_put title note1 note2 c) (lines_text title @ written_text note1 @ shown example_newUser Hit note2)
    (good (m(''u_3'' \<mapsto> user_bytes (c_codec c) example_newUser)))"
proof -
  let ?g = "\<lambda>r. run_all [must (snd (snd r)), show_outcome (fst (snd r)) note1] :: 's action"
  let ?p = "\<lambda>w. ?g (fst (PutByKey c ''u_3'' example_writer w)) (snd (PutByKey c ''u_3'' example_writer w))"
  let ?m = "m(''u_3'' \<mapsto> user_bytes (c_codec c) example_newUser)"
  have p: "(\<lambda>w. case PutByKey c ''u_3'' example_writer w of ((_, out, err), w1) \<Rightarrow> run_all [must err, show_outcome out note1] w1) = ?p"
    by (simp add: fun_eq_iff case_prod_unfold)
  have "runs (good m) ?p (written_text note1) (good ?m)"
    unfolding runs_def
  proof (intro conjI allI impI)
    show "keeps ?p"
      by (rule keeps_op)
        (auto intro!: keeps_run_all intro: keeps_must keeps_Printf
          simp: show_outcome_def bounded_PutByKey [OF assms(2)] op_later(2) [OF assms(1)])
    fix w assume g: "good m w"
    have l: "example_writer (w_app w) = ((Some example_newUser, None), app_print (''  [DB] writing u_3...'' @ newline) (w_app w))"
      by (simp add: example_writer_def example_newUser_def)
    note h = put_good [where l = example_writer and k = "''u_3''", OF assms g l program_users_simps(3)]
    have e: "?p w = ?g (Some example_newUser, Written, None) (snd (PutByKey c ''u_3'' example_writer w))" by (simp only: h(1))
    show "fst (?p w) = Ret ()" "good ?m (snd (?p w))" "stdout (w_app (snd (?p w))) = stdout (w_app w) @ written_text note1"
      unfolding e using h(2,3) by (simp_all add: run_all_Cons show_outcome_def written_text_def good_def bounded_def)
  qed
  from runs_Cons [OF this runs_one [OF runs_read_hit [OF assms _ program_users_simps(3), of ?m "''u_3''" note2]]]
  have "runs (good m) (run_all [?p, read_and_show c ''u_3'' note2]) (written_text note1 @ shown example_newUser Hit note2) (good ?m)"
    by simp
  then show ?thesis unfolding step_put_def p by (intro runs_step store_only_good)
qed

lemma keeps_show_got: "a \<in> set (show_got got ids) \<Longrightarrow> keeps a"
  by (induction ids) (auto intro: keeps_Printf)

lemma runs_step_many:
  assumes "example_cache c" ttls_ok "dom m \<union> set many_keys \<subseteq> K"
    and m: "m ''u_1'' = Some (user_bytes (c_codec c) ada)" "m ''u_5'' = None" "m ''u_404'' = Some negativeMarker"
  shows "runs (good m) (step_many title note c)
    (lines_text title @ ''  [DB] batch-loading [u_5]...'' @ newline @ loading ''u_5'' @ got_text note) (only K)"
proof -
  let ?G = "GetManyByKey c many_keys batch_loader"
  let ?g = "\<lambda>r. run_all ([must (snd r), (\<lambda>w. Printf (''Batch loader calls: '' @ Sprintf_d (int (loadManyCalls (w_app w))) @ '' '' @ note @ newline) w)] @
      show_got (case fst r of None \<Rightarrow> fmempty | Some m \<Rightarrow> m) many_keys @ [Printf newline]) :: 's action"
  let ?z = "\<lambda>w. w\<lparr>w_app := (w_app w)\<lparr>loadManyCalls := 0\<rparr>\<rparr>"
  let ?p = "\<lambda>w. ?g (fst (?G w)) (snd (?G w))"
  let ?t = "''  [DB] batch-loading [u_5]...'' @ newline @ loading ''u_5'' @ got_text note"
  have kg: "keeps (?g r)" for r
    by (rule keeps_run_all) (auto intro: keeps_must keeps_Printf keeps_show_got keeps_pure)
  have store: "w_store (snd (?g r w)) = w_store w \<or> fst (?g r w) \<noteq> Ret ()" for r w
    by (cases "snd r") (auto simp: run_all_Cons must_def)
  have kp: "keeps ?p"
    by (rule keeps_op [OF _ kg]) (auto simp: bounded_GetManyByKey [OF assms(2)] op_later(6) [OF assms(1)])
  have "runs (good m) (run_all [\<lambda>w. (Ret (), ?z w), ?p]) ?t (only K)"
    unfolding runs_def
  proof (intro conjI allI impI)
    show "keeps (run_all [\<lambda>w. (Ret (), ?z w), ?p])"
      by (rule keeps_run_all) (use kp in \<open>auto intro: keeps_pure\<close>)
    fix w assume b: "bounded w" and g: "good m w" and T: "now (w_store (snd (run_all [\<lambda>w. (Ret (), ?z w), ?p] w))) \<le> T"
    have e: "run_all [\<lambda>w. (Ret (), ?z w), ?p] w = run_all [?p] (?z w)" by (simp add: run_all_Cons)
    have gz: "good m (?z w)" using g by (simp add: good_def bounded_app)
    have "now (w_store (snd (?G (?z w)))) \<le> now (w_store (snd (?p (?z w))))"
      using keepsD(2) [OF kg] bounded_GetManyByKey [OF assms(2), of "?z w" many_keys batch_loader] gz by (simp add: good_def)
    also have "\<dots> \<le> T" using T unfolding e by (simp add: run_all_Cons split: go.splits)
    finally obtain R where R: "fst (?G (?z w)) = (Some R, None)" "fmlookup R ''u_1'' = Some ada"
      "fmlookup R ''u_5'' = Some margaret" "fmlookup R ''u_404'' = None"
      "w_app (snd (?G (?z w))) = snd (batch_loader [''u_5''] (w_app (?z w)))"
      by (rule get_many_good [OF assms(1) gz _ m])
    have o: "only K (snd (?G (?z w)))" by (rule many_only [OF gz assms(3)])
    have e': "run_all [\<lambda>w. (Ret (), ?z w), ?p] w = ?g (Some R, None) (snd (?G (?z w)))"
      unfolding e by (simp add: run_all_Cons R(1) split: go.splits)
    show "fst (run_all [\<lambda>w. (Ret (), ?z w), ?p] w) = Ret ()" "only K (snd (run_all [\<lambda>w. (Ret (), ?z w), ?p] w))"
      "stdout (w_app (snd (run_all [\<lambda>w. (Ret (), ?z w), ?p] w))) = stdout (w_app w) @ ?t"
      unfolding e' using R(2-5) o
      by (simp_all add: run_all_Cons only_def batch_loader_5 got_text_def Sprintf_d_1)
  qed
  then show ?thesis
    unfolding step_many_def by (intro runs_step store_only_good) (simp add: case_prod_unfold)
qed

lemma runs_step_cleanup:
  assumes "example_cache c" "Shutdown mgr = None"
  shows "runs (only {''u_1'', ''u_2'', ''u_3'', ''u_5'', ''u_404''}) (step_cleanup title mgr c) (lines_text title) (only {})"
proof -
  let ?ks = "[''u_1'', ''u_2'', ''u_3'', ''u_5'', ''u_404'']"
  have 1: "runs (only (set ?ks)) (must_do (EvictManyByKey c ?ks)) [] (only {})"
  proof (rule runs_must_do)
    fix w assume b: "bounded w"
    show "bounded (snd (EvictManyByKey c ?ks w)) \<and> now (w_store w) \<le> now (w_store (snd (EvictManyByKey c ?ks w)))"
      using bounded_EvictManyByKey [OF b] op_later(5) [OF assms(1) b] by blast
    assume "only (set ?ks) w"
    from evict_many_clears [OF boundedD(1) [OF b] this]
    show "fst (EvictManyByKey c ?ks w) = None \<and> only {} (snd (EvictManyByKey c ?ks w)) \<and>
        w_app (snd (EvictManyByKey c ?ks w)) = w_app w" by blast
  qed
  have "runs (only {}) (must (Shutdown mgr)) [] (only {})"
    unfolding assms(2) must_None by (rule runs_pure [of _ _ id]) simp_all
  from runs_Cons [OF 1 runs_one [OF this]]
  have "runs (only (set ?ks)) (run_all [must_do (EvictManyByKey c ?ks), must (Shutdown mgr)]) [] (only {})" by simp
  from runs_step [OF this store_only_good(2), of title] show ?thesis unfolding step_cleanup_def by simp
qed

end

text \<open>What a program prints, given the titles and notes of its steps.\<close>

definition transcript ::
  "string list \<Rightarrow> string \<Rightarrow> string list \<Rightarrow> string \<Rightarrow> string list \<Rightarrow> string \<Rightarrow> string list \<Rightarrow> string \<Rightarrow>
   string list \<Rightarrow> string \<Rightarrow> string \<Rightarrow> string list \<Rightarrow> string \<Rightarrow> string list \<Rightarrow> string \<Rightarrow> string list \<Rightarrow> string" where
  "transcript t1 n1 t2 n2 t3 n3 t4 n4 t5 n5 n5' t6 n6 t7 n7 t8 =
     (lines_text t1 @ loading ''u_1'' @ shown ada Loaded n1) @
     (lines_text t2 @ shown ada Hit n2) @
     (lines_text t3 @ loading ''u_404'' @ absent_text n3) @
     (lines_text t4 @ shown grace Hit n4) @
     (lines_text t5 @ written_text n5 @ shown example_newUser Hit n5') @
     (lines_text t6 @ loading ''u_1'' @ shown ada Loaded n6) @
     (lines_text t7 @ ''  [DB] batch-loading [u_5]...'' @ newline @ loading ''u_5'' @ got_text n7) @
     lines_text t8"

context example_client
begin

lemma runs_example:
  assumes "example_cache c" ttls_ok "Shutdown mgr = None"
  shows "runs (good Map.empty)
    (run_all [step_read t1 n1 c, step_read t2 n2 c, step_absent t3 n3 c, step_put_value t4 n4 c, step_put t5 n5 n5' c,
       step_evict t6 n6 c, step_many t7 n7 c, step_cleanup t8 mgr c])
    (transcript t1 n1 t2 n2 t3 n3 t4 n4 t5 n5 n5' t6 n6 t7 n7 t8) (only {})"
  unfolding transcript_def
  by (rule runs_Cons [OF runs_step_read_load [OF assms(1,2)]], simp,
      rule runs_Cons [OF runs_step_read_hit [OF assms(1,2)]], simp,
      rule runs_Cons [OF runs_step_absent [OF assms(1,2)]], simp,
      rule runs_Cons [OF runs_step_put_value [OF assms(1,2)]],
      rule runs_Cons [OF runs_step_put [OF assms(1,2)]],
      rule runs_Cons [OF runs_step_evict [OF assms(1,2)]],
      rule runs_Cons [OF runs_step_many [OF assms(1,2), where K = "{''u_1'', ''u_2'', ''u_3'', ''u_5'', ''u_404''}"]],
      (auto intro: runs_one runs_step_cleanup [OF assms(1,3)]))

text \<open>The whole program, from a store without its entries.\<close>

lemma example_keeps:
  assumes "example_cache c" ttls_ok "Shutdown mgr = None"
    and "inv (w_store w)" "rand_ok (w_rand w)" "range_ok (w_range w)" "\<And>k. entries (w_store w) k = None"
    and "run_all [step_read t1 n1 c, step_read t2 n2 c, step_absent t3 n3 c, step_put_value t4 n4 c, step_put t5 n5 n5' c,
       step_evict t6 n6 c, step_many t7 n7 c, step_cleanup t8 mgr c] w = (r, w')"
  shows "inv (w_store w')" "now (w_store w) \<le> now (w_store w')"
proof -
  have b: "bounded w" using assms(4-7) by (simp add: bounded_def)
  have "keeps (run_all [step_read t1 n1 c, step_read t2 n2 c, step_absent t3 n3 c, step_put_value t4 n4 c, step_put t5 n5 n5' c,
       step_evict t6 n6 c, step_many t7 n7 c, step_cleanup t8 mgr c])"
    using runs_example [OF assms(1-3)] unfolding runs_def by blast
  from keepsD [OF this b] assms(8) boundedD(1) [of w'] show "inv (w_store w')" "now (w_store w) \<le> now (w_store w')" by simp_all
qed

lemma example_ends:
  assumes "example_cache c" ttls_ok "Shutdown mgr = None"
    and "inv (w_store w)" "rand_ok (w_rand w)" "range_ok (w_range w)" "\<And>k. entries (w_store w) k = None"
    and "run_all [step_read t1 n1 c, step_read t2 n2 c, step_absent t3 n3 c, step_put_value t4 n4 c, step_put t5 n5 n5' c,
       step_evict t6 n6 c, step_many t7 n7 c, step_cleanup t8 mgr c] w = (r, w')"
    and "now (w_store w') \<le> T" "T + (grain - 1) - now (w_store w) \<le> 24000000000"
  shows "r = Ret ()" "entries (w_store w') k = None"
    and "stdout (w_app w') = stdout (w_app w) @ transcript t1 n1 t2 n2 t3 n3 t4 n4 t5 n5 n5' t6 n6 t7 n7 t8"
proof -
  have b: "bounded w" using assms(4-7) by (simp add: bounded_def)
  then have g: "good Map.empty w" using assms(7,10) by (simp add: good_def holds_def)
  from runs_example [OF assms(1-3), of t1 n1 t2 n2 t3 n3 t4 n4 t5 n5 n5' t6 n6 t7 n7 t8, unfolded runs_def] b g assms(8,9)
  show "r = Ret ()" "entries (w_store w') k = None"
    "stdout (w_app w') = stdout (w_app w) @ transcript t1 n1 t2 n2 t3 n3 t4 n4 t5 n5 n5' t6 n6 t7 n7 t8"
    by (auto simp: only_def)
qed

end

text \<open>The contract of a client holds with any further invariant that its calls keep.\<close>

lemma timed_store_and:
  fixes inv :: "'s \<Rightarrow> bool"
  assumes "timed_store Get Set Delete entries now inv expiry grain least"
    and "\<And>s k. inv s \<Longrightarrow> P s \<Longrightarrow> P (snd (Get k s))" "\<And>s k b ttl. inv s \<Longrightarrow> P s \<Longrightarrow> P (snd (Set k b ttl s))"
    and "\<And>s k. inv s \<Longrightarrow> P s \<Longrightarrow> P (snd (Delete k s))"
  shows "timed_store Get Set Delete entries now (\<lambda>s. inv s \<and> P s) expiry grain least"
proof (rule timed_store.intro)
  note t = assms(1)
  fix s k k' b d and ttl u :: int
  show "least \<le> ttl \<Longrightarrow> \<exists>d. expiry u ttl = Some d \<and> u + ttl < d + grain \<and> d < u + ttl + grain"
    by (rule timed_store.expiry_close [OF t])
  assume "inv s \<and> P s"
  then have i: "inv s" and p: "P s" by simp_all
  note laws = timed_store.get_frame [OF t i] timed_store.get_keeps [OF t i] timed_store.get_drops [OF t i]
    timed_store.set_result [OF t i] timed_store.set_entry [OF t i] timed_store.set_other [OF t i]
    timed_store.delete_result [OF t i] timed_store.delete_entries [OF t i]
  show "fst (Get k s) = (case entries s k of None \<Rightarrow> Inl ErrStoreMiss
      | Some (b, d) \<Rightarrow> if expired_at d (now s) then Inl ErrStoreMiss else Inr b)"
    by (rule timed_store.get_result [OF t i])
  show "k' \<noteq> k \<Longrightarrow> entries (snd (Get k s)) k' = entries s k'"
    "entries s k = Some (b, d) \<Longrightarrow> \<not> expired_at d (now s) \<Longrightarrow> entries (snd (Get k s)) k = Some (b, d)"
    "entries (snd (Get k s)) k = None \<or> entries (snd (Get k s)) k = entries s k"
    "fst (Set k b ttl s) = None" "least \<le> ttl \<Longrightarrow> entries (snd (Set k b ttl s)) k = Some (b, expiry (now s) ttl)"
    "k' \<noteq> k \<Longrightarrow> entries (snd (Set k b ttl s)) k' = entries s k'"
    "fst (Delete k s) = None" "entries (snd (Delete k s)) = (entries s)(k := None)"
    by (rule laws; assumption)+
  show "(inv (snd (Get k s)) \<and> P (snd (Get k s))) \<and> now s \<le> now (snd (Get k s))"
    "(inv (snd (Set k b ttl s)) \<and> P (snd (Set k b ttl s))) \<and> now s \<le> now (snd (Set k b ttl s))"
    "(inv (snd (Delete k s)) \<and> P (snd (Delete k s))) \<and> now s \<le> now (snd (Delete k s))"
    using timed_store.get_inv [OF t i] timed_store.set_inv [OF t i] timed_store.delete_inv [OF t i]
      assms(2-4) [OF i p] by simp_all
qed

lemma cache_client_and:
  fixes inv :: "'s \<Rightarrow> bool" and c :: "('v, 's, 'x) Cache"
  assumes c: "cache_client Get Set Delete entries now inv expiry grain least c"
    and P: "\<And>s k. inv s \<Longrightarrow> P s \<Longrightarrow> P (snd (Get k s))" "\<And>s k b ttl. inv s \<Longrightarrow> P s \<Longrightarrow> P (snd (Set k b ttl s))"
    "\<And>s k. inv s \<Longrightarrow> P s \<Longrightarrow> P (snd (Delete k s))"
    "\<And>w ks. inv (w_store w) \<Longrightarrow> P (w_store w) \<Longrightarrow> range_ok (w_range w) \<Longrightarrow> P (w_store (snd (readManyRaw c ks w)))"
  shows "cache_client Get Set Delete entries now (\<lambda>s. inv s \<and> P s) expiry grain least c"
proof -
  have v: "value_client Get Set Delete entries now inv expiry grain least c"
    and t: "timed_store Get Set Delete entries now inv expiry grain least"
    using c by (simp_all add: cache_client_def value_client_def)
  have v': "value_client Get Set Delete entries now (\<lambda>s. inv s \<and> P s) expiry grain least c"
    using v timed_store_and [OF t P(1-3)] by (simp add: value_client_def)
  have "cache_client_axioms entries now (\<lambda>s. inv s \<and> P s) c"
  proof (rule cache_client_axioms.intro)
    fix w :: "('s, 'x) world" and ks
    assume a: "inv (w_store w) \<and> P (w_store w)" "range_ok (w_range w)"
    then obtain s' where s': "snd (readManyRaw c ks w) = w\<lparr>w_store := s'\<rparr>"
      "value_client.only_read entries now inv (set ks) (w_store w) s'"
      using cache_client.batch_impl [OF c, of w ks] by blast
    have "P s'" using P(4) [of w ks] a s'(1) by simp
    with s' show "\<exists>s'. snd (readManyRaw c ks w) = w\<lparr>w_store := s'\<rparr> \<and>
        value_client.only_read entries now (\<lambda>s. inv s \<and> P s) (set ks) (w_store w) s'"
      unfolding value_client.only_read_def [OF v] value_client.only_read_def [OF v'] by blast
  qed (use cache_client.batch_answers [OF c] in blast)
  with v' show ?thesis by (simp add: cache_client_def)
qed

end
