(* ===== verification/Example_Props.thy ===== *)
theory Example_Props
  imports Example_Run Redis_Cache_Props
begin

text \<open>
  The example programs from end to end.  Their steps are proved on any store in \<open>Example_Run\<close>; here are
  the two stores, the cache that the programs register, and what each program prints.
\<close>

interpretation ex_mem: example_client
  "\<lambda>k. mem_Get (fullKey c k)" "\<lambda>k. mem_Set (fullKey c k)" "\<lambda>k. mem_Delete (fullKey c k)"
  "\<lambda>s k. mem_entries s (fullKey c k)" mem_now mem_inv deadline 1 1 "on_mem c" T
  for c :: "(User, memstore, example_app) Cache" and T :: int
  by unfold_locales

sublocale redis_client \<subseteq> ex_redis: example_client
  "\<lambda>k. redis_Get conn (fullKey c k)" "\<lambda>k. redis_Set conn (fullKey c k)" "\<lambda>k. redis_Delete conn (fullKey c k)"
  "\<lambda>s k. redis_entries content s (fullKey c k)" "served now arrive" "plain_ok content c" redis_expiry 1000000 1
  "on_redis conn c" T
  for c :: "(User, 's, example_app) Cache" and T :: int
  by unfold_locales

subsection \<open>The cache of the programs\<close>

lemma default_jitter: "defaultJitterFraction = Fin (3602879701896397 / 36028797018963968)"
  by code_simp

lemma default_jitter_unit: "is_unit_float defaultJitterFraction"
  using is_doubleI [of 3602879701896397 "-55"] unfolding is_unit_float_def default_jitter
  by (intro exI [of _ "3602879701896397 / 36028797018963968"]) (simp add: power_int_minus field_simps)

definition new_manager :: "'s store_impl \<Rightarrow> ('v, 's) Manager" where
  "new_manager st = \<lparr>mg_store = st, mg_defaults = \<lparr>d_ttl = 0, d_jitterFraction = defaultJitterFraction,
     d_negativeTTL = 0, d_disableSingleflight = False, d_codec = None\<rparr>,
     mg_registry = {||}, mg_otlp = None, mg_meter = None, mg_meterProvider = None\<rparr>"

lemma NewManager_plain: "NewManager sdk (Some st) [] = Inr (new_manager st)"
  by (simp add: NewManager_def new_manager_def)

definition example_users ::
  "'s store_impl \<Rightarrow> User Codec \<Rightarrow> (User, 's, example_app) flight_group \<Rightarrow> string \<Rightarrow> (User, 's, example_app) Cache" where
  "example_users st json g name = \<lparr>c_type = user_type, c_store = si_store st, c_batch = si_GetMany st,
     c_prefixStore = si_DeleteByPrefix st, c_prefixAlias = None,
     c_opts = \<lparr>o_Prefix = name, o_TTL = 3600000000000, o_AllowInfinite = False, o_NegativeTTL = 30000000000,
       o_Codec = json, o_DisableSingleflight = False\<rparr>,
     c_codec = json, c_group = Some g, c_jitterFraction = defaultJitterFraction, c_metrics = None, c_aliasOps = None\<rparr>"

lemma Register_example:
  assumes "name \<noteq> ''''"
  shows "Register json g user_type (new_manager st) name (Some example_options) =
    (Ret (Inr (example_users st json g name)), (new_manager st)\<lparr>mg_registry := {|name|}\<rparr>)"
  using assms
  by (simp add: Register_def Let_def user_type_def new_manager_def example_options_def no_options_def override_def
      register_metrics_def default_jitter f64_le_def example_users_def)

lemma example_users_ok:
  assumes "json_ok json" "\<And>k f. g k f = f"
  shows "example_cache (example_users st json g name)"
proof -
  have f: "(3602879701896397 / 36028797018963968 :: rat) \<le> 1 / 5" by simp
  show ?thesis
    unfolding example_cache_def
  proof (intro conjI)
    show "\<exists>f. c_jitterFraction (example_users st json g name) = Fin f \<and> f \<le> 1 / 5"
      using f by (intro exI [of _ "3602879701896397 / 36028797018963968"]) (simp add: example_users_def default_jitter)
  qed (use assms default_jitter_unit in \<open>simp_all add: example_users_def config_ok_def solo_flight_def\<close>)
qed

lemma Shutdown_example: "Shutdown ((new_manager st)\<lparr>mg_registry := r\<rparr>) = None"
  by (simp add: Shutdown_def new_manager_def)

lemma example_on_mem: "on_mem (example_users mem_impl json g name) = example_users mem_impl json g name"
  by (simp add: on_mem_def example_users_def mem_impl_def)

lemma example_on_redis: "on_redis conn (example_users (redis_New conn) json g name) = example_users (redis_New conn) json g name"
  by (simp add: on_redis_def example_users_def redis_New_def)

lemma example_fullKey [simp]: "fullKey (example_users st json g name) k = NonAliasKey name k"
  by (simp add: example_users_def fullKey_def)

lemma example_cache_mem [simp]: "example_cache (on_mem c) = example_cache c"
  by (simp add: example_cache_def on_mem_def solo_flight_def config_ok_def)

lemma example_cache_redis [simp]: "example_cache (on_redis conn c) = example_cache c"
  by (simp add: example_cache_def on_redis_def solo_flight_def config_ok_def)

definition mem_transcript :: string where
  "mem_transcript = transcript mem_title1 mem_note1 mem_title2 mem_note2 mem_title3 mem_note3 mem_title4 mem_note4
     mem_title5 mem_note5a mem_note5b mem_title6 mem_note6 mem_title7 mem_note7 mem_title8"

definition redis_transcript :: string where
  "redis_transcript = transcript redis_title1 redis_note1 redis_title2 redis_note2 redis_title3 redis_note3 redis_title4 redis_note4
     redis_title5 redis_note5a redis_note5b redis_title6 redis_note6 redis_title7 redis_note7 redis_title8"

subsection \<open>Fixtures\<close>

text \<open>A codec for the witnesses: every byte of the ID is preceded by a dot, an exclamation mark ends it.\<close>

fun dotted :: "string \<Rightarrow> string" where
  "dotted [] = ''!''"
| "dotted (ch # s) = CHR ''.'' # ch # dotted s"

fun undot :: "string \<Rightarrow> (string \<times> string) option" where
  "undot [] = None"
| "undot [a] = (if a = CHR ''!'' then Some ([], []) else None)"
| "undot (a # b # s) = (if a = CHR ''!'' then Some ([], b # s) else map_option (apfst ((#) b)) (undot s))"

definition dotted_codec :: "User Codec" where
  "dotted_codec = \<lparr>
     cd_Marshal = (\<lambda>v. case v of None \<Rightarrow> Inr ''null'' | Some u \<Rightarrow> Inr (CHR ''u'' # dotted (u_ID u) @ u_Name u)),
     cd_Unmarshal = (\<lambda>b. case undot (tl b) of
        None \<Rightarrow> Inl (OtherErr ''unexpected end of input'') | Some (i, n) \<Rightarrow> Inr \<lparr>u_ID = i, u_Name = n\<rparr>)\<rparr>"

lemma undot_dotted: "undot (dotted s @ r) = Some (s, r)"
  by (induction s) (cases r; simp)+

lemma dotted_codec_ok: "json_ok dotted_codec"
  by (simp add: json_ok_def dotted_codec_def undot_dotted negativeMarker_def)

definition example_world0 :: "'s \<Rightarrow> 's example_world" where
  "example_world0 s = \<lparr>w_store = s, w_app = \<lparr>stdout = [], loadManyCalls = 0\<rparr>, w_rand = (\<lambda>_. Fin 0),
     w_elapsed = (\<lambda>_. Fin 0), w_metrics = [], w_range = sorted_list_of_fset, w_cvt = (\<lambda>_. 0)\<rparr>"

lemma example_world0_ok [simp]:
  "w_store (example_world0 s) = s" "range_ok (w_range (example_world0 s))" "rand_ok (w_rand (example_world0 s))"
  "stdout (w_app (example_world0 s)) = []"
  by (simp_all add: example_world0_def rand_ok_def range_ok_sorted)

definition example_sdk :: "(unit, unit) otel_sdk" where
  "example_sdk = \<lparr>sdk_New = (\<lambda>_. Inr ()), sdk_NewPeriodicReader = (\<lambda>_ _. ()),
     sdk_NewMeterProvider = (\<lambda>_ _. \<lparr>mp_Meter = (\<lambda>_. undefined), mp_Shutdown = None\<rparr>)\<rparr>"

subsection \<open>The in-memory program\<close>

lemma mem_main_steps:
  assumes "json_ok json" "\<And>k f. g k f = f" "mono_clock clk" "range_ok ord"
  defines "c \<equiv> example_users mem_impl json g ''user''" and "mgr \<equiv> (new_manager mem_impl)\<lparr>mg_registry := {|''user''|}\<rparr>"
    and "s \<equiv> mem_New clk ord"
  shows "mem_main json g sdk clk ord w = mem_steps mgr (on_mem c) (w\<lparr>w_store := s\<rparr>)"
    and "example_cache (on_mem c)" "cache_client.ttls_ok 1 (on_mem c)" "Shutdown mgr = None"
    and "mem_inv s" "mem_now s = clk 0" "mem_entries s x = None"
proof -
  have c: "example_cache c" unfolding c_def by (rule example_users_ok [OF assms(1,2)])
  have t: "finite_ttl c" by (rule example_cacheD(3) [OF c])
  show "mem_main json g sdk clk ord w = mem_steps mgr (on_mem c) (w\<lparr>w_store := s\<rparr>)"
    unfolding c_def mgr_def s_def by (simp add: mem_main_def NewManager_plain Register_example example_on_mem)
  show "example_cache (on_mem c)" "cache_client.ttls_ok 1 (on_mem c)"
    using c t mem_storable(3) [of c] by simp_all
  show "Shutdown mgr = None" unfolding mgr_def by (rule Shutdown_example)
  show "mem_inv s" "mem_now s = clk 0" "mem_entries s x = None"
    unfolding s_def using assms(3,4) by (simp_all add: mem_inv_def mem_New_def mem_now_def mem_entries_def)
qed

lemma read_each_later: "later (w_store w) (w_store (snd (read_each_loop (on_mem c) ks out w)))"
proof (induction ks arbitrary: out w)
  case (Cons k ks)
  have "later (w_store w) (w_store (snd (getValue (on_mem c) k w)))" by (simp add: plain.get_impl)
  then have "later (w_store w) (w_store (snd (read_each_loop (on_mem c) ks o1 (snd (getValue (on_mem c) k w)))))" for o1
    by (rule later_trans) (rule Cons.IH)
  then show ?case by (simp add: case_prod_unfold Let_def split: sum.splits)
qed simp

text \<open>The store reads nothing but its clock: if that never passes \<open>b\<close>, the program ends no later.\<close>

lemma mem_example_time:
  assumes "json_ok json" "\<And>k f. g k f = f" "mono_clock clk" "range_ok ord" "range_ok (w_range w)" "rand_ok (w_rand w)"
    and "mem_main json g sdk clk ord w = (r, w')" "\<And>i. clk i \<le> b"
  shows "mem_now (w_store w') \<le> b"
proof -
  let ?c = "example_users mem_impl json g ''user''" and ?w = "w\<lparr>w_store := mem_New clk ord\<rparr>"
  let ?P = "\<lambda>s. \<forall>i. clock s i \<le> b"
  have P: "?P s \<Longrightarrow> later s s' \<Longrightarrow> ?P s'" for s s' by (auto simp: later_def)
  note S = mem_main_steps [where g = g, OF assms(1-4)]
  have "cache_client (\<lambda>k. mem_Get (fullKey ?c k)) (\<lambda>k. mem_Set (fullKey ?c k)) (\<lambda>k. mem_Delete (fullKey ?c k))
      (\<lambda>s k. mem_entries s (fullKey ?c k)) mem_now (\<lambda>s. mem_inv s \<and> ?P s) deadline 1 1 (on_mem ?c)"
    by (rule cache_client_and [OF plain.cache_client_axioms]) (erule P, simp add: mem_batch_is_loop read_each_later)+
  note E = example_client.example_keeps [OF example_client.intro [OF this]]
  have i: "mem_inv (w_store ?w) \<and> ?P (w_store ?w)" "rand_ok (w_rand ?w)" "range_ok (w_range ?w)"
    "mem_entries (w_store ?w) (fullKey ?c k) = None" for k
    using assms(5,6,8) S(5,7) by (simp_all add: mem_New_def)
  note m = S(1) [where sdk = sdk and w = w, unfolded assms(7), symmetric]
  have "?P (w_store w')" using E(1) [OF S(2-4) i m [unfolded mem_steps_def]] by simp
  then show ?thesis by (simp add: mem_now_def)
qed

text \<open>C26: \<open>examples/memstore\<close> runs to its end.  If the codec reads back what it wrote of the program's four
  users, and the store's clock advances by at most 24 seconds while it runs, no statement panics and the program prints exactly its transcript: \<open>Loaded\<close>, \<open>Hit\<close>, the absent user, two writes
  read back, an eviction, and a batch that loads \<open>u_5\<close> alone, since \<open>u_404\<close> is still remembered as
  absent.  No entry of its cache is left.\<close>

theorem memstore_example:
  assumes "json_ok json" "\<And>k f. newGroup k f = f" "mono_clock clk" "range_ok ord" "range_ok (w_range w)" "rand_ok (w_rand w)"
    and "mem_main json newGroup sdk clk ord w = (r, w')" "mem_now (w_store w') - clk 0 \<le> 24000000000"
  shows "r = Ret () \<and> stdout (w_app w') = stdout (w_app w) @ mem_transcript \<and>
    fmlookup (data (w_store w')) (NonAliasKey ''user'' k) = None"
proof -
  let ?c = "example_users mem_impl json newGroup ''user''" and ?w = "w\<lparr>w_store := mem_New clk ord\<rparr>"
  note S = mem_main_steps [where g = newGroup, OF assms(1-4)]
  note m = S(1) [where sdk = sdk and w = w, unfolded assms(7), symmetric]
  have i: "mem_inv (w_store ?w)" "rand_ok (w_rand ?w)" "range_ok (w_range ?w)"
    "mem_entries (w_store ?w) (fullKey ?c k) = None" for k
    using assms(5,6) S(5,7) by simp_all
  have d: "mem_now (w_store w') + (1 - 1) - mem_now (w_store ?w) \<le> 24000000000" using assms(8) S(6) by simp
  note E = ex_mem.example_ends [OF S(2-4) i m [unfolded mem_steps_def] order_refl d]
  show ?thesis
    using E(1,3) E(2) [of k] by (simp add: mem_transcript_def mem_entries_def)
qed

theorem memstore_example_witness:
  "stdout (w_app (snd (mem_main dotted_codec (\<lambda>k f. f) example_sdk (\<lambda>i. min (int i) 100) sorted_list_of_fset
     (example_world0 (mem_New int sorted_list_of_fset))))) = mem_transcript"
proof -
  let ?clk = "\<lambda>i. min (int i) 100" and ?w = "example_world0 (mem_New int sorted_list_of_fset)"
  let ?r = "mem_main dotted_codec (\<lambda>k f. f) example_sdk ?clk sorted_list_of_fset ?w"
  have clk: "mono_clock ?clk" by (simp add: mono_clock_def min_def)
  note h = dotted_codec_ok refl clk range_ok_sorted example_world0_ok(2,3) prod.collapse [symmetric]
  have "mem_now (w_store (snd ?r)) \<le> 100" by (rule mem_example_time [OF h]) simp
  then have "mem_now (w_store (snd ?r)) - ?clk 0 \<le> 24000000000" by simp
  from memstore_example [OF h this] show ?thesis by simp
qed

subsection \<open>The Redis program\<close>

text \<open>A call of the client that leaves the keys alone, as \<open>PING\<close> and closing the connection do.\<close>

definition quiet_call :: "('s \<Rightarrow> rcontent) \<Rightarrow> ('s \<Rightarrow> int) \<Rightarrow> ('s \<Rightarrow> 's) \<Rightarrow> (error option, 's) op \<Rightarrow> bool" where
  "quiet_call content now arrive f \<longleftrightarrow> (\<forall>s. content (snd (f s)) = content s \<and> later_redis now arrive s (snd (f s)))"

abbreviation redis_users :: "'s RedisConn \<Rightarrow> User Codec \<Rightarrow> (User, 's, example_app) flight_group \<Rightarrow> (User, 's, example_app) Cache" where
  "redis_users conn json g \<equiv> example_users (redis_New conn) json g ''smartcache-example:user''"

context redis_client
begin

lemma redis_main_ends:
  assumes "json_ok json" "\<And>k f. g k f = f" "range_ok (w_range w)" "rand_ok (w_rand w)"
    and "\<And>k. content (w_store w) (NonAliasKey ''smartcache-example:user'' k) = None"
    and "redis_main_steps json g sdk conn w = (r, w')"
  shows "served now arrive (w_store w') - served now arrive (w_store w) \<le> 23000000000 \<Longrightarrow>
      r = Ret () \<and> stdout (w_app w') = stdout (w_app w) @ redis_transcript \<and>
      content (w_store w') (NonAliasKey ''smartcache-example:user'' k) = None"
    and "(\<And>s k. P s \<Longrightarrow> P (snd (redis_Get conn k s))) \<Longrightarrow> (\<And>s k b ttl. P s \<Longrightarrow> P (snd (redis_Set conn k b ttl s))) \<Longrightarrow>
      (\<And>s k. P s \<Longrightarrow> P (snd (redis_Delete conn k s))) \<Longrightarrow> (\<And>s ks. P s \<Longrightarrow> P (snd (redis_GetMany conn ks s))) \<Longrightarrow>
      P (w_store w) \<Longrightarrow> P (w_store w')"
proof -
  let ?c = "redis_users conn json g"
  let ?mgr = "(new_manager (redis_New conn))\<lparr>mg_registry := {|''smartcache-example:user''|}\<rparr> :: (User, 's) Manager"
  have m: "redis_steps ?mgr (on_redis conn ?c) w = (r, w')"
    using assms(6) by (simp add: redis_main_steps_def NewManager_plain Register_example example_on_redis)
  have c: "example_cache ?c" by (rule example_users_ok [OF assms(1,2)])
  have e: "example_cache (on_redis conn ?c)" "cache_client.ttls_ok 1 (on_redis conn ?c)"
    using c example_cacheD(3) [OF c] by simp_all
  have i: "plain_ok content ?c (w_store w)" "redis_entries content (w_store w) (fullKey ?c k) = None" for k
    using assms(5) by (simp_all add: plain_ok_def redis_entries_def)
  note K = ex_redis.example_keeps [OF e Shutdown_example i(1) assms(4,3) i(2) m [unfolded redis_steps_def]]
  show "r = Ret () \<and> stdout (w_app w') = stdout (w_app w) @ redis_transcript \<and>
      content (w_store w') (NonAliasKey ''smartcache-example:user'' k) = None"
    if t: "served now arrive (w_store w') - served now arrive (w_store w) \<le> 23000000000"
  proof -
    from t have t': "served now arrive (w_store w') + (1000000 - 1) - served now arrive (w_store w) \<le> 24000000000" by simp
    note E = ex_redis.example_ends [OF e Shutdown_example i(1) assms(4,3) i(2) m [unfolded redis_steps_def] order_refl t']
    have "str_or_none (content (w_store w') (NonAliasKey ''smartcache-example:user'' k))"
      using K(1) by (simp add: plain_ok_def)
    with E(2) [of k] have "content (w_store w') (NonAliasKey ''smartcache-example:user'' k) = None"
      by (auto simp: redis_entries_def redis_entry_def split: option.splits rvalue.splits)
    with E(1,3) show ?thesis by (simp add: redis_transcript_def)
  qed
  show "P (w_store w')" if P: "\<And>s k. P s \<Longrightarrow> P (snd (redis_Get conn k s))" "\<And>s k b ttl. P s \<Longrightarrow> P (snd (redis_Set conn k b ttl s))"
      "\<And>s k. P s \<Longrightarrow> P (snd (redis_Delete conn k s))" "\<And>s ks. P s \<Longrightarrow> P (snd (redis_GetMany conn ks s))" "P (w_store w)"
  proof -
    have batch: "P (w_store (snd (readManyRaw (on_redis conn ?c) ks w)))" if "P (w_store w)" for ks and w :: "'s example_world"
      using P(4) that by (simp add: readManyRaw_def c_isAliasGroup_def on_redis_def case_prod_unfold Let_def split: sum.splits)
    have "cache_client (\<lambda>k. redis_Get conn (fullKey ?c k)) (\<lambda>k. redis_Set conn (fullKey ?c k)) (\<lambda>k. redis_Delete conn (fullKey ?c k))
        (\<lambda>s k. redis_entries content s (fullKey ?c k)) (served now arrive) (\<lambda>s. plain_ok content ?c s \<and> P s) redis_expiry 1000000 1
        (on_redis conn ?c)"
      by (rule cache_client_and [OF rplain.cache_client_axioms]) (rule P batch, assumption)+
    note C = example_client.example_keeps [OF example_client.intro [OF this]]
    from C(1) [OF e Shutdown_example conjI [OF i(1) P(5)] assms(4,3) i(2) m [unfolded redis_steps_def]] show ?thesis by simp
  qed
qed

end

lemma redis_main_cases:
  assumes "redis_main json g sdk os_Getenv lib w = (r, w')" "\<And>addr. lib_NewClient lib addr = conn"
    and "fst (lib_Ping lib (w_store w)) = None"
  obtains r2 w2 where "redis_main_steps json g sdk conn (w\<lparr>w_store := snd (lib_Ping lib (w_store w))\<rparr>) = (r2, w2)"
    "r = fst (exit_status (r2, w2))" "w' = w2\<lparr>w_store := snd (lib_Close lib (w_store w2))\<rparr>"
proof -
  obtain r2 w2 where s: "redis_main_steps json g sdk conn (w\<lparr>w_store := snd (lib_Ping lib (w_store w))\<rparr>) = (r2, w2)"
    by (metis prod.exhaust)
  then show ?thesis
    using assms by (intro that [OF s]) (auto simp: redis_main_def on_store_def exit_status_def Let_def case_prod_unfold split: go.splits)
qed

text \<open>C27: \<open>examples/redisstore\<close> runs to its end on any server that answers: if the address can be pinged,
  no key of its cache is left over from an earlier run, the codec reads back what it wrote of the
  program's four users, and the server's clock advances by at most 23 seconds while it runs, the program exits with status 0, prints exactly its transcript and leaves no key of its cache.\<close>

theorem redisstore_example:
  assumes "redis_client R content now conn arrive" "\<And>addr. lib_NewClient lib addr = conn"
    and "fst (lib_Ping lib (w_store w)) = None"
    and "quiet_call content now arrive (lib_Ping lib)" "quiet_call content now arrive (lib_Close lib)"
    and "json_ok json" "\<And>k f. newGroup k f = f" "range_ok (w_range w)" "rand_ok (w_rand w)"
    and "\<And>k. content (w_store w) (NonAliasKey ''smartcache-example:user'' k) = None"
    and "redis_main json newGroup sdk os_Getenv lib w = (r, w')"
    and "served now arrive (w_store w') - served now arrive (w_store w) \<le> 23000000000"
  shows "r = Ret 0 \<and> stdout (w_app w') = stdout (w_app w) @ redis_transcript \<and>
    content (w_store w') (NonAliasKey ''smartcache-example:user'' k) = None"
proof -
  let ?s = "snd (lib_Ping lib (w_store w))" and ?w = "w\<lparr>w_store := snd (lib_Ping lib (w_store w))\<rparr>"
  obtain r2 w2 where m: "redis_main_steps json newGroup sdk conn ?w = (r2, w2)" "r = fst (exit_status (r2, w2))"
    "w' = w2\<lparr>w_store := snd (lib_Close lib (w_store w2))\<rparr>"
    by (rule redis_main_cases [OF assms(11,2,3)])
  have q: "content ?s = content (w_store w)" "served now arrive (w_store w) \<le> served now arrive ?s"
    "content (w_store w') = content (w_store w2)" "served now arrive (w_store w2) \<le> served now arrive (w_store w')"
    using assms(4,5) by (simp_all add: m(3) quiet_call_def later_redis_def served_def)
  have "r2 = Ret () \<and> stdout (w_app w2) = stdout (w_app ?w) @ redis_transcript \<and>
      content (w_store w2) (NonAliasKey ''smartcache-example:user'' k) = None"
    by (rule redis_client.redis_main_ends(1) [OF assms(1,6,7) _ _ _ m(1)]) (use assms(8-10,12) q in simp_all)
  with m(2,3) q(3) show ?thesis by (simp add: exit_status_def)
qed

definition rs_lib :: "refserver redis_lib" where
  "rs_lib = \<lparr>lib_NewClient = (\<lambda>_. rs_conn), lib_Ping = (\<lambda>s. (None, s)), lib_Close = (\<lambda>s. (None, s))\<rparr>"

definition still_server :: refserver where
  "still_server = \<lparr>rs_keys = fmempty, rs_now = 0, rs_lag = 0\<rparr>"

definition still :: "refserver \<Rightarrow> bool" where
  "still s \<longleftrightarrow> rs_now s = 0 \<and> rs_lag s = 0"

lemma redis_ops_still:
  assumes "still s"
  shows "still (snd (redis_Get rs_conn k s))" "still (snd (redis_Set rs_conn k b ttl s))"
    "still (snd (redis_Delete rs_conn k s))" "still (snd (redis_GetMany rs_conn ks s))"
  using assms
  by (simp_all add: still_def redis_Get_def redis_Set_def redis_Delete_def redis_GetMany_def rs_conn_def rs_conn_by_def rs_cmds_def rs_arrive_def
      rs_put_def case_prod_unfold Let_def)

theorem redisstore_example_witness:
  "stdout (w_app (snd (redis_main dotted_codec (\<lambda>k f. f) example_sdk (\<lambda>_. []) rs_lib (example_world0 still_server)))) =
     redis_transcript"
proof -
  let ?w = "example_world0 still_server"
  let ?r = "redis_main dotted_codec (\<lambda>k f. f) example_sdk (\<lambda>_. []) rs_lib ?w"
  have lib: "lib_NewClient rs_lib a = rs_conn" "lib_Ping rs_lib s = (None, s)" "lib_Close rs_lib s = (None, s)" for a s
    by (simp_all add: rs_lib_def)
  have quiet: "quiet_call rs_content rs_now rs_arrive (lib_Ping rs_lib)" "quiet_call rs_content rs_now rs_arrive (lib_Close rs_lib)"
    by (simp_all add: quiet_call_def later_redis_def lib)
  have empty: "rs_content (w_store ?w) k = None" for k by (simp add: still_server_def rs_content_def)
  have s0: "still (w_store ?w)" by (simp add: still_server_def still_def)
  obtain r2 w2 where m: "redis_main_steps dotted_codec (\<lambda>k f. f) example_sdk rs_conn (?w\<lparr>w_store := snd (lib_Ping rs_lib (w_store ?w))\<rparr>) = (r2, w2)"
    "snd ?r = w2\<lparr>w_store := snd (lib_Close rs_lib (w_store w2))\<rparr>"
    by (rule redis_main_cases [where json = dotted_codec and g = "\<lambda>k f. f" and sdk = example_sdk and os_Getenv = "\<lambda>_. []"
          and lib = rs_lib and w = ?w and conn = rs_conn, OF prod.collapse [symmetric]]) (simp_all add: lib)
  have "still (w_store w2)"
    by (rule ref_client.redis_main_ends(2) [OF dotted_codec_ok refl _ _ _ m(1)])
      (use empty s0 in \<open>simp_all add: lib redis_ops_still\<close>)
  then have sr: "still (w_store (snd ?r))" unfolding m(2) by (simp add: lib)
  have t: "still s \<Longrightarrow> served rs_now rs_arrive s = 0" for s by (simp add: served_def rs_arrive_def still_def)
  have "served rs_now rs_arrive (w_store (snd ?r)) - served rs_now rs_arrive (w_store ?w) \<le> 23000000000"
    unfolding t [OF sr] t [OF s0] by simp
  from redisstore_example [OF ref_client.redis_client_axioms lib(1) _ quiet dotted_codec_ok refl _ _ empty prod.collapse [symmetric] this]
  show ?thesis by (simp add: lib)
qed

end
