(* ===== verification/Spec2Isabelle.thy ===== *)
theory Spec2Isabelle
  imports Store_Props Alias_Props Cache_Props Mem_Cache_Props Manager_Props Redis_Cache_Props Redis_Alias_Props Redis_Props Group_Props Example_Props
begin

text \<open>
  A verification library for smartcache, a typed read-through cache for Go with pluggable stores.

  \<^bold>\<open>The program.\<close>  A \<open>Manager\<close> (\<open>manager.go\<close>) registers caches, one per entity type, each with a
  key prefix, TTLs, a codec and a store.  A \<open>Cache\<close> (\<open>cache.go\<close>, \<open>alias_cache.go\<close>) reads through:
  a hit is decoded, a miss runs the caller's loader (joined by singleflight), stores its value under
  a jittered TTL (\<open>jitter.go\<close>) or remembers that there is none by a marker, and counts the outcome
  (\<open>telemetry.go\<close>).  Stores are \<open>memstore\<close> (a map under a mutex) and \<open>redisstore\<close> (a Redis
  connection).  Both also offer alias groups: records under a primary key that are found by aliases,
  with a value, a members hash and one pointer per alias, all named by \<open>internal/keyspace\<close>.  The
  \<open>redisstore\<close> has two strategies: colocated (one Lua script per operation) and sharded (a script per
  record, pointers written and validated separately).  The programs of \<open>examples/\<close> put all of this to
  work, one on each store.

  \<^bold>\<open>Theories and sources.\<close>
    \<^item> \<open>SC_Prelude\<close>, \<open>Float64\<close>: shared types and lemmas; binary64 arithmetic as \<open>jitter.go\<close> uses it.
    \<^item> \<open>Errors\<close> (\<open>errors.go\<close>), \<open>Keyspace\<close> (\<open>internal/keyspace\<close>), \<open>Jitter\<close> (\<open>jitter.go\<close>),
      \<open>Telemetry\<close> (\<open>telemetry.go\<close>).
    \<^item> \<open>Store_Interface\<close> (\<open>store.go\<close>, \<open>alias.go\<close>): the interfaces as records of operations; the locale
      \<open>timed_store\<close> is the contract of a store of entries with deadlines.
    \<^item> \<open>Memstore\<close>, \<open>Mem_Alias\<close> (\<open>memstore/memstore.go\<close>, \<open>aliasops.go\<close>); \<open>Mem_Concurrency\<close> splits \<open>Get\<close>
      into its two critical sections.
    \<^item> \<open>Cache\<close> (\<open>cache.go\<close>, \<open>alias_cache.go\<close>), \<open>Manager\<close> (\<open>manager.go\<close>).
    \<^item> \<open>Redis_Server\<close>, \<open>Redis_Scripts\<close> (\<open>redisstore/scripts\<close>), \<open>Glob\<close> and \<open>Redis_Store\<close>
      (\<open>redisstore.go\<close>, \<open>prefix.go\<close>, \<open>scan.go\<close>, \<open>colocated.go\<close>, \<open>sharded.go\<close>).
    \<^item> \<open>Examples\<close> (\<open>examples/memstore/main.go\<close>, \<open>examples/redisstore/main.go\<close>): both programs with their
      texts, a step of a program being a definition that takes its texts as arguments.

  A Go struct is a record of the same name and fields, a method a definition of the same name with a
  prefix for its receiver (\<open>mem_\<close>, \<open>mao_\<close>, \<open>redis_\<close>, \<open>co_\<close>, \<open>sh_\<close>).  An operation takes the state of
  its store to a result and the next state; errors are values, \<open>error + 'a\<close> or \<open>error option\<close>; a panic
  is a constructor of its own.  A closure or loop of a function has a definition of its own.

  \<^bold>\<open>Lemmas.\<close>
    \<^item> \<open>Alias_Spec\<close>, \<open>Alias_Run\<close>: the invariant of an alias group in memory, and that every operation keeps it.
    \<^item> \<open>Cache_Laws\<close>, \<open>Cache_Many\<close>, \<open>Cache_Client\<close>, \<open>Cache_Run\<close>: what a cache does on any store.  The locales
      \<open>value_client\<close> and \<open>cache_client\<close> extend \<open>timed_store\<close> by the calls a cache makes; their lemmas are
      proved once and used for the memory store (\<open>Mem_Cache\<close>), for Redis (\<open>Redis_Cache\<close>) and for groups on Redis
      under both strategies (\<open>Redis_Group_Cache\<close>).  \<open>cache_run\<close> is any sequence of operations of a
      cache, of its source of truth and of the rest of the program.
    \<^item> \<open>Cache_Isolation\<close>: one registered cache never touches the entries of another.
    \<^item> \<open>Redis_Lua\<close>, \<open>Redis_Colocated\<close>: the effect of the scripts on the live content; \<open>Redis_Group\<close>: the
      bookkeeping invariant of colocated groups; \<open>Redis_Client\<close>: the operations.
    \<^item> \<open>Alias_Table\<close>: what an alias group promises, as a table of values and owners, and the locale
      \<open>alias_group\<close> of stores that implement it: their sequences of calls are sequences of the table's, and
      get the table's answers while nothing lapses.  \<open>Mem_Table\<close> and \<open>Redis_Table\<close> discharge it for the
      memory store and for colocated groups on Redis.
    \<^item> \<open>Redis_Sharded\<close>: sharded groups, with what holds under arbitrary interference proved apart.
    \<^item> \<open>Redis_Scan\<close>, \<open>Redis_Prefix\<close>, \<open>Redis_Sharded_Prefix\<close>: the \<open>SCAN\<close> loop and prefix eviction.
    \<^item> \<open>Redis_Reference\<close>: an executable server and client that keep every contract assumed of Redis.
    \<^item> \<open>Example_Run\<close>: what the steps of the example programs print on any store, as triples over what the
      store holds and the time that has passed.
    \<^item> The properties are in \<open>Store_Props\<close>, \<open>Alias_Props\<close>, \<open>Cache_Props\<close>, \<open>Mem_Cache_Props\<close>,
      \<open>Manager_Props\<close>, \<open>Redis_Props\<close>, \<open>Redis_Cache_Props\<close>, \<open>Redis_Alias_Props\<close>, \<open>Group_Props\<close> and \<open>Example_Props\<close>;
      \<open>Fixtures\<close> holds the values their witnesses run on.

  \<^bold>\<open>Parameters.\<close>  The code relies on these, and they are arguments of the model: the codec (encoding/json
  or the caller's), singleflight's \<open>Do\<close>, the OpenTelemetry meter, the random source and the clock (as
  streams), the order in which \<open>range\<close> visits a map, the conversion of a float outside the range of
  int64, the caller's loaders and writers.  Of Redis: the connection \<open>RedisConn\<close>, the commands the scripts
  call, the glob matcher, \<open>SCAN\<close> and \<open>ForEachMaster\<close>; of the example on Redis, the client library's
  \<open>NewClient\<close>, \<open>Ping\<close> and \<open>Close\<close> and the environment.  Documented behaviour of these is stated by
  the locales \<open>redis_server\<close>, \<open>redis_calls\<close>, \<open>redis_client\<close>, \<open>glob_syntax\<close>, \<open>redis_scan\<close>,
  \<open>key_scanning\<close> and \<open>redis_prefix\<close>.

  \<^bold>\<open>Choices and bounds.\<close>  Bytes and strings are both \<open>string\<close>, a character being a byte.  Durations
  and instants are integers; arithmetic that can leave int64 wraps (\<open>wrap64\<close>).  A loader acts on
  the source of truth only.  The optional interfaces \<open>AliasOps\<close> and \<open>PrefixAliasOps\<close> are one record with an
  optional field.  No fuel is used: every loop is structural but the \<open>SCAN\<close> loop, which is a
  \<open>partial_function\<close> and is proved to return under \<open>SCAN\<close>'s guarantee.  A connection in \<open>redis_client\<close> does
  not fail and no other client writes between a command's sending and its running; \<open>redis_calls\<close> allows any
  other client, and \<open>others_hold\<close> states what they keep.  Redis deadlines are milliseconds; the TTL properties on Redis leave one millisecond.
  What the example programs print depends on the clock only through their shortest TTL, 30 s for an
  absent user less a fifth of jitter: 24 s on the memory store, 23 s on Redis, which the properties of the
  programs assume not to be exceeded; of the codec they assume a round trip of the programs' own users only.  The verbs of \<open>fmt\<close> are
  modelled for the values that are printed; \<open>%q\<close> quotes and escapes ASCII.

  \<^bold>\<open>Not modelled.\<close>  \<open>doc.go\<close> (a comment), contexts and their cancellation, which the code hands on to the
  store and the loader, and the concurrency inside \<open>ForEachMaster\<close>, whose batches the code serialises.
\<close>

end
